(* ===== verification/Prelude.thy ===== *)
theory Prelude
  imports Main "HOL-Library.Sublist" "HOL-Library.AList" "HOL-Library.Char_ord"
    "HOL-Library.List_Lexorder"
begin

text \<open>
  Shared vocabulary of the development: Go strings as byte lists, the functions of package
  \<open>strings\<close> that the proxy uses, Go maps as association lists with distinct keys, and
  the lemma collections that the component theories extend.

  A Go string is a sequence of bytes, so it is a \<open>char list\<close>; \<open>len\<close> is
  \<open>length\<close> and string comparison is the lexicographic order on bytes
  (\<open>List_Lexorder\<close> over \<open>Char_ord\<close>).
\<close>

named_theorems go_simps \<open>evaluation of Go string and path operations\<close>
named_theorems scope_inv \<open>preservation of the scope invariants\<close>

section \<open>Package strings\<close>

abbreviation hasPrefix :: "string \<Rightarrow> string \<Rightarrow> bool" where
  "hasPrefix s p \<equiv> prefix p s"

abbreviation hasSuffix :: "string \<Rightarrow> string \<Rightarrow> bool" where
  "hasSuffix s p \<equiv> suffix p s"

definition cutPrefix :: "string \<Rightarrow> string \<Rightarrow> string option" where
  "cutPrefix s p = (if hasPrefix s p then Some (drop (length p) s) else None)"

definition trimPrefix :: "string \<Rightarrow> string \<Rightarrow> string" where
  "trimPrefix s p = (if hasPrefix s p then drop (length p) s else s)"

text \<open>\<open>strings.Split(s, c)\<close> for a one-byte separator: never the empty list.\<close>

fun splitOn :: "char \<Rightarrow> string \<Rightarrow> string list" where
  "splitOn c [] = [[]]"
| "splitOn c (x # xs) =
     (if x = c then [] # splitOn c xs
      else (case splitOn c xs of [] \<Rightarrow> [[x]] | s # ss \<Rightarrow> (x # s) # ss))"

text \<open>\<open>strings.Join(ss, sep)\<close>.\<close>

fun joinWith :: "string \<Rightarrow> string list \<Rightarrow> string" where
  "joinWith sep [] = []"
| "joinWith sep [s] = s"
| "joinWith sep (s # t # ts) = s @ sep @ joinWith sep (t # ts)"

lemma splitOn_not_Nil [simp]: "splitOn c s \<noteq> []"
  by (induction s) (auto split: list.splits)

lemma joinWith_Cons: "ss \<noteq> [] \<Longrightarrow> joinWith sep (s # ss) = s @ sep @ joinWith sep ss"
  by (cases ss) auto

lemma joinWith_append:
  "ss \<noteq> [] \<Longrightarrow> ts \<noteq> [] \<Longrightarrow> joinWith sep (ss @ ts) = joinWith sep ss @ sep @ joinWith sep ts"
proof (induction ss)
  case Nil
  then show ?case by simp
next
  case (Cons s ss)
  then show ?case by (cases "ss = []") (simp_all add: joinWith_Cons)
qed

lemma joinWith_splitOn [simp]: "joinWith [c] (splitOn c s) = s"
proof (induction s)
  case Nil
  then show ?case by simp
next
  case (Cons x xs)
  then show ?case
    by (cases "splitOn c xs"; cases "tl (splitOn c xs)") (auto simp: joinWith_Cons)
qed

lemma splitOn_free: "c \<notin> set s \<Longrightarrow> splitOn c s = [s]"
  by (induction s) auto

lemma splitOn_sep: "splitOn c (s @ c # t) = splitOn c s @ splitOn c t"
proof (induction s)
  case Nil
  then show ?case by simp
next
  case (Cons x xs)
  then show ?case by (cases "splitOn c xs") auto
qed

lemma splitOn_joinWith:
  assumes "ss \<noteq> []" and "\<And>s. s \<in> set ss \<Longrightarrow> c \<notin> set s"
  shows "splitOn c (joinWith [c] ss) = ss"
  using assms
proof (induction ss)
  case Nil
  then show ?case by simp
next
  case (Cons s ss)
  from Cons.prems(2) have s: "c \<notin> set s" by simp
  show ?case
  proof (cases "ss = []")
    case True
    with s show ?thesis by (simp add: splitOn_free)
  next
    case False
    have "splitOn c (joinWith [c] ss) = ss"
      using False Cons.prems(2) by (intro Cons.IH) auto
    with s False show ?thesis by (simp add: joinWith_Cons splitOn_sep splitOn_free)
  qed
qed

lemma splitOn_seg_free: "s \<in> set (splitOn c t) \<Longrightarrow> c \<notin> set s"
proof (induction t arbitrary: s)
  case Nil
  then show ?case by simp
next
  case (Cons x t)
  obtain u us where u: "splitOn c t = u # us" by (cases "splitOn c t") auto
  have "c \<notin> set u" and "\<And>v. v \<in> set us \<Longrightarrow> c \<notin> set v"
    using Cons.IH by (simp_all add: u)
  with Cons.prems u show ?case by (auto split: if_splits)
qed

lemma joinWith_inj:
  assumes "joinWith [c] ss = joinWith [c] ts" and "ss \<noteq> []" and "ts \<noteq> []"
    and "\<And>s. s \<in> set ss \<Longrightarrow> c \<notin> set s" and "\<And>t. t \<in> set ts \<Longrightarrow> c \<notin> set t"
  shows "ss = ts"
proof -
  have "ss = splitOn c (joinWith [c] ss)" by (rule splitOn_joinWith [symmetric]) fact+
  also have "\<dots> = splitOn c (joinWith [c] ts)" by (simp only: assms(1))
  also have "\<dots> = ts" by (rule splitOn_joinWith) fact+
  finally show ?thesis .
qed

lemma cutPrefix_append [simp]: "cutPrefix (p @ s) p = Some s"
  by (simp add: cutPrefix_def)

lemma cutPrefix_Some: "cutPrefix s p = Some t \<longleftrightarrow> s = p @ t"
  by (auto simp: cutPrefix_def prefix_def)

section \<open>Go maps\<close>

text \<open>
  A Go map is an association list with distinct keys. The list order stands for the
  iteration order, which Go leaves unspecified; results that a caller can see must not
  depend on it, and the theorems on sorted results show that they do not.
\<close>

type_synonym ('k, 'v) gomap = "('k \<times> 'v) list"

abbreviation gget :: "('k, 'v) gomap \<Rightarrow> 'k \<Rightarrow> 'v option" where
  "gget m k \<equiv> map_of m k"

abbreviation gput :: "'k \<Rightarrow> 'v \<Rightarrow> ('k, 'v) gomap \<Rightarrow> ('k, 'v) gomap" where
  "gput k v m \<equiv> AList.update k v m"

abbreviation gdel :: "'k \<Rightarrow> ('k, 'v) gomap \<Rightarrow> ('k, 'v) gomap" where
  "gdel k m \<equiv> AList.delete k m"

abbreviation gkeys :: "('k, 'v) gomap \<Rightarrow> 'k list" where
  "gkeys m \<equiv> map fst m"

definition wf_map :: "('k, 'v) gomap \<Rightarrow> bool" where
  "wf_map m \<longleftrightarrow> distinct (gkeys m)"

lemma wf_map_Nil [simp, intro]: "wf_map []"
  by (simp add: wf_map_def)

lemma wf_map_gput [simp, intro]: "wf_map m \<Longrightarrow> wf_map (gput k v m)"
  by (simp add: wf_map_def distinct_update)

lemma wf_map_gdel [simp, intro]: "wf_map m \<Longrightarrow> wf_map (gdel k m)"
  by (simp add: wf_map_def distinct_delete)

lemma wf_map_filter [simp, intro]: "wf_map m \<Longrightarrow> wf_map (filter P m)"
  by (simp add: wf_map_def distinct_map_filter)

lemma gget_gput [simp]: "gget (gput k v m) k' = (if k' = k then Some v else gget m k')"
  by (simp add: update_conv')

lemma gget_gdel [simp]: "gget (gdel k m) k' = (if k' = k then None else gget m k')"
  by (simp add: delete_conv')

lemma set_gkeys: "set (gkeys m) = {k. gget m k \<noteq> None}"
  by (simp only: set_map dom_map_of_conv_image_fst [symmetric] dom_def)

lemma gget_filter:
  "wf_map m \<Longrightarrow> gget (filter (\<lambda>(k, v). P k v) m) k =
     (case gget m k of None \<Rightarrow> None | Some v \<Rightarrow> if P k v then Some v else None)"
proof (induction m)
  case Nil
  then show ?case by simp
next
  case (Cons a m)
  obtain k' v' where a: "a = (k', v')" by (cases a)
  have "k' \<notin> fst ` set (filter (\<lambda>(k, v). P k v) m)" and "wf_map m"
    using Cons.prems by (auto simp: a wf_map_def)
  moreover from this(1) have "gget (filter (\<lambda>(k, v). P k v) m) k' = None"
    by (simp only: map_of_eq_None_iff) simp
  ultimately show ?case using Cons.IH by (simp add: a)
qed

lemma gget_map_values:
  "gget (map (\<lambda>(k, v). (k, f k v)) m) k = map_option (f k) (gget m k)"
  by (induction m) auto

lemma gkeys_map_values [simp]: "gkeys (map (\<lambda>(k, v). (k, f k v)) m) = gkeys m"
  by (induction m) auto

lemma wf_map_map_values [simp]: "wf_map (map (\<lambda>(k, v). (k, f k v)) m) = wf_map m"
  by (simp only: wf_map_def gkeys_map_values)

text \<open>Sorting the keys removes the dependence on the iteration order.\<close>

lemma sort_gkeys:
  fixes m :: "('k::linorder, 'v) gomap"
  assumes "wf_map m"
  shows "sort (gkeys m) = sorted_list_of_set {k. gget m k \<noteq> None}"
proof -
  have "sort (gkeys m) = sorted_list_of_set (set (gkeys m))"
    using assms unfolding wf_map_def
    by (simp only: sorted_list_of_set_sort_remdups distinct_remdups_id)
  then show ?thesis by (simp only: set_gkeys)
qed

end
