(* ===== verification/Utf8.thy ===== *)
theory Utf8
  imports Prelude
begin

text \<open>
  The decoding that a Go \<open>range\<close> loop over a string performs, byte by byte, and the
  functions of package \<open>strings\<close> that rest on it (\<open>TrimSpace\<close>, \<open>Lines\<close>).
\<close>

section \<open>Ranging over a string\<close>

definition byteOf :: "char \<Rightarrow> nat" where
  "byteOf c = of_char c"

definition runeError :: nat where
  "runeError = 65533"

text \<open>The bytes that may follow the lead byte, which exclude overlong forms and surrogates.\<close>

definition secondByteOk :: "nat \<Rightarrow> nat \<Rightarrow> bool" where
  "secondByteOk b0 b1 \<longleftrightarrow>
     (if b0 = 224 then 160 \<le> b1 \<and> b1 \<le> 191
      else if b0 = 237 then 128 \<le> b1 \<and> b1 \<le> 159
      else if b0 = 240 then 144 \<le> b1 \<and> b1 \<le> 191
      else if b0 = 244 then 128 \<le> b1 \<and> b1 \<le> 143
      else 128 \<le> b1 \<and> b1 \<le> 191)"

definition contByte :: "nat \<Rightarrow> bool" where
  "contByte b \<longleftrightarrow> 128 \<le> b \<and> b \<le> 191"

text \<open>
  One step of the loop: the rune and its width in bytes. An invalid or truncated sequence is
  the replacement character with width 1.
\<close>

fun decodeRune :: "string \<Rightarrow> nat \<times> nat" where
  "decodeRune [] = (runeError, 0)"
| "decodeRune (c0 # cs) =
     (let b0 = byteOf c0 in
      if b0 < 128 then (b0, 1)
      else if b0 < 194 \<or> 244 < b0 then (runeError, 1)
      else case cs of
          [] \<Rightarrow> (runeError, 1)
        | c1 # cs1 \<Rightarrow>
            let b1 = byteOf c1 in
            if \<not> secondByteOk b0 b1 then (runeError, 1)
            else if b0 < 224 then ((b0 - 192) * 64 + (b1 - 128), 2)
            else case cs1 of
                [] \<Rightarrow> (runeError, 1)
              | c2 # cs2 \<Rightarrow>
                  let b2 = byteOf c2 in
                  if \<not> contByte b2 then (runeError, 1)
                  else if b0 < 240 then
                    ((b0 - 224) * 4096 + (b1 - 128) * 64 + (b2 - 128), 3)
                  else case cs2 of
                      [] \<Rightarrow> (runeError, 1)
                    | c3 # cs3 \<Rightarrow>
                        let b3 = byteOf c3 in
                        if \<not> contByte b3 then (runeError, 1)
                        else ((b0 - 240) * 262144 + (b1 - 128) * 4096
                              + (b2 - 128) * 64 + (b3 - 128), 4))"

lemma decodeRune_width:
  "s \<noteq> [] \<Longrightarrow> 0 < snd (decodeRune s) \<and> snd (decodeRune s) \<le> length s"
  by (cases s) (auto simp: Let_def split: list.split)

lemma decodeRune_newline:
  "s \<noteq> [] \<Longrightarrow> fst (decodeRune s) = 10 \<longleftrightarrow> byteOf (hd s) = 10"
  by (cases s) (auto simp: Let_def runeError_def secondByteOk_def contByte_def split: list.split)

lemma decodeRune_newline_width:
  "s \<noteq> [] \<Longrightarrow> fst (decodeRune s) = 10 \<Longrightarrow> snd (decodeRune s) = 1"
  using decodeRune_newline [of s] by (cases s) auto

text \<open>The whole string as its runes with their widths.\<close>

function decodeAll :: "string \<Rightarrow> (nat \<times> nat) list" where
  "decodeAll s =
     (if s = [] then [] else decodeRune s # decodeAll (drop (snd (decodeRune s)) s))"
  by pat_completeness auto
termination
  by (relation "measure length") (use decodeRune_width in auto)

declare decodeAll.simps [simp del]

lemma decodeAll_Nil [simp]: "decodeAll [] = []"
  by (simp add: decodeAll.simps)

definition widths :: "(nat \<times> nat) list \<Rightarrow> nat" where
  "widths rs = sum_list (map snd rs)"

lemma widths_simps [simp]:
  "widths [] = 0" "widths (r # rs) = snd r + widths rs" "widths (rs @ ss) = widths rs + widths ss"
  by (simp_all add: widths_def)

lemma decodeAll_drop:
  "decodeAll s = P @ Q \<Longrightarrow> widths P \<le> length s \<and> decodeAll (drop (widths P) s) = Q"
proof (induction P arbitrary: s)
  case (Cons r P)
  then have s: "s \<noteq> []" by (cases s) auto
  with Cons.prems have "r = decodeRune s" and "decodeAll (drop (snd r) s) = P @ Q"
    by (auto simp: decodeAll.simps [of s])
  with Cons.IH [of "drop (snd r) s"] decodeRune_width [OF s] show ?case
    by (simp add: add.commute le_diff_conv2)
qed simp

lemma widths_decodeAll: "widths (decodeAll s) = length s"
proof (induction s rule: decodeAll.induct)
  case (1 s)
  then show ?case using decodeRune_width [of s]
    by (cases "s = []") (auto simp: decodeAll.simps [of s])
qed

lemma decodeAll_widths_pos: "(r, w) \<in> set (decodeAll s) \<Longrightarrow> 0 < w"
proof (induction s rule: decodeAll.induct)
  case (1 s)
  show ?case
  proof (cases "s = []")
    case False
    with "1.prems" consider "(r, w) = decodeRune s" | "(r, w) \<in> set (decodeAll (drop (snd (decodeRune s)) s))"
      by (auto simp: decodeAll.simps [of s])
    then show ?thesis
      using "1.IH" [OF False] decodeRune_width [OF False] by cases (metis snd_conv, blast)
  qed (use 1 in auto)
qed

lemma decodeAll_newline_width: "(10, w) \<in> set (decodeAll s) \<Longrightarrow> w = 1"
proof (induction s rule: decodeAll.induct)
  case (1 s)
  show ?case
  proof (cases "s = []")
    case False
    with "1.prems" consider "(10, w) = decodeRune s"
      | "(10, w) \<in> set (decodeAll (drop (snd (decodeRune s)) s))"
      by (auto simp: decodeAll.simps [of s])
    then show ?thesis
      using "1.IH" [OF False] decodeRune_newline_width [OF False]
      by cases (metis fst_conv snd_conv, blast)
  qed (use 1 in auto)
qed

text \<open>What \<open>for i, r := range s\<close> yields: each rune with the offset it starts at.\<close>

fun offsets :: "nat \<Rightarrow> (nat \<times> nat) list \<Rightarrow> (nat \<times> nat) list" where
  "offsets i [] = []"
| "offsets i ((r, w) # rs) = (i, r) # offsets (i + w) rs"

definition rangeString :: "string \<Rightarrow> (nat \<times> nat) list" where
  "rangeString s = offsets 0 (decodeAll s)"

text \<open>ASCII strings decode to their bytes.\<close>

definition asciiStr :: "string \<Rightarrow> bool" where
  "asciiStr s \<longleftrightarrow> (\<forall>c \<in> set s. byteOf c < 128)"

lemma decodeAll_ascii: "asciiStr s \<Longrightarrow> decodeAll s = map (\<lambda>c. (byteOf c, 1)) s"
proof (induction s)
  case (Cons c s)
  then have "decodeRune (c # s) = (byteOf c, 1)" and "asciiStr s"
    by (simp_all add: asciiStr_def)
  with Cons.IH show ?case by (simp add: decodeAll.simps [of "c # s"])
qed simp

section \<open>White space and lines\<close>

text \<open>\<open>unicode.IsSpace\<close>.\<close>

definition isSpace :: "nat \<Rightarrow> bool" where
  "isSpace r \<longleftrightarrow>
     r \<in> {9, 10, 11, 12, 13, 32, 133, 160, 5760, 8232, 8233, 8239, 8287, 12288} \<or>
     (8192 \<le> r \<and> r \<le> 8202)"

text \<open>
  \<open>strings.TrimSpace\<close>. The library decodes the end of the string backwards; since a rune
  starts at the same byte in both directions unless the bytes are invalid, and invalid bytes
  are no space, the trailing spaces are those of the forward decoding.
\<close>

definition trimSpace :: "string \<Rightarrow> string" where
  "trimSpace s =
     (let cells = decodeAll s;
          lead = takeWhile (\<lambda>rw. isSpace (fst rw)) cells;
          rest = dropWhile (\<lambda>rw. isSpace (fst rw)) cells;
          trail = takeWhile (\<lambda>rw. isSpace (fst rw)) (rev rest)
      in take (length s - widths lead - widths trail) (drop (widths lead) s))"

definition newlineChar :: char where
  "newlineChar = CHR 0x0A"

text \<open>\<open>strings.Lines\<close>: the lines with their newline; a last line without one if not empty.\<close>

definition stringsLines :: "string \<Rightarrow> string list" where
  "stringsLines s =
     (let segs = splitOn newlineChar s
      in map (\<lambda>l. l @ [newlineChar]) (butlast segs) @ (if last segs = [] then [] else [last segs]))"

lemma takeWhile_spaces:
  assumes "\<forall>x \<in> set xs. P x" and "ys \<noteq> []" and "\<not> P (hd ys)"
  shows "takeWhile P (xs @ ys) = xs" and "dropWhile P (xs @ ys) = ys"
  using assms by (cases ys; simp add: takeWhile_append2 dropWhile_append2)+

lemma trimSpace_both:
  assumes "asciiStr (sp @ d @ ts)" and "list_all (\<lambda>c. isSpace (byteOf c)) (sp @ ts)" and "d \<noteq> []"
    and "\<not> isSpace (byteOf (hd d))" and "\<not> isSpace (byteOf (last d))"
  shows "trimSpace (sp @ d @ ts) = d"
proof -
  let ?cell = "\<lambda>c. (byteOf c, 1 :: nat)" and ?S = "\<lambda>rw :: nat \<times> nat. isSpace (fst rw)"
  have cells: "decodeAll (sp @ d @ ts) = map ?cell sp @ map ?cell d @ map ?cell ts"
    using decodeAll_ascii [OF assms(1)] by simp
  have all: "\<forall>x \<in> set (map ?cell sp). ?S x" "\<forall>x \<in> set (rev (map ?cell ts)). ?S x"
    using assms(2) by (auto simp: list_all_iff)
  have ends: "map ?cell d @ map ?cell ts \<noteq> []" "\<not> ?S (hd (map ?cell d @ map ?cell ts))"
    "rev (map ?cell d) \<noteq> []" "\<not> ?S (hd (rev (map ?cell d)))"
    using assms(3-5) by (simp_all add: hd_append hd_map hd_rev last_map)
  have trail: "takeWhile ?S (rev (map ?cell d @ map ?cell ts)) = rev (map ?cell ts)"
    using takeWhile_spaces(1) [OF all(2) ends(3,4)] by simp
  have "widths (map ?cell sp) = length sp" "widths (rev (map ?cell ts)) = length ts"
    by (simp_all add: widths_def comp_def sum_list_triv rev_map [symmetric])
  then show ?thesis
    by (simp only: trimSpace_def Let_def cells takeWhile_spaces [OF all(1) ends(1,2)] trail) simp
qed

lemma trimSpace_ascii:
  assumes "asciiStr (sp @ d)" and "list_all (\<lambda>c. isSpace (byteOf c)) sp" and "d \<noteq> []"
    and "\<not> isSpace (byteOf (hd d))" and "\<not> isSpace (byteOf (last d))"
  shows "trimSpace (sp @ d) = d"
  using trimSpace_both [of sp d "[]"] assms by simp

end
