(* ===== verification/Paths.thy ===== *)
theory Paths
  imports Prelude
begin

text \<open>
  Package \<open>path/filepath\<close> on Unix, as far as the proxy uses it: \<open>Clean\<close>,
  \<open>Dir\<close>, \<open>Join\<close>, \<open>Base\<close>, \<open>IsAbs\<close> and \<open>Rel\<close> (\<open>ToSlash\<close> and
  \<open>FromSlash\<close> are the identity there). The functions work on the bytes of the path as
  the library does; \<open>absPath\<close> is the abstract view of a clean absolute path as a list
  of segments, and the lemmas state each function on that view.
\<close>

section \<open>The library functions\<close>

abbreviation sep :: char where
  "sep \<equiv> CHR ''/''"

text \<open>
  The loop of \<open>filepath.Clean\<close> over the segments. The accumulator is the output
  buffer, last segment first: an empty segment and \<open>.\<close> are dropped, \<open>..\<close> removes
  the last segment unless there is none to remove (at the root it is dropped, in a relative
  path it is kept).
\<close>

fun cleanSegs :: "bool \<Rightarrow> string list \<Rightarrow> string list \<Rightarrow> string list" where
  "cleanSegs rooted acc [] = rev acc"
| "cleanSegs rooted acc (s # ss) =
     (if s = '''' \<or> s = ''.'' then cleanSegs rooted acc ss
      else if s = ''..'' then
        (case acc of
           [] \<Rightarrow> cleanSegs rooted (if rooted then [] else [''..'']) ss
         | a # as \<Rightarrow> if a = ''..'' then cleanSegs rooted (''..'' # acc) ss
                    else cleanSegs rooted as ss)
      else cleanSegs rooted (s # acc) ss)"

definition filepathIsAbs :: "string \<Rightarrow> bool" where
  "filepathIsAbs p = hasPrefix p ''/''"

definition filepathClean :: "string \<Rightarrow> string" where
  "filepathClean p =
     (let segs = cleanSegs (filepathIsAbs p) [] (splitOn sep p)
      in if filepathIsAbs p then ''/'' @ joinWith ''/'' segs
         else if segs = [] then ''.'' else joinWith ''/'' segs)"

text \<open>\<open>filepath.Dir\<close>: everything up to and with the last slash, cleaned.\<close>

definition uptoSlash :: "string \<Rightarrow> string" where
  "uptoSlash p = rev (dropWhile (\<lambda>c. c \<noteq> sep) (rev p))"

definition filepathDir :: "string \<Rightarrow> string" where
  "filepathDir p = filepathClean (uptoSlash p)"

definition filepathJoin :: "string \<Rightarrow> string \<Rightarrow> string" where
  "filepathJoin a b =
     (if a = '''' then (if b = '''' then '''' else filepathClean b)
      else filepathClean (a @ ''/'' @ b))"

text \<open>\<open>filepath.Base\<close>: the last segment once trailing slashes are gone.\<close>

definition filepathBase :: "string \<Rightarrow> string" where
  "filepathBase p =
     (if p = '''' then ''.''
      else let q = rev (dropWhile (\<lambda>c. c = sep) (rev p))
           in if q = '''' then ''/'' else rev (takeWhile (\<lambda>c. c \<noteq> sep) (rev q)))"

text \<open>
  \<open>filepath.Rel\<close>: the common leading segments of the cleaned paths are skipped, one
  \<open>..\<close> is written for every segment left in the base, and the rest of the target
  follows. It fails when only one path is absolute, or when a \<open>..\<close> is left in the base.
\<close>

definition relSegs :: "string \<Rightarrow> string list" where
  "relSegs p = (if p = ''.'' then [] else filter (\<lambda>s. s \<noteq> '''') (splitOn sep p))"

fun dropCommon :: "string list \<Rightarrow> string list \<Rightarrow> string list \<times> string list" where
  "dropCommon (b # bs) (t # ts) = (if b = t then dropCommon bs ts else (b # bs, t # ts))"
| "dropCommon bs ts = (bs, ts)"

definition filepathRel :: "string \<Rightarrow> string \<Rightarrow> string option" where
  "filepathRel basepath targpath =
     (let base = filepathClean basepath; targ = filepathClean targpath in
      if targ = base then Some ''.''
      else if filepathIsAbs base \<noteq> filepathIsAbs targ then None
      else case dropCommon (relSegs base) (relSegs targ) of
          ([], ts) \<Rightarrow> Some (joinWith ''/'' ts)
        | (b # bs, ts) \<Rightarrow>
            if b = ''..'' then None
            else Some (joinWith ''/'' (replicate (Suc (length bs)) ''..'' @ ts)))"

section \<open>Clean absolute paths as segment lists\<close>

definition okSeg :: "string \<Rightarrow> bool" where
  "okSeg s \<longleftrightarrow> s \<noteq> '''' \<and> s \<noteq> ''.'' \<and> s \<noteq> ''..'' \<and> sep \<notin> set s"

definition okSegs :: "string list \<Rightarrow> bool" where
  "okSegs ss \<longleftrightarrow> list_all okSeg ss"

definition absPath :: "string list \<Rightarrow> string" where
  "absPath ss = ''/'' @ joinWith ''/'' ss"

text \<open>A path strictly inside another one, on segments.\<close>

definition strictlyUnder :: "string list \<Rightarrow> string list \<Rightarrow> bool" where
  "strictlyUnder root p \<longleftrightarrow> strict_prefix root p"

lemma okSegs_simps [simp]:
  "okSegs []" "okSegs (s # ss) \<longleftrightarrow> okSeg s \<and> okSegs ss"
  "okSegs (ss @ ts) \<longleftrightarrow> okSegs ss \<and> okSegs ts"
  by (auto simp: okSegs_def)

lemma okSegs_free: "okSegs ss \<Longrightarrow> s \<in> set ss \<Longrightarrow> sep \<notin> set s"
  by (auto simp: okSegs_def list_all_iff okSeg_def)

lemma splitOn_join_ok:
  "okSegs ss \<Longrightarrow> splitOn sep (joinWith ''/'' ss) = (if ss = [] then [''''] else ss)"
  using splitOn_joinWith [of ss sep] okSegs_free [of ss] by auto

lemma splitOn_absPath:
  "okSegs ss \<Longrightarrow> splitOn sep (absPath ss) = '''' # (if ss = [] then [''''] else ss)"
  by (simp add: absPath_def splitOn_join_ok)

lemma cleanSegs_ok: "okSegs ss \<Longrightarrow> cleanSegs r acc ss = rev acc @ ss"
  by (induction ss arbitrary: acc) (auto simp: okSeg_def)

lemma absPath_isAbs [simp]: "filepathIsAbs (absPath ss)"
  by (simp add: filepathIsAbs_def absPath_def)

lemma clean_absPath [simp, go_simps]: "okSegs ss \<Longrightarrow> filepathClean (absPath ss) = absPath ss"
  by (simp add: filepathClean_def splitOn_absPath cleanSegs_ok)
    (simp add: absPath_def)

lemma absPath_Nil: "absPath [] = ''/''"
  by (simp add: absPath_def)

lemma absPath_snoc:
  "absPath (ss @ [s]) = (if ss = [] then ''/'' @ s else absPath ss @ ''/'' @ s)"
  by (simp add: absPath_def joinWith_append)

lemma absPath_append:
  "ss \<noteq> [] \<Longrightarrow> ts \<noteq> [] \<Longrightarrow> absPath (ss @ ts) = absPath ss @ ''/'' @ joinWith ''/'' ts"
  by (simp add: absPath_def joinWith_append)

lemma absPath_inj:
  assumes "okSegs ss" and "okSegs ts"
  shows "absPath ss = absPath ts \<longleftrightarrow> ss = ts"
proof
  assume eq: "absPath ss = absPath ts"
  from splitOn_absPath [OF assms(1)] splitOn_absPath [OF assms(2)] eq
  have "(if ss = [] then [''''] else ss) = (if ts = [] then [''''] else ts)" by simp
  with assms show "ss = ts" by (auto simp: okSeg_def split: if_splits)
qed simp

lemma absPath_nonempty [simp]: "absPath ss \<noteq> ''''"
  by (simp add: absPath_def)

lemma relSegs_absPath [simp, go_simps]: "okSegs ss \<Longrightarrow> relSegs (absPath ss) = ss"
proof -
  assume ok: "okSegs ss"
  then have "filter (\<lambda>s. s \<noteq> '''') ss = ss"
    by (auto simp: filter_id_conv okSegs_def list_all_iff okSeg_def)
  with ok show ?thesis
    by (simp add: relSegs_def splitOn_absPath) (simp add: absPath_def)
qed

lemma dropCommon_prefix: "dropCommon ss (ss @ ts) = ([], ts)"
  by (induction ss) (cases ts, auto)

lemma dropCommon_Nil: "dropCommon bs ts = ([], us) \<Longrightarrow> ts = bs @ us"
  by (induction bs ts rule: dropCommon.induct) (auto split: if_splits)

lemma dropCommon_fst:
  "dropCommon bs ts = (b # bs', us) \<Longrightarrow> \<exists>cs. bs = cs @ b # bs' \<and> ts = cs @ us"
proof (induction bs ts rule: dropCommon.induct)
  case (1 b' bs t ts)
  show ?case
  proof (cases "b' = t")
    case True
    with 1 obtain cs where "bs = cs @ b # bs' \<and> ts = cs @ us" by auto
    with True have "b' # bs = (t # cs) @ b # bs' \<and> t # ts = (t # cs) @ us" by simp
    then show ?thesis by blast
  qed (use 1 in auto)
qed auto

text \<open>\<open>Rel\<close> between a directory and something below it is the join of the difference.\<close>

lemma rel_below [go_simps]:
  assumes "okSegs b" and "okSegs d"
  shows "filepathRel (absPath b) (absPath (b @ d)) =
    Some (if d = [] then ''.'' else joinWith ''/'' d)"
  using assms by (simp add: filepathRel_def absPath_inj dropCommon_prefix)

lemma rel_not_below:
  assumes "okSegs b" and "okSegs p" and "\<not> prefix b p"
  shows "\<exists>r. filepathRel (absPath b) (absPath p) = Some (''..'' @ r)"
proof -
  obtain x us where x: "dropCommon b p = (x, us)" by fastforce
  have "x \<noteq> []" using dropCommon_Nil [of b p us] x assms(3) by auto
  then obtain c cs where c: "x = c # cs" by (cases x) auto
  with dropCommon_fst [of b p c cs us] x obtain as where "b = as @ c # cs" by auto
  with assms(1) have "c \<noteq> ''..''" by (auto simp: okSeg_def)
  have "p \<noteq> b" using assms(3) by auto
  then have "filepathRel (absPath b) (absPath p) =
      Some (joinWith ''/'' (''..'' # replicate (length cs) ''..'' @ us))"
    using assms(1,2) \<open>c \<noteq> ''..''\<close> by (simp add: filepathRel_def absPath_inj x c)
  moreover have "\<exists>r. joinWith ''/'' (''..'' # zs) = ''..'' @ r" for zs
    by (cases zs) auto
  ultimately show ?thesis by metis
qed

lemma uptoSlash_sep: "sep \<notin> set s \<Longrightarrow> uptoSlash (p @ ''/'' @ s) = p @ ''/''"
  by (auto simp: uptoSlash_def dropWhile_append3 in_set_conv_decomp)

lemma clean_trailing:
  assumes "okSegs ss"
  shows "filepathClean (absPath ss @ ''/'') = absPath ss"
proof -
  have "splitOn sep (absPath ss @ ''/'') = splitOn sep (absPath ss) @ ['''']"
    using splitOn_sep [of sep "absPath ss" "[]"] by simp
  moreover have "cleanSegs r acc (ss @ ['''']) = rev acc @ ss" for r acc
    using assms by (induction ss arbitrary: acc) (auto simp: okSeg_def)
  moreover have "filepathIsAbs (absPath ss @ ''/'')"
    by (simp add: filepathIsAbs_def absPath_def)
  moreover have "cleanSegs True [] (splitOn sep (absPath ss) @ ['''']) = ss"
    using assms calculation(2) by (simp add: splitOn_absPath)
  ultimately show ?thesis
    by (simp add: filepathClean_def) (simp add: absPath_def)
qed

lemma dir_absPath_snoc [simp, go_simps]:
  assumes "okSegs ss" and "okSeg s"
  shows "filepathDir (absPath (ss @ [s])) = absPath ss"
proof (cases "ss = []")
  case True
  with assms have "uptoSlash (absPath (ss @ [s])) = absPath []"
    using uptoSlash_sep [of s "[]"] by (simp add: absPath_def okSeg_def)
  with True show ?thesis by (simp add: filepathDir_def)
next
  case False
  with assms have "uptoSlash (absPath (ss @ [s])) = absPath ss @ ''/''"
    using uptoSlash_sep [of s "absPath ss"] by (simp add: absPath_snoc okSeg_def)
  with assms show ?thesis by (simp add: filepathDir_def clean_trailing)
qed

lemma dir_root [simp, go_simps]: "filepathDir ''/'' = ''/''"
  by (simp add: filepathDir_def uptoSlash_def filepathClean_def filepathIsAbs_def)

lemma dir_absPath: "okSegs ss \<Longrightarrow> filepathDir (absPath ss) = absPath (butlast ss)"
  by (cases ss rule: rev_cases) (simp_all add: absPath_Nil)

text \<open>
  The containment test of the proxy, \<open>HasPrefix(path, root + "/")\<close>, is containment of
  segments for clean absolute paths, as long as the root is not the file system root.
\<close>

lemma prefix_join_sep:
  assumes "okSegs ss" and "okSegs ts" and "ss \<noteq> []"
  shows "prefix (joinWith ''/'' ss @ ''/'') (joinWith ''/'' ts) \<longleftrightarrow> strict_prefix ss ts"
proof
  assume "prefix (joinWith ''/'' ss @ ''/'') (joinWith ''/'' ts)"
  then obtain u where u: "joinWith ''/'' ts = joinWith ''/'' ss @ sep # u"
    by (auto simp: prefix_def)
  then have "splitOn sep (joinWith ''/'' ts) = ss @ splitOn sep u"
    using assms by (simp add: splitOn_sep splitOn_join_ok)
  moreover have "ts \<noteq> []" using u by auto
  ultimately have "ts = ss @ splitOn sep u"
    using assms by (simp add: splitOn_join_ok)
  then show "strict_prefix ss ts" by (simp add: strict_prefix_def)
next
  assume "strict_prefix ss ts"
  then obtain us where "ts = ss @ us" and "us \<noteq> []"
    by (auto simp: strict_prefix_def prefix_def)
  with assms show "prefix (joinWith ''/'' ss @ ''/'') (joinWith ''/'' ts)"
    by (simp add: joinWith_append)
qed

lemma hasPrefix_sep_iff [go_simps]:
  assumes "okSegs ss" and "okSegs ts" and "ss \<noteq> []"
  shows "hasPrefix (absPath ts) (absPath ss @ ''/'') \<longleftrightarrow> strict_prefix ss ts"
  using prefix_join_sep [OF assms] by (simp add: absPath_def)

end
