(* ===== verification/Symbols.thy ===== *)
theory Symbols
  imports Utf8 Paths
begin

text \<open>
  \<open>symbols.go\<close> up to the index: the top-level symbols of a file and the score of a symbol
  for a query. The syntax tree is the part of \<open>go/ast\<close> that \<open>collectSymbols\<close> looks at;
  the parser that produces it is a parameter of the index.
\<close>

section \<open>Syntax trees\<close>

text \<open>A position of the file set; line and column count from 1, line 0 is no position.\<close>

record astPos =
  pos_line :: int
  pos_column :: int

record ident =
  id_name :: string
  id_pos :: astPos
  id_end :: astPos

datatype astExpr =
    Ident string
  | StarExpr astExpr
  | SelectorExpr astExpr string
  | IndexExpr astExpr
  | IndexListExpr astExpr
  | InterfaceType
  | StructType
  | OtherExpr

datatype declTok = TokConst | TokVar | TokType | TokImport

datatype astSpec =
    TypeSpec ident astExpr
  | ValueSpec "ident list"
  | ImportSpec

text \<open>A function's receiver is nil or the list of the types of its fields.\<close>

datatype astDecl =
    FuncDecl ident "astExpr list option"
  | GenDecl declTok "astSpec list"
  | BadDecl

text \<open>An import path is what \<open>strconv.Unquote\<close> makes of the literal, if anything.\<close>

record astFile =
  a_imports :: "string option list"
  a_decls :: "astDecl list"

section \<open>Symbols of a file\<close>

definition symbolKindClass :: int where "symbolKindClass = 5"
definition symbolKindMethod :: int where "symbolKindMethod = 6"
definition symbolKindFunction :: int where "symbolKindFunction = 12"
definition symbolKindVariable :: int where "symbolKindVariable = 13"
definition symbolKindConstant :: int where "symbolKindConstant = 14"
definition symbolKindInterface :: int where "symbolKindInterface = 11"
definition symbolKindStruct :: int where "symbolKindStruct = 23"

record indexedSymbol =
  s_name :: string
  s_kind :: int
  s_container :: string
  s_relFile :: string
  s_startLine :: int
  s_startChar :: int
  s_endLine :: int
  s_endChar :: int

text \<open>The closure \<open>add\<close> of \<open>collectSymbols\<close>: what one call appends.\<close>

definition addSymbol :: "string \<Rightarrow> ident \<Rightarrow> int \<Rightarrow> string \<Rightarrow> indexedSymbol list" where
  "addSymbol rel name kind container =
     (if id_name name = ''_'' then []
      else if \<not> (0 < pos_line (id_pos name) \<and> 0 < pos_line (id_end name)) then []
      else [\<lparr>s_name = id_name name, s_kind = kind, s_container = container, s_relFile = rel,
             s_startLine = pos_line (id_pos name) - 1, s_startChar = pos_column (id_pos name) - 1,
             s_endLine = pos_line (id_end name) - 1, s_endChar = pos_column (id_end name) - 1\<rparr>])"

fun receiverName :: "astExpr \<Rightarrow> string" where
  "receiverName (Ident n) = n"
| "receiverName (StarExpr e) = receiverName e"
| "receiverName (SelectorExpr e sel) = sel"
| "receiverName (IndexExpr e) = receiverName e"
| "receiverName (IndexListExpr e) = receiverName e"
| "receiverName _ = ''''"

fun typeSpecKind :: "astExpr \<Rightarrow> int" where
  "typeSpecKind InterfaceType = symbolKindInterface"
| "typeSpecKind StructType = symbolKindStruct"
| "typeSpecKind _ = symbolKindClass"

fun collectFuncDecl :: "string \<Rightarrow> ident \<Rightarrow> astExpr list option \<Rightarrow> indexedSymbol list" where
  "collectFuncDecl rel name (Some (t # ts)) = addSymbol rel name symbolKindMethod (receiverName t)"
| "collectFuncDecl rel name _ = addSymbol rel name symbolKindFunction ''''"

fun collectSpec :: "string \<Rightarrow> declTok \<Rightarrow> astSpec \<Rightarrow> indexedSymbol list" where
  "collectSpec rel tok (TypeSpec name ty) = addSymbol rel name (typeSpecKind ty) ''''"
| "collectSpec rel tok (ValueSpec names) =
     concat (map (\<lambda>n. addSymbol rel n
       (if tok = TokConst then symbolKindConstant else symbolKindVariable) '''') names)"
| "collectSpec rel tok ImportSpec = []"

definition collectGenDecl :: "string \<Rightarrow> declTok \<Rightarrow> astSpec list \<Rightarrow> indexedSymbol list" where
  "collectGenDecl rel tok specs = concat (map (collectSpec rel tok) specs)"

fun collectDecl :: "string \<Rightarrow> astDecl \<Rightarrow> indexedSymbol list" where
  "collectDecl rel (FuncDecl name recv) = collectFuncDecl rel name recv"
| "collectDecl rel (GenDecl tok specs) = collectGenDecl rel tok specs"
| "collectDecl rel BadDecl = []"

definition collectSymbols :: "astFile option \<Rightarrow> string \<Rightarrow> indexedSymbol list" where
  "collectSymbols f rel =
     (case f of None \<Rightarrow> [] | Some file \<Rightarrow> concat (map (collectDecl rel) (a_decls file)))"

lemma addSymbol_fields:
  "s \<in> set (addSymbol rel name kind container) \<Longrightarrow>
     s_relFile s = rel \<and> s_name s = id_name name \<and> s_name s \<noteq> ''_'' \<and>
     0 \<le> s_startLine s \<and> 0 \<le> s_endLine s \<and> s_container s = container"
  by (auto simp: addSymbol_def split: if_splits)

lemma collectSymbols_fields:
  "s \<in> set (collectSymbols f rel) \<Longrightarrow>
     s_relFile s = rel \<and> s_name s \<noteq> ''_'' \<and> 0 \<le> s_startLine s \<and> 0 \<le> s_endLine s"
proof -
  have spec: "s \<in> set (collectSpec rel tok sp) \<Longrightarrow>
      s_relFile s = rel \<and> s_name s \<noteq> ''_'' \<and> 0 \<le> s_startLine s \<and> 0 \<le> s_endLine s" for tok sp
    by (cases sp) (auto dest: addSymbol_fields)
  have "s \<in> set (collectDecl rel d) \<Longrightarrow>
      s_relFile s = rel \<and> s_name s \<noteq> ''_'' \<and> 0 \<le> s_startLine s \<and> 0 \<le> s_endLine s" for d
  proof (cases d)
    case (FuncDecl name recv)
    assume "s \<in> set (collectDecl rel d)"
    with FuncDecl show ?thesis
      by (cases "(rel, name, recv)" rule: collectFuncDecl.cases) (auto dest: addSymbol_fields)
  qed (auto simp: collectGenDecl_def dest: spec)
  then show "s \<in> set (collectSymbols f rel) \<Longrightarrow> ?thesis"
    by (auto simp: collectSymbols_def split: option.splits)
qed

section \<open>Matching\<close>

text \<open>
  \<open>fuzzyContains\<close>: the loop ranges over the runes of the target and compares each with
  one \<^emph>\<open>byte\<close> of the query.
\<close>

fun fuzzyLoop :: "string \<Rightarrow> nat list \<Rightarrow> bool" where
  "fuzzyLoop [] rs = True"
| "fuzzyLoop (q # qs) [] = False"
| "fuzzyLoop (q # qs) (r # rs) =
     (if byteOf q = r then fuzzyLoop qs rs else fuzzyLoop (q # qs) rs)"

definition fuzzyContains :: "string \<Rightarrow> string \<Rightarrow> bool" where
  "fuzzyContains query target =
     (if query = '''' then False else fuzzyLoop query (map fst (decodeAll target)))"

definition stringsContains :: "string \<Rightarrow> string \<Rightarrow> bool" where
  "stringsContains s sub = sublist sub s"

text \<open>\<open>symbolMatchScore\<close>; \<open>strings.ToLower\<close> is a parameter.\<close>

definition symbolMatchScore :: "(string \<Rightarrow> string) \<Rightarrow> string \<Rightarrow> indexedSymbol \<Rightarrow> int" where
  "symbolMatchScore toLower query sy =
     (let q = toLower query in
      if q = '''' then 4
      else
        let name = toLower (s_name sy);
            full = (if s_container sy \<noteq> '''' then toLower (s_container sy) @ ''.'' @ name
                    else name)
        in if name = q \<or> full = q then 0
           else if hasPrefix name q \<or> hasPrefix full q then 1
           else if stringsContains name q \<or> stringsContains full q then 2
           else if fuzzyContains q full then 3
           else -1)"

lemma fuzzyLoop_subseq: "fuzzyLoop qs rs \<longleftrightarrow> subseq (map byteOf qs) rs"
  by (induction qs rs rule: fuzzyLoop.induct) auto

lemma byteOf_inj: "byteOf c = byteOf d \<longleftrightarrow> c = d"
  unfolding byteOf_def by (rule of_char_eq_iff)

lemma fuzzyContains_ascii:
  assumes "asciiStr t" and "q \<noteq> ''''"
  shows "fuzzyContains q t \<longleftrightarrow> subseq q t"
proof -
  have "subseq (map byteOf q) (map byteOf t) \<longleftrightarrow> subseq q t"
  proof (induction t arbitrary: q)
    case Nil
    then show ?case by (cases q) auto
  next
    case (Cons c t)
    show ?case
    proof (cases q)
      case (Cons a as)
      then show ?thesis using Cons.IH [of q] Cons.IH [of as] by (simp add: byteOf_inj)
    qed simp
  qed
  then show ?thesis
    using assms by (simp add: fuzzyContains_def fuzzyLoop_subseq decodeAll_ascii comp_def)
qed

end
