(* ===== verification/ModRoot.thy ===== *)
theory ModRoot
  imports Paths
begin

text \<open>
  \<open>modroot.go\<close>: detection of nested Go modules by walking from a directory up to the
  workspace root, and the per-directory cache in front of the walk. The file system is
  the parameter \<open>stat\<close> (\<open>os.Stat\<close>): what exists at a path, if anything.
\<close>

datatype fileInfo = RegularFile | Directory

type_synonym fileSystem = "string \<Rightarrow> fileInfo option"

definition hasGoMod :: "fileSystem \<Rightarrow> string \<Rightarrow> bool" where
  "hasGoMod stat dir = (stat (filepathJoin dir ''go.mod'') = Some RegularFile)"

section \<open>The upward walk\<close>

text \<open>
  The loop of \<open>nestedModuleRoot\<close> ends because \<open>filepath.Dir\<close> shortens every path
  that it changes, except that it maps a bare name to \<open>.\<close>, its own parent. The weight of
  a segment list is what it contributes to the length of the joined path.
\<close>

definition segWeight :: "string list \<Rightarrow> nat" where
  "segWeight ss = sum_list (map (\<lambda>s. Suc (length s)) ss)"

lemma segWeight_simps [simp]:
  "segWeight [] = 0" "segWeight (s # ss) = Suc (length s) + segWeight ss"
  "segWeight (ss @ ts) = segWeight ss + segWeight ts"
  by (simp_all add: segWeight_def)

lemma segWeight_rev [simp]: "segWeight (rev ss) = segWeight ss"
  by (induction ss) auto

lemma length_joinWith: "ss \<noteq> [] \<Longrightarrow> Suc (length (joinWith [c] ss)) = segWeight ss"
proof (induction ss)
  case (Cons s ss)
  then show ?case by (cases "ss = []") (auto simp: joinWith_Cons)
qed simp

lemma segWeight_splitOn: "segWeight (splitOn c s) = Suc (length s)"
  using length_joinWith [of "splitOn c s" c] by simp

lemma segWeight_filter:
  "segWeight (filter (\<lambda>s. s \<noteq> '''') ss) + length (filter (\<lambda>s. s = '''') ss) = segWeight ss"
  by (induction ss) auto

lemma cleanSegs_weight:
  "segWeight (cleanSegs r acc ss) \<le> segWeight acc + segWeight (filter (\<lambda>s. s \<noteq> '''') ss)"
proof (induction r acc ss rule: cleanSegs.induct)
  case (2 r acc s ss)
  then show ?case by (cases acc) (auto split: if_splits)
qed simp

definition countEmpty :: "string list \<Rightarrow> nat" where
  "countEmpty ss = length (filter (\<lambda>s. s = '''') ss)"

lemma cleanSegs_length:
  "segWeight (cleanSegs r [] (splitOn sep p)) + countEmpty (splitOn sep p) \<le> Suc (length p)"
  using cleanSegs_weight [of r "[]" "splitOn sep p"] segWeight_filter [of "splitOn sep p"]
    segWeight_splitOn [of sep p]
  by (simp add: countEmpty_def)

lemma length_clean:
  assumes "p \<noteq> ''''"
  shows "length (filepathClean p) + countEmpty (splitOn sep p)
      \<le> length p + (if filepathIsAbs p then 1 else 0) \<or> length (filepathClean p) = 1"
proof -
  let ?ss = "cleanSegs (filepathIsAbs p) [] (splitOn sep p)"
  consider "?ss = []" | "?ss \<noteq> []" "filepathIsAbs p" | "?ss \<noteq> []" "\<not> filepathIsAbs p" by blast
  then show ?thesis
  proof cases
    case 1
    then show ?thesis by (simp add: filepathClean_def)
  next
    case 2
    then have "length (filepathClean p) = segWeight ?ss"
      using length_joinWith [of ?ss sep] by (simp add: filepathClean_def)
    then show ?thesis using 2 cleanSegs_length [of "filepathIsAbs p" p] by simp
  next
    case 3
    then have "Suc (length (filepathClean p)) = segWeight ?ss"
      using length_joinWith [of ?ss sep] by (simp add: filepathClean_def)
    then show ?thesis using 3 cleanSegs_length [of "filepathIsAbs p" p] by simp
  qed
qed

definition dirMeasure :: "string \<Rightarrow> nat" where
  "dirMeasure d = (if d = ''.'' then 0 else Suc (length d))"

lemma uptoSlash_prefix: "prefix (uptoSlash d) d"
proof -
  let ?P = "\<lambda>c. c \<noteq> sep"
  have "rev (takeWhile ?P (rev d) @ dropWhile ?P (rev d)) = d" by simp
  then have "d = uptoSlash d @ rev (takeWhile ?P (rev d))"
    unfolding uptoSlash_def rev_append by (rule sym)
  then show ?thesis by (rule prefixI)
qed

lemma uptoSlash_cases: "uptoSlash d = '''' \<or> (\<exists>q. uptoSlash d = q @ ''/'')"
proof (cases "dropWhile (\<lambda>c. c \<noteq> sep) (rev d)")
  case (Cons x xs)
  then have "x = sep" using hd_dropWhile [of "\<lambda>c. c \<noteq> sep" "rev d"] by auto
  with Cons show ?thesis by (simp add: uptoSlash_def)
qed (simp add: uptoSlash_def)

lemma countEmpty_slash: "countEmpty (splitOn sep (q @ ''/'')) \<ge> 1"
  using splitOn_sep [of sep q "[]"] by (simp add: countEmpty_def)

lemma countEmpty_abs_slash: "countEmpty (splitOn sep (sep # q @ ''/'')) \<ge> 2"
  using splitOn_sep [of sep "sep # q" "[]"] by (simp add: countEmpty_def)

lemma dir_shrinks:
  assumes "filepathDir d \<noteq> d"
  shows "dirMeasure (filepathDir d) < dirMeasure d"
proof (cases "uptoSlash d = ''''")
  case True
  then have "filepathDir d = ''.''"
    by (simp add: filepathDir_def filepathClean_def filepathIsAbs_def)
  with assms show ?thesis by (simp add: dirMeasure_def)
next
  case False
  then obtain q where q: "uptoSlash d = q @ ''/''" using uptoSlash_cases by blast
  have pre: "prefix (q @ ''/'') d" using uptoSlash_prefix [of d] by (simp add: q)
  then have len: "Suc (length q) \<le> length d" using prefix_length_le by fastforce
  have d_dot: "d \<noteq> ''.''" using pre by (cases q) auto
  have dir: "filepathDir d = filepathClean (q @ ''/'')" by (simp add: filepathDir_def q)
  have "length (filepathDir d) < length d"
  proof (cases "q = ''''")
    case True
    then have "filepathDir d = ''/''"
      unfolding dir by (simp add: filepathClean_def filepathIsAbs_def)
    moreover have "length d \<noteq> 1"
    proof
      assume "length d = 1"
      with pre True have "d = ''/''" by (auto simp: prefix_def)
      with assms show False by simp
    qed
    ultimately show ?thesis using len by (cases d) auto
  next
    case False
    then have "length d \<ge> 2" using len by (cases q) auto
    have "filepathIsAbs (q @ ''/'') \<Longrightarrow> countEmpty (splitOn sep (q @ ''/'')) \<ge> 2"
      using False countEmpty_abs_slash [of "tl q"]
      by (cases q) (auto simp: filepathIsAbs_def)
    then have "length (filepathClean (q @ ''/'')) \<le> length q \<or>
        length (filepathClean (q @ ''/'')) = 1"
      using length_clean [of "q @ ''/''"] countEmpty_slash [of q]
      by (cases "filepathIsAbs (q @ ''/'')") auto
    with len \<open>length d \<ge> 2\<close> show ?thesis by (auto simp: dir)
  qed
  with d_dot show ?thesis by (simp add: dirMeasure_def)
qed

function nestedModuleRoot :: "fileSystem \<Rightarrow> string \<Rightarrow> string \<Rightarrow> string" where
  "nestedModuleRoot stat dir root =
     (if dir = root then ''''
      else if hasGoMod stat dir then dir
      else if filepathDir dir = dir then ''''
      else nestedModuleRoot stat (filepathDir dir) root)"
  by pat_completeness auto
termination
  by (relation "measure (\<lambda>(stat, dir, root). dirMeasure dir)") (auto intro: dir_shrinks)

declare nestedModuleRoot.simps [simp del]

text \<open>
  The specification: among the directories strictly below the root on the way to the given
  directory, the deepest one with its own \<open>go.mod\<close>.
\<close>

definition innermostModule :: "fileSystem \<Rightarrow> string list \<Rightarrow> string list \<Rightarrow> string list option" where
  "innermostModule stat root d =
     find (\<lambda>q. hasGoMod stat (absPath (root @ q))) (rev (tl (prefixes d)))"

lemma prefixes_snoc: "prefixes (xs @ [x]) = prefixes xs @ [xs @ [x]]"
  by (induction xs) auto

lemma innermostModule_Nil [simp]: "innermostModule stat root [] = None"
  by (simp add: innermostModule_def)

lemma innermostModule_snoc:
  "innermostModule stat root (d @ [x]) =
     (if hasGoMod stat (absPath (root @ d @ [x])) then Some (d @ [x])
      else innermostModule stat root d)"
  by (cases d) (simp_all add: innermostModule_def prefixes_snoc)

lemma nestedModuleRoot_spec:
  assumes "okSegs root" and "okSegs d"
  shows "nestedModuleRoot stat (absPath (root @ d)) (absPath root) =
    (case innermostModule stat root d of None \<Rightarrow> '''' | Some q \<Rightarrow> absPath (root @ q))"
  using assms(2)
proof (induction d rule: rev_induct)
  case Nil
  then show ?case by (simp add: nestedModuleRoot.simps)
next
  case (snoc x d)
  have ne: "absPath (root @ d @ [x]) \<noteq> absPath root"
    using snoc.prems assms(1) absPath_inj [of "root @ d @ [x]" root] by auto
  have dir: "filepathDir (absPath (root @ d @ [x])) = absPath (root @ d)"
    using snoc.prems assms(1) dir_absPath_snoc [of "root @ d" x] by simp
  have ne': "absPath (root @ d) \<noteq> absPath (root @ d @ [x])"
    using snoc.prems assms(1) absPath_inj [of "root @ d" "root @ d @ [x]"] by auto
  show ?case
    using snoc.IH snoc.prems
    by (subst nestedModuleRoot.simps) (simp add: ne dir ne' innermostModule_snoc)
qed

lemma innermostModule_Some:
  "innermostModule stat root d = Some q \<Longrightarrow>
     prefix q d \<and> q \<noteq> [] \<and> hasGoMod stat (absPath (root @ q))"
proof (induction d rule: rev_induct)
  case (snoc x d)
  then show ?case by (auto simp: innermostModule_snoc split: if_splits)
qed simp

lemma innermostModule_above:
  assumes "innermostModule stat root d = res" and "prefix q d" and "q \<noteq> []"
    and "\<And>p. res = Some p \<Longrightarrow> strict_prefix p q"
  shows "\<not> hasGoMod stat (absPath (root @ q))"
  using assms
proof (induction d arbitrary: res rule: rev_induct)
  case (snoc x d)
  show ?case
  proof (cases "hasGoMod stat (absPath (root @ d @ [x]))")
    case True
    with snoc.prems have "strict_prefix (d @ [x]) q" by (simp add: innermostModule_snoc)
    with snoc.prems(2) show ?thesis by (meson prefix_order.less_le_not_le)
  next
    case False
    with snoc.prems have "innermostModule stat root d = res" by (simp add: innermostModule_snoc)
    with snoc False show ?thesis by (cases "q = d @ [x]") auto
  qed
qed simp

section \<open>The cache\<close>

text \<open>
  \<open>moduleRootCache\<close>: one entry per directory asked for, an empty string meaning that the
  directory belongs to the main module. \<open>RootFor\<close> takes the lock twice, once to look the
  directory up and once to store the result of the walk, which runs without the lock, so the
  store is an operation of its own.
\<close>

record moduleRootCache =
  cache :: "(string, string) gomap"

definition emptyCache :: moduleRootCache where
  "emptyCache = \<lparr>cache = []\<rparr>"

definition cacheStore :: "moduleRootCache \<Rightarrow> string \<Rightarrow> string \<Rightarrow> moduleRootCache" where
  "cacheStore c dir result = c\<lparr>cache := gput dir result (cache c)\<rparr>"

definition RootFor ::
  "fileSystem \<Rightarrow> moduleRootCache \<Rightarrow> string \<Rightarrow> string \<Rightarrow> string \<times> moduleRootCache" where
  "RootFor stat c dir root =
     (case gget (cache c) dir of
        Some v \<Rightarrow> (v, c)
      | None \<Rightarrow> (let result = nestedModuleRoot stat dir root
                 in (result, cacheStore c dir result)))"

definition Invalidate :: "moduleRootCache \<Rightarrow> moduleRootCache" where
  "Invalidate c = c\<lparr>cache := []\<rparr>"

text \<open>A cache is coherent when every answer in it is what the walk finds now.\<close>

definition coherent :: "fileSystem \<Rightarrow> string \<Rightarrow> moduleRootCache \<Rightarrow> bool" where
  "coherent stat root c \<longleftrightarrow>
     wf_map (cache c) \<and> (\<forall>(d, v) \<in> set (cache c). v = nestedModuleRoot stat d root)"

lemma coherentD:
  "coherent stat root c \<Longrightarrow> gget (cache c) d = Some v \<Longrightarrow> v = nestedModuleRoot stat d root"
  by (auto simp: coherent_def dest: map_of_SomeD)

lemma coherent_iff_gget:
  "wf_map (cache c) \<Longrightarrow>
   coherent stat root c \<longleftrightarrow>
     (\<forall>d v. gget (cache c) d = Some v \<longrightarrow> v = nestedModuleRoot stat d root)"
  by (auto simp: coherent_def wf_map_def dest: map_of_SomeD)

lemma coherent_empty [simp]: "coherent stat root emptyCache"
  by (simp add: coherent_def emptyCache_def)

lemma coherent_Invalidate [simp]: "coherent stat root (Invalidate c)"
  by (simp add: coherent_def Invalidate_def)

lemma coherent_store:
  assumes "coherent stat root c" and "v = nestedModuleRoot stat d root"
  shows "coherent stat root (cacheStore c d v)"
proof -
  have wf: "wf_map (cache c)" using assms(1) by (simp add: coherent_def)
  then have wf': "wf_map (cache (cacheStore c d v))" by (simp add: cacheStore_def)
  show ?thesis
    unfolding coherent_iff_gget [OF wf']
    using assms(2) coherentD [OF assms(1)] by (simp add: cacheStore_def)
qed

lemma RootFor_coherent:
  assumes "coherent stat root c"
  shows "fst (RootFor stat c dir root) = nestedModuleRoot stat dir root"
    and "coherent stat root (snd (RootFor stat c dir root))"
  using coherentD [OF assms] assms
  by (auto simp: RootFor_def Let_def coherent_store split: option.splits)

section \<open>The interface the scope relies on\<close>

text \<open>
  What the clients of the detection use: for a directory at or below a workspace root,
  the answer is empty or a directory strictly below the root on the way to the given one.
\<close>

locale module_resolver =
  fixes rootFor :: "string \<Rightarrow> string \<Rightarrow> string"
  assumes resolves: "okSegs root \<Longrightarrow> okSegs d \<Longrightarrow>
    rootFor (absPath (root @ d)) (absPath root) = '''' \<or>
    (\<exists>q. prefix q d \<and> q \<noteq> [] \<and> rootFor (absPath (root @ d)) (absPath root) = absPath (root @ q))"
begin

text \<open>The cases a client distinguishes: the main module, or a module with its own segments.\<close>

lemma resolve_cases:
  assumes "okSegs root" and "okSegs d"
  obtains (main) "rootFor (absPath (root @ d)) (absPath root) = ''''"
  | (nested) q e where "d = q @ e" and "q \<noteq> []" and "okSegs q" and "okSegs e"
      and "rootFor (absPath (root @ d)) (absPath root) = absPath (root @ q)"
  using resolves [OF assms] assms(2) main nested by (auto simp: prefix_def)

lemma resolve_under:
  assumes "okSegs root" and "okSegs d" and "root \<noteq> []"
    and "rootFor (absPath (root @ d)) (absPath root) \<noteq> ''''"
  shows "hasPrefix (rootFor (absPath (root @ d)) (absPath root)) (absPath root @ ''/'')"
  using assms(1,2)
proof (cases rule: resolve_cases)
  case main
  with assms(4) show ?thesis by simp
next
  case (nested q e)
  then show ?thesis using assms(1,3) by (simp add: hasPrefix_sep_iff strict_prefix_def)
qed

text \<open>A file whose directory is resolved to a module lies below the root of the module.\<close>

lemma file_under_module:
  assumes "okSegs root" and "okSegs d" and "okSeg f"
    and "rootFor (absPath (root @ d)) (absPath root) = m" and "m \<noteq> ''''"
  shows "hasPrefix (absPath (root @ d @ [f])) (m @ ''/'')"
  using assms(1,2)
proof (cases rule: resolve_cases)
  case main
  with assms(4,5) show ?thesis by simp
next
  case (nested q e)
  then have "hasPrefix (absPath ((root @ q) @ e @ [f])) (absPath (root @ q) @ ''/'')"
    using assms(1-3) by (subst hasPrefix_sep_iff) (simp_all add: strict_prefix_def)
  then show ?thesis using nested assms(4) by simp
qed

end

interpretation mr: module_resolver "nestedModuleRoot stat" for stat
proof
  fix root d
  assume "okSegs root" and "okSegs d"
  then show "nestedModuleRoot stat (absPath (root @ d)) (absPath root) = '''' \<or>
    (\<exists>q. prefix q d \<and> q \<noteq> [] \<and>
      nestedModuleRoot stat (absPath (root @ d)) (absPath root) = absPath (root @ q))"
    using innermostModule_Some [of stat root d]
    by (auto simp: nestedModuleRoot_spec split: option.splits)
qed

section \<open>Properties\<close>

text \<open>the walk finds the innermost nested module. For a directory at or below the
  root the result is empty exactly when no directory strictly below the root on the way has
  its own \<open>go.mod\<close>; otherwise it is such a directory and no deeper one has a
  \<open>go.mod\<close>. The root's own \<open>go.mod\<close> never counts.\<close>

theorem nestedModuleRoot_innermost:
  assumes "okSegs root" and "okSegs d"
  shows "(nestedModuleRoot stat (absPath (root @ d)) (absPath root) = '''' \<and>
      (\<forall>q. prefix q d \<and> q \<noteq> [] \<longrightarrow> \<not> hasGoMod stat (absPath (root @ q)))) \<or>
    (\<exists>q. prefix q d \<and> q \<noteq> [] \<and>
      nestedModuleRoot stat (absPath (root @ d)) (absPath root) = absPath (root @ q) \<and>
      hasGoMod stat (absPath (root @ q)) \<and>
      (\<forall>p. prefix p d \<and> strict_prefix q p \<longrightarrow> \<not> hasGoMod stat (absPath (root @ p))))"
proof (cases "innermostModule stat root d")
  case None
  then show ?thesis
    using nestedModuleRoot_spec [OF assms] innermostModule_above [OF None] by auto
next
  case (Some q)
  have "\<not> hasGoMod stat (absPath (root @ p))" if "prefix p d" and "strict_prefix q p" for p
    using that by (intro innermostModule_above [OF Some]) auto
  with innermostModule_Some [OF Some] nestedModuleRoot_spec [OF assms] show ?thesis
    by (auto simp: Some)
qed

definition worktreeFs :: fileSystem where
  "worktreeFs p = (if p = ''/ws/wt/go.mod'' then Some RegularFile else None)"

theorem nestedModuleRoot_innermost_witness:
  "okSegs [''ws''] \<and> okSegs [''wt'', ''pkg''] \<and>
   (\<exists>q. prefix q [''wt'', ''pkg''] \<and> q \<noteq> [] \<and>
     nestedModuleRoot worktreeFs (absPath ([''ws''] @ [''wt'', ''pkg''])) (absPath [''ws'']) =
       absPath ([''ws''] @ q) \<and>
     (\<forall>p. prefix p [''wt'', ''pkg''] \<and> strict_prefix q p \<longrightarrow>
       \<not> hasGoMod worktreeFs (absPath ([''ws''] @ p))))"
proof -
  have ok: "okSegs [''ws'']" "okSegs [''wt'', ''pkg'']" by (simp_all add: okSeg_def)
  have "prefix [''wt''] [''wt'', ''pkg'']" and "hasGoMod worktreeFs (absPath ([''ws''] @ [''wt'']))"
    by (simp, code_simp)
  with nestedModuleRoot_innermost [OF ok, of worktreeFs] ok show ?thesis by blast
qed

text \<open>
  A session of the cache: questions, and module events after which the file system may have
  changed. The model of the whole is the walk without a cache.
\<close>

datatype cacheEvent = Ask string | GoModEvent fileSystem

fun cacheRun :: "string \<Rightarrow> fileSystem \<Rightarrow> moduleRootCache \<Rightarrow> cacheEvent list \<Rightarrow> string list" where
  "cacheRun root stat c [] = []"
| "cacheRun root stat c (Ask d # es) =
     (let (v, c') = RootFor stat c d root in v # cacheRun root stat c' es)"
| "cacheRun root stat c (GoModEvent stat' # es) = cacheRun root stat' (Invalidate c) es"

fun walkRun :: "string \<Rightarrow> fileSystem \<Rightarrow> cacheEvent list \<Rightarrow> string list" where
  "walkRun root stat [] = []"
| "walkRun root stat (Ask d # es) = nestedModuleRoot stat d root # walkRun root stat es"
| "walkRun root stat (GoModEvent stat' # es) = walkRun root stat' es"

lemma cacheRun_coherent:
  "coherent stat root c \<Longrightarrow> cacheRun root stat c es = walkRun root stat es"
proof (induction root stat c es rule: cacheRun.induct)
  case (2 root stat c d es)
  then show ?case
    using RootFor_coherent [OF "2.prems", of d] by (cases "RootFor stat c d root") simp
qed simp_all

text \<open>the cache is invisible. Over any session in which every change of the file
  system comes with an invalidation, the answers of \<open>RootFor\<close> are those of the walk on
  the file system of the moment.\<close>

theorem RootFor_transparent: "cacheRun root stat emptyCache es = walkRun root stat es"
  by (rule cacheRun_coherent) simp

text \<open>the walk is not bounded by the root. A directory that is not below the root
  but has a \<open>go.mod\<close> of its own (a module of the module cache, say) is returned as a
  nested module of the workspace, although the result is then outside it.\<close>

theorem nestedModuleRoot_escapes:
  assumes "okSegs root" and "okSegs d" and "root \<noteq> []" and "\<not> prefix root d"
    and "hasGoMod stat (absPath d)"
  shows "nestedModuleRoot stat (absPath d) (absPath root) = absPath d \<and>
    \<not> hasPrefix (absPath d) (absPath root @ ''/'')"
  using assms
  by (subst nestedModuleRoot.simps)
    (auto simp: absPath_inj hasPrefix_sep_iff strict_prefix_def)

definition modCacheFs :: fileSystem where
  "modCacheFs p = (if p = ''/mod/x/go.mod'' then Some RegularFile else None)"

theorem nestedModuleRoot_escapes_witness:
  "nestedModuleRoot modCacheFs (absPath [''mod'', ''x'']) (absPath [''ws'']) =
     absPath [''mod'', ''x'']"
proof -
  have "okSegs [''ws'']" and "okSegs [''mod'', ''x'']" by (simp_all add: okSeg_def)
  moreover have "hasGoMod modCacheFs (absPath [''mod'', ''x''])" by code_simp
  ultimately show ?thesis
    using nestedModuleRoot_escapes [of "[''ws'']" "[''mod'', ''x'']" modCacheFs] by simp
qed

text \<open>a walk in flight defeats an invalidation. The walk of \<open>RootFor\<close> runs
  outside the lock, so a \<open>go.mod\<close> can appear and the cache be cleared before its result
  is stored: the cache then keeps the answer from before the change.\<close>

theorem RootFor_store_after_Invalidate:
  "\<exists>before after dir root c.
     let result = nestedModuleRoot before dir root;
         c' = cacheStore (Invalidate c) dir result
     in fst (RootFor after c' dir root) \<noteq> nestedModuleRoot after dir root"
proof -
  have "fst (RootFor worktreeFs (cacheStore (Invalidate emptyCache) ''/ws/wt''
      (nestedModuleRoot (\<lambda>_. None) ''/ws/wt'' ''/ws'')) ''/ws/wt'' ''/ws'')
      \<noteq> nestedModuleRoot worktreeFs ''/ws/wt'' ''/ws''"
    by code_simp
  then show ?thesis unfolding Let_def by blast
qed

end
