(* ===== verification/Scope.thy ===== *)
theory Scope
  imports ModRoot
begin

text \<open>
  \<open>scope.go\<close> without the timers: scope units, the \<open>directoryFilters\<close> computed from
  them, the mapping from a file to its unit, the generation counters, and the scope that is
  saved at the end of a session and restored at the next one. The state is the part of the
  \<open>proxy\<close> struct these functions read and write; its mutex makes every function
  here one step.
\<close>

section \<open>State\<close>

text \<open>
  The channel that \<open>awaitApplied\<close> waits on is a number, the closed ones are collected.
  \<open>scopeEntry\<close>: the open documents of a unit, the time it was last useful, and the
  generation at which it was published to gopls (0: not yet).
\<close>

record scopeEntry =
  e_open :: "string set"
  e_lastActive :: int
  e_gen :: nat

record scopeState =
  p_root :: string
  p_scope :: "(string, scopeEntry) gomap"
  p_scopeGen :: nat
  p_appliedGen :: nat
  p_appliedCh :: "nat option"
  p_chanCount :: nat
  p_closedChs :: "nat set"

section \<open>Filters\<close>

definition filterExcludeAll :: string where
  "filterExcludeAll = ''-**''"

definition filtersLocked :: "('a scopeState_scheme) \<Rightarrow> string list" where
  "filtersLocked st =
     (let dirs = sort (gkeys (p_scope st))
      in if ''.'' \<in> set dirs then []
         else filterExcludeAll # map (\<lambda>d. ''+'' @ d) dirs)"

text \<open>
  What the list means to gopls: no filter admits every directory, otherwise a unit is
  admitted by a \<open>+\<close> entry of its own.
\<close>

definition admits :: "string list \<Rightarrow> string \<Rightarrow> bool" where
  "admits fs u \<longleftrightarrow> fs = [] \<or> (''+'' @ u) \<in> set fs"

lemma filtersLocked_admits:
  "admits (filtersLocked st) u \<longleftrightarrow>
     gget (p_scope st) ''.'' \<noteq> None \<or> gget (p_scope st) u \<noteq> None"
  by (auto simp: admits_def filtersLocked_def Let_def filterExcludeAll_def
      map_of_eq_None_iff image_iff)

lemma filtersLocked_cong:
  assumes "wf_map (p_scope s)" and "wf_map (p_scope t)"
    and "\<And>u. (gget (p_scope s) u = None) = (gget (p_scope t) u = None)"
  shows "filtersLocked s = filtersLocked t"
proof -
  have "sort (gkeys (p_scope s)) = sort (gkeys (p_scope t))"
    unfolding sort_gkeys [OF assms(1)] sort_gkeys [OF assms(2)] using assms(3) by simp
  then show ?thesis by (simp only: filtersLocked_def)
qed

section \<open>Scope units\<close>

text \<open>
  \<open>scopeUnit\<close> keeps at most \<open>n\<close> leading segments. The Go parameter is an \<open>int\<close>;
  for a negative one the slice expression panics, which is the value \<open>None\<close> of
  \<open>scopeUnitInt\<close>. The rest of the development runs the proxy with a granularity that
  does not panic and uses the total \<open>scopeUnit\<close>.
\<close>

definition scopeUnit :: "string \<Rightarrow> nat \<Rightarrow> string" where
  "scopeUnit rel n =
     (let segs = splitOn sep rel
      in joinWith ''/'' (if length segs > n then take n segs else segs))"

definition scopeUnitInt :: "string \<Rightarrow> int \<Rightarrow> string option" where
  "scopeUnitInt rel n =
     (let segs = splitOn sep rel
      in if int (length segs) > n
         then (if n < 0 then None else Some (joinWith ''/'' (take (nat n) segs)))
         else Some (joinWith ''/'' segs))"

lemma scopeUnitInt_nat [simp]: "scopeUnitInt rel (int n) = Some (scopeUnit rel n)"
  by (simp add: scopeUnitInt_def scopeUnit_def Let_def)

lemma scopeUnit_join:
  "okSegs d \<Longrightarrow> d \<noteq> [] \<Longrightarrow> scopeUnit (joinWith ''/'' d) n = joinWith ''/'' (take n d)"
  by (simp add: scopeUnit_def splitOn_join_ok)

definition prefixUnit :: "string \<Rightarrow> string \<Rightarrow> string" where
  "prefixUnit pre unit = (if unit = ''.'' then pre else pre @ ''/'' @ unit)"

text \<open>
  \<open>unitFor\<close>; the first argument is \<open>p.modRootFor\<close>, which the theorems
  instantiate with the walk (\<open>RootFor_transparent\<close> says that the cache in front of it is
  invisible) and which is constantly empty when \<open>p.modRoots\<close> is nil.
\<close>

definition unitFor :: "(string \<Rightarrow> string \<Rightarrow> string) \<Rightarrow> nat \<Rightarrow> string \<Rightarrow> string \<Rightarrow> string option" where
  "unitFor rootFor granularity root path =
     (if root = '''' \<or> \<not> hasPrefix path (root @ ''/'') then None
      else
        let dir = filepathDir path;
            modRoot = rootFor dir root;
            base = (if modRoot \<noteq> '''' then modRoot else root)
        in case filepathRel base dir of
             None \<Rightarrow> None
           | Some rel \<Rightarrow>
               if hasPrefix rel ''..'' then None
               else
                 let unit = (if rel \<noteq> ''.'' then scopeUnit rel granularity else ''.'')
                 in if modRoot = '''' then Some unit
                    else case filepathRel root modRoot of
                           None \<Rightarrow> None
                         | Some pre \<Rightarrow> Some (prefixUnit pre unit))"

text \<open>\<open>modRootFor\<close>: nil-safe access to the module detection.\<close>

definition modRootFor :: "(string \<Rightarrow> string \<Rightarrow> string) option \<Rightarrow> string \<Rightarrow> string \<Rightarrow> string" where
  "modRootFor modRoots dir root = (case modRoots of None \<Rightarrow> '''' | Some f \<Rightarrow> f dir root)"

text \<open>The name of the unit made of the given segments.\<close>

definition unitName :: "string list \<Rightarrow> string" where
  "unitName ss = (if ss = [] then ''.'' else joinWith ''/'' ss)"

text \<open>The code takes a directory whose first segment starts with two dots for an escape.\<close>

definition dotdotDir :: "string list \<Rightarrow> bool" where
  "dotdotDir d \<longleftrightarrow> d \<noteq> [] \<and> hasPrefix (hd d) ''..''"

lemma joinWith_hd: "d \<noteq> [] \<Longrightarrow> \<exists>r. joinWith ''/'' d = hd d @ r \<and> (r = [] \<or> hd r = sep)"
  by (cases d rule: list.exhaust; cases "tl d") auto

lemma prefix_dotdot_join:
  assumes "okSegs d"
  shows "hasPrefix (if d = [] then ''.'' else joinWith ''/'' d) ''..'' \<longleftrightarrow> dotdotDir d"
proof (cases d)
  case Nil
  then show ?thesis by (simp add: dotdotDir_def)
next
  case (Cons s ss)
  then have "s \<noteq> ''''" and "s \<noteq> ''.''" using assms by (auto simp: okSeg_def)
  then show ?thesis
    using Cons by (cases ss; cases s; cases "tl s") (auto simp: dotdotDir_def)
qed

lemma joinWith_okSegs_ne_dot: "okSegs d \<Longrightarrow> d \<noteq> [] \<Longrightarrow> joinWith ''/'' d \<noteq> ''.''"
proof -
  assume ok: "okSegs d" and "d \<noteq> []"
  show ?thesis
  proof
    assume "joinWith ''/'' d = ''.''"
    then have "splitOn sep (joinWith ''/'' d) = [''.'']" by simp
    then have "d = [''.'']" using ok \<open>d \<noteq> []\<close> by (simp add: splitOn_join_ok)
    with ok show False by (simp add: okSeg_def)
  qed
qed

lemma dir_of_file:
  "okSegs r \<Longrightarrow> okSegs d \<Longrightarrow> okSeg f \<Longrightarrow>
     filepathDir (absPath (r @ d @ [f])) = absPath (r @ d)"
  using dir_absPath_snoc [of "r @ d" f] by simp

lemma file_in_root:
  "okSegs r \<Longrightarrow> r \<noteq> [] \<Longrightarrow> okSegs d \<Longrightarrow> okSeg f \<Longrightarrow>
     hasPrefix (absPath (r @ d @ [f])) (absPath r @ ''/'')"
  by (simp add: hasPrefix_sep_iff strict_prefix_def)

context module_resolver
begin

text \<open>The two cases of \<open>unitFor\<close> for a file below the root.\<close>

lemma unitFor_main:
  assumes "okSegs r" and "r \<noteq> []" and "okSegs d" and "okSeg f"
    and "rootFor (absPath (r @ d)) (absPath r) = ''''"
  shows "unitFor rootFor n (absPath r) (absPath (r @ d @ [f])) =
    (if dotdotDir d then None
     else Some (if d = [] then ''.'' else joinWith ''/'' (take n d)))"
  using assms prefix_dotdot_join [of d] joinWith_okSegs_ne_dot [of d]
  by (auto simp: unitFor_def dir_of_file file_in_root rel_below scopeUnit_join Let_def)

lemma unitFor_nested:
  assumes "okSegs r" and "r \<noteq> []" and "okSegs q" and "q \<noteq> []" and "okSegs e" and "okSeg f"
    and "rootFor (absPath (r @ q @ e)) (absPath r) = absPath (r @ q)"
  shows "unitFor rootFor n (absPath r) (absPath (r @ (q @ e) @ [f])) =
    (if dotdotDir e then None
     else Some (prefixUnit (joinWith ''/'' q)
       (if e = [] then ''.'' else joinWith ''/'' (take n e))))"
proof -
  have "filepathRel (absPath (r @ q)) (absPath (r @ q @ e)) =
      Some (if e = [] then ''.'' else joinWith ''/'' e)"
    using rel_below [of "r @ q" e] assms by simp
  then show ?thesis
    using assms prefix_dotdot_join [of e] joinWith_okSegs_ne_dot [of e]
    unfolding unitFor_def
    by (auto simp: dir_of_file [of r "q @ e" f] file_in_root [of r "q @ e" f] rel_below
        scopeUnit_join Let_def simp del: append_assoc)
qed

end

section \<open>Scope generations\<close>

text \<open>
  \<open>stampScopeGenLocked\<close>: advance the generation and stamp every entry that is not yet
  published with it. The result is the new state; its \<open>p_scopeGen\<close> is the returned value.
\<close>

definition stampEntry :: "nat \<Rightarrow> scopeEntry \<Rightarrow> scopeEntry" where
  "stampEntry g e = (if e_gen e = 0 then e\<lparr>e_gen := g\<rparr> else e)"

definition stampScopeGenLocked :: "'a scopeState_scheme \<Rightarrow> 'a scopeState_scheme" where
  "stampScopeGenLocked st =
     (let g = p_scopeGen st + 1
      in st\<lparr>p_scopeGen := g, p_scope := map (\<lambda>(u, e). (u, stampEntry g e)) (p_scope st)\<rparr>)"

text \<open>
  \<open>ensureUnitsLocked\<close>: the loop over the units, with the running result \<open>(gen, needPush)\<close>.
\<close>

definition freshEntry :: "int \<Rightarrow> scopeEntry" where
  "freshEntry now = \<lparr>e_open = {}, e_lastActive = now, e_gen = 0\<rparr>"

fun ensureLoop ::
  "int \<Rightarrow> string list \<Rightarrow> (string, scopeEntry) gomap \<Rightarrow> nat \<Rightarrow> bool
   \<Rightarrow> (string, scopeEntry) gomap \<times> nat \<times> bool" where
  "ensureLoop now [] sc gen needPush = (sc, gen, needPush)"
| "ensureLoop now (u # us) sc gen needPush =
     (let (sc', e) = (case gget sc u of
                        None \<Rightarrow> (gput u (freshEntry now) sc, freshEntry now)
                      | Some e \<Rightarrow> (sc, e))
      in if e_gen e = 0 then ensureLoop now us sc' gen True
         else if e_gen e > gen then ensureLoop now us sc' (e_gen e) needPush
         else ensureLoop now us sc' gen needPush)"

definition ensureUnitsLocked ::
  "int \<Rightarrow> string list \<Rightarrow> 'a scopeState_scheme \<Rightarrow> (nat \<times> bool) \<times> 'a scopeState_scheme" where
  "ensureUnitsLocked now units st =
     (let (sc, gen, needPush) = ensureLoop now units (p_scope st) 0 False
      in ((gen, needPush), st\<lparr>p_scope := sc\<rparr>))"

text \<open>
  \<open>appliedChLocked\<close>: the channel for the next advance, made on first use. Channels are
  numbered in the order they are made.
\<close>

definition appliedChLocked :: "'a scopeState_scheme \<Rightarrow> nat \<times> 'a scopeState_scheme" where
  "appliedChLocked st =
     (case p_appliedCh st of
        Some c \<Rightarrow> (c, st)
      | None \<Rightarrow> (p_chanCount st,
                  st\<lparr>p_appliedCh := Some (p_chanCount st), p_chanCount := p_chanCount st + 1\<rparr>))"

text \<open>\<open>advanceAppliedLocked\<close>: forward only, and the current channel is closed.\<close>

definition advanceAppliedLocked :: "nat \<Rightarrow> 'a scopeState_scheme \<Rightarrow> 'a scopeState_scheme" where
  "advanceAppliedLocked gen st =
     (if gen \<le> p_appliedGen st then st
      else
        let st' = st\<lparr>p_appliedGen := gen\<rparr>
        in case p_appliedCh st' of
             None \<Rightarrow> st'
           | Some c \<Rightarrow> st'\<lparr>p_closedChs := insert c (p_closedChs st'), p_appliedCh := None\<rparr>)"

lemma appliedGen_advance [simp]:
  "p_appliedGen (advanceAppliedLocked g st) = max g (p_appliedGen st)"
  by (simp add: advanceAppliedLocked_def max_def Let_def split: option.split)

lemma advance_frame [simp]:
  "p_scope (advanceAppliedLocked g st) = p_scope st"
  "p_scopeGen (advanceAppliedLocked g st) = p_scopeGen st"
  "p_root (advanceAppliedLocked g st) = p_root st"
  "scopeState.more (advanceAppliedLocked g st) = scopeState.more st"
  by (simp_all add: advanceAppliedLocked_def Let_def split: option.split)

lemma stamp_frame [simp]:
  "p_scopeGen (stampScopeGenLocked st) = Suc (p_scopeGen st)"
  "p_appliedGen (stampScopeGenLocked st) = p_appliedGen st"
  "p_root (stampScopeGenLocked st) = p_root st"
  "scopeState.more (stampScopeGenLocked st) = scopeState.more st"
  "gkeys (p_scope (stampScopeGenLocked st)) = gkeys (p_scope st)"
  by (simp_all add: stampScopeGenLocked_def Let_def split: prod.split)

lemma stamp_gget [simp]:
  "gget (p_scope (stampScopeGenLocked st)) u =
     map_option (stampEntry (Suc (p_scopeGen st))) (gget (p_scope st) u)"
  by (simp add: stampScopeGenLocked_def Let_def gget_map_values)

lemma stamp_wf [simp]: "wf_map (p_scope (stampScopeGenLocked st)) = wf_map (p_scope st)"
  by (simp add: stampScopeGenLocked_def Let_def)

lemma stampEntry_gen [simp]: "e_gen (stampEntry g e) = (if e_gen e = 0 then g else e_gen e)"
  by (simp add: stampEntry_def)

lemma stampEntry_frame [simp]:
  "e_open (stampEntry g e) = e_open e" "e_lastActive (stampEntry g e) = e_lastActive e"
  by (simp_all add: stampEntry_def)

text \<open>
  The generation invariant: keys are distinct, no entry and not the applied counter is
  ahead of the scope generation.
\<close>

definition gens_ok :: "'a scopeState_scheme \<Rightarrow> bool" where
  "gens_ok st \<longleftrightarrow>
     wf_map (p_scope st) \<and> p_appliedGen st \<le> p_scopeGen st \<and>
     (\<forall>u e. gget (p_scope st) u = Some e \<longrightarrow> e_gen e \<le> p_scopeGen st)"

lemma gens_ok_stamp [intro, scope_inv]: "gens_ok st \<Longrightarrow> gens_ok (stampScopeGenLocked st)"
  by (auto simp: gens_ok_def le_SucI)

lemma gens_ok_advance [intro, scope_inv]:
  "gens_ok st \<Longrightarrow> g \<le> p_scopeGen st \<Longrightarrow> gens_ok (advanceAppliedLocked g st)"
  by (auto simp: gens_ok_def)

lemma ensureLoop_wf: "wf_map sc \<Longrightarrow> wf_map (fst (ensureLoop now us sc gen np))"
  by (induction now us sc gen np rule: ensureLoop.induct)
    (auto simp: Let_def split: option.splits prod.splits)

lemma ensureLoop_gget:
  "gget (fst (ensureLoop now us sc gen np)) u =
     (case gget sc u of Some e \<Rightarrow> Some e
      | None \<Rightarrow> if u \<in> set us then Some (freshEntry now) else None)"
  by (induction now us sc gen np rule: ensureLoop.induct)
    (auto simp: Let_def split: option.splits prod.splits)

text \<open>The unit's generation as the caller of the loop sees it: absent counts as unpublished.\<close>

definition unitGen :: "(string, scopeEntry) gomap \<Rightarrow> string \<Rightarrow> nat" where
  "unitGen sc u = (case gget sc u of None \<Rightarrow> 0 | Some e \<Rightarrow> e_gen e)"

lemma unitGen_gput_fresh [simp]:
  "gget sc u = None \<Longrightarrow> unitGen (gput u (freshEntry now) sc) v = unitGen sc v"
  by (auto simp: unitGen_def freshEntry_def)

lemma ensureLoop_result:
  "snd (ensureLoop now us sc gen np) =
     (foldl max gen (map (unitGen sc) us), np \<or> (\<exists>u \<in> set us. unitGen sc u = 0))"
proof (induction us arbitrary: sc gen np)
  case Nil
  then show ?case by simp
next
  case (Cons u us)
  show ?case
  proof (cases "gget sc u")
    case None
    then have "unitGen sc u = 0" and "map (unitGen (gput u (freshEntry now) sc)) us = map (unitGen sc) us"
      by (simp_all add: unitGen_def [of sc u])
    with None Cons.IH show ?thesis by (simp add: Let_def freshEntry_def [THEN arg_cong [where f = e_gen]])
  next
    case (Some e)
    then have "unitGen sc u = e_gen e" by (simp add: unitGen_def)
    with Some Cons.IH show ?thesis by (auto simp: Let_def max_def)
  qed
qed

lemma ensureUnits_frame [simp]:
  "p_scopeGen (snd (ensureUnitsLocked now us st)) = p_scopeGen st"
  "p_appliedGen (snd (ensureUnitsLocked now us st)) = p_appliedGen st"
  "p_root (snd (ensureUnitsLocked now us st)) = p_root st"
  "scopeState.more (snd (ensureUnitsLocked now us st)) = scopeState.more st"
  by (simp_all add: ensureUnitsLocked_def split: prod.split)

lemma ensureUnits_gget [simp]:
  "gget (p_scope (snd (ensureUnitsLocked now us st))) u =
     (case gget (p_scope st) u of Some e \<Rightarrow> Some e
      | None \<Rightarrow> if u \<in> set us then Some (freshEntry now) else None)"
  using ensureLoop_gget [of now us "p_scope st" 0 False u]
  by (cases "ensureLoop now us (p_scope st) 0 False") (simp add: ensureUnitsLocked_def)

lemma ensureUnits_wf [simp]:
  "wf_map (p_scope st) \<Longrightarrow> wf_map (p_scope (snd (ensureUnitsLocked now us st)))"
  using ensureLoop_wf [of "p_scope st" now us 0 False]
  by (cases "ensureLoop now us (p_scope st) 0 False") (simp add: ensureUnitsLocked_def)

lemma ensureUnits_result:
  "fst (ensureUnitsLocked now us st) =
     (foldl max 0 (map (unitGen (p_scope st)) us), \<exists>u \<in> set us. unitGen (p_scope st) u = 0)"
  using ensureLoop_result [of now us "p_scope st" 0 False]
  by (cases "ensureLoop now us (p_scope st) 0 False") (simp add: ensureUnitsLocked_def)

lemma gens_ok_ensure [intro, scope_inv]:
  "gens_ok st \<Longrightarrow> gens_ok (snd (ensureUnitsLocked now us st))"
  by (auto simp: gens_ok_def freshEntry_def split: option.splits if_splits)

section \<open>Persistence\<close>

text \<open>
  \<open>saveScope\<close> and \<open>restoreScope\<close>: what is written is the list of units (nothing is
  written without a root or for an empty scope); what is read back is that list, or nothing
  when the file is missing or does not parse.
\<close>

definition saveScope :: "'a scopeState_scheme \<Rightarrow> string list option" where
  "saveScope st =
     (if p_root st = '''' \<or> p_scope st = [] then None else Some (gkeys (p_scope st)))"

definition unitDirExists :: "fileSystem \<Rightarrow> string \<Rightarrow> string \<Rightarrow> bool" where
  "unitDirExists stat root unit =
     (if unit = ''.'' then True else stat (filepathJoin root unit) = Some Directory)"

fun restoreLoop ::
  "fileSystem \<Rightarrow> int \<Rightarrow> string \<Rightarrow> string list \<Rightarrow> (string, scopeEntry) gomap
   \<Rightarrow> (string, scopeEntry) gomap" where
  "restoreLoop stat now root [] sc = sc"
| "restoreLoop stat now root (u # us) sc =
     (if \<not> unitDirExists stat root u then restoreLoop stat now root us sc
      else restoreLoop stat now root us
        (if gget sc u = None then gput u (freshEntry now) sc else sc))"

definition restoreScope ::
  "fileSystem \<Rightarrow> int \<Rightarrow> string \<Rightarrow> string list option \<Rightarrow> 'a scopeState_scheme \<Rightarrow> 'a scopeState_scheme"
  where
  "restoreScope stat now root saved st =
     (case saved of
        None \<Rightarrow> st
      | Some units \<Rightarrow>
          if units = [] then st
          else st\<lparr>p_scope := restoreLoop stat now root units (p_scope st)\<rparr>)"

text \<open>
  \<open>scopeCacheFile\<close>: the scope file sits beside the graph file whose path is given, with
  \<open>scope-\<close> in place of \<open>graph-\<close>.
\<close>

definition scopeCacheFile :: "string \<Rightarrow> string" where
  "scopeCacheFile cf =
     (let dir = uptoSlash cf; base = drop (length dir) cf
      in filepathJoin dir (''scope-'' @ trimPrefix base ''graph-''))"

lemma restoreLoop_gget:
  "gget (restoreLoop stat now root us sc) u =
     (case gget sc u of Some e \<Rightarrow> Some e
      | None \<Rightarrow> if u \<in> set us \<and> unitDirExists stat root u then Some (freshEntry now) else None)"
  by (induction stat now root us sc rule: restoreLoop.induct) (auto split: option.splits)

lemma restoreLoop_wf: "wf_map sc \<Longrightarrow> wf_map (restoreLoop stat now root us sc)"
  by (induction stat now root us sc rule: restoreLoop.induct) auto

lemma restore_frame [simp]:
  "p_scopeGen (restoreScope stat now root saved st) = p_scopeGen st"
  "p_appliedGen (restoreScope stat now root saved st) = p_appliedGen st"
  "p_root (restoreScope stat now root saved st) = p_root st"
  "scopeState.more (restoreScope stat now root saved st) = scopeState.more st"
  by (simp_all add: restoreScope_def split: option.split)

lemma restore_gget:
  "gget (p_scope (restoreScope stat now root saved st)) u =
     (case gget (p_scope st) u of Some e \<Rightarrow> Some e
      | None \<Rightarrow> (case saved of None \<Rightarrow> None
                | Some us \<Rightarrow> if u \<in> set us \<and> unitDirExists stat root u
                            then Some (freshEntry now) else None))"
  by (auto simp: restoreScope_def restoreLoop_gget split: option.split)

lemma restore_wf [simp]:
  "wf_map (p_scope st) \<Longrightarrow> wf_map (p_scope (restoreScope stat now root saved st))"
  by (simp add: restoreScope_def restoreLoop_wf split: option.split)

lemma gens_ok_restore [intro, scope_inv]:
  "gens_ok st \<Longrightarrow> gens_ok (restoreScope stat now root saved st)"
  by (auto simp: gens_ok_def restore_gget freshEntry_def split: option.splits if_splits)

section \<open>Properties\<close>

text \<open>
  The module of a file: the segments of the innermost nested module above it, empty for the
  main module, and the rest of its directory.
\<close>

definition moduleSegs :: "fileSystem \<Rightarrow> string list \<Rightarrow> string list \<Rightarrow> string list" where
  "moduleSegs stat r d = (case innermostModule stat r d of None \<Rightarrow> [] | Some q \<Rightarrow> q)"

lemma moduleSegs_prefix: "prefix (moduleSegs stat r d) d"
  using innermostModule_Some [of stat r d] by (auto simp: moduleSegs_def split: option.splits)

lemma prefixUnit_unitName:
  "okSegs e \<Longrightarrow> q \<noteq> [] \<Longrightarrow> 0 < n \<Longrightarrow>
     prefixUnit (joinWith ''/'' q) (if e = [] then ''.'' else joinWith ''/'' (take n e)) =
       unitName (q @ take n e)"
proof -
  assume ok: "okSegs e" and "q \<noteq> []" and "0 < n"
  have "joinWith ''/'' (take n e) \<noteq> ''.''" if "e \<noteq> []"
    using that ok \<open>0 < n\<close> joinWith_okSegs_ne_dot [of "take n e"]
    by (auto simp: okSegs_def list_all_iff dest: in_set_takeD)
  then show ?thesis
    using \<open>q \<noteq> []\<close> \<open>0 < n\<close> by (auto simp: prefixUnit_def unitName_def joinWith_append)
qed

lemma unitFor_unitName:
  assumes "okSegs r" and "r \<noteq> []" and "okSegs d" and "okSeg f" and "0 < n"
  shows "unitFor (nestedModuleRoot stat) n (absPath r) (absPath (r @ d @ [f])) =
    (let q = moduleSegs stat r d; e = drop (length q) d
     in if dotdotDir e then None else Some (unitName (q @ take n e)))"
proof (cases "innermostModule stat r d")
  case None
  then show ?thesis
    using assms mr.unitFor_main [of r d f stat n] nestedModuleRoot_spec [of r d stat]
    by (simp add: moduleSegs_def unitName_def)
next
  case (Some q)
  then obtain e where d: "d = q @ e" and "q \<noteq> []"
    using innermostModule_Some [of stat r d q] by (auto simp: prefix_def)
  then have "nestedModuleRoot stat (absPath (r @ q @ e)) (absPath r) = absPath (r @ q)"
    using assms nestedModuleRoot_spec [of r d stat] Some by simp
  then show ?thesis
    using assms mr.unitFor_nested [of r q e f stat n] \<open>q \<noteq> []\<close> Some
    by (simp add: d moduleSegs_def Let_def prefixUnit_unitName)
qed

text \<open>C13: \<open>unitFor\<close> computes the scope unit. For a file below the root it is the
  innermost nested module's path followed by at most \<open>granularity\<close> segments of the rest
  of the directory, and \<open>.\<close> for a file directly in the root of the main module. The only
  exception is a directory whose first segment (relative to its module) starts with two dots:
  such a file gets no unit.\<close>

theorem unitFor_correct:
  assumes "okSegs r" and "r \<noteq> []" and "okSegs d" and "okSeg f" and "0 < n"
  shows "unitFor (nestedModuleRoot stat) n (absPath r) (absPath (r @ d @ [f])) =
    (let q = (case innermostModule stat r d of None \<Rightarrow> [] | Some q \<Rightarrow> q);
         e = drop (length q) d
     in if e \<noteq> [] \<and> hasPrefix (hd e) ''..'' then None
        else Some (if q @ take n e = [] then ''.'' else joinWith ''/'' (q @ take n e)))"
  using unitFor_unitName [OF assms, of stat]
  by (simp only: moduleSegs_def dotdotDir_def unitName_def)

theorem unitFor_correct_witness:
  "unitFor (nestedModuleRoot worktreeFs) 1 (absPath [''ws''])
     (absPath ([''ws''] @ [''wt'', ''pkg'', ''sub''] @ [''a.go''])) = Some ''wt/pkg''"
proof -
  have "okSegs [''ws'']" "okSegs [''wt'', ''pkg'', ''sub'']" "okSeg ''a.go''"
    by (simp_all add: okSeg_def)
  moreover have "innermostModule worktreeFs [''ws''] [''wt'', ''pkg'', ''sub''] = Some [''wt'']"
    by code_simp
  ultimately show ?thesis
    using unitFor_correct [of "[''ws'']" "[''wt'', ''pkg'', ''sub'']" "''a.go''" 1 worktreeFs]
    by simp
qed

text \<open>a file of a nested module never maps to the unit \<open>.\<close>, which would drop
  all filters: its unit is the module's own path or lies below it.\<close>

theorem unitFor_nested_never_root:
  assumes "okSegs r" and "r \<noteq> []" and "okSegs d" and "okSeg f" and "0 < n"
    and "innermostModule stat r d = Some q"
    and "unitFor (nestedModuleRoot stat) n (absPath r) (absPath (r @ d @ [f])) = Some u"
  shows "u \<noteq> ''.'' \<and> (u = joinWith ''/'' q \<or> hasPrefix u (joinWith ''/'' q @ ''/''))"
proof -
  have q: "prefix q d" "q \<noteq> []" using innermostModule_Some [OF assms(6)] by auto
  then have "okSegs q" using assms(3) by (auto simp: prefix_def)
  have u: "u = unitName (q @ take n (drop (length q) d))"
    using assms(7) unitFor_unitName [OF assms(1-5), of stat] assms(6)
    by (auto simp: moduleSegs_def Let_def split: if_splits)
  have "okSegs (take n (drop (length q) d))"
    using assms(3) by (auto simp: okSegs_def list_all_iff dest: in_set_takeD in_set_dropD)
  with u q \<open>okSegs q\<close> joinWith_okSegs_ne_dot [of "q @ take n (drop (length q) d)"]
  show ?thesis
    by (cases "take n (drop (length q) d) = []") (auto simp: unitName_def joinWith_append)
qed

theorem unitFor_nested_never_root_witness:
  "''wt/pkg'' \<noteq> ''.'' \<and>
     (''wt/pkg'' = joinWith ''/'' [''wt''] \<or>
      hasPrefix ''wt/pkg'' (joinWith ''/'' [''wt''] @ ''/''))"
proof (rule unitFor_nested_never_root)
  show "okSegs [''ws'']" "okSegs [''wt'', ''pkg'', ''sub'']" "okSeg ''a.go''"
    by (simp_all add: okSeg_def)
  show "innermostModule worktreeFs [''ws''] [''wt'', ''pkg'', ''sub''] = Some [''wt'']"
    by code_simp
  show "unitFor (nestedModuleRoot worktreeFs) 1 (absPath [''ws''])
     (absPath ([''ws''] @ [''wt'', ''pkg'', ''sub''] @ [''a.go''])) = Some ''wt/pkg''"
    by code_simp
qed simp_all

text \<open>the containment test of \<open>unitFor\<close> needs a root without a trailing slash:
  with \<open>root = "/ws/"\<close> (a root URI that ends in a slash) no clean path has a unit, so no
  file ever enters the scope.\<close>

theorem unitFor_trailing_slash_root:
  assumes "okSegs r" and "r \<noteq> []" and "okSegs p"
  shows "unitFor rootFor n (absPath r @ ''/'') (absPath p) = None"
proof -
  have "\<not> hasPrefix (absPath p) (absPath r @ ''/'' @ ''/'')"
  proof
    assume "hasPrefix (absPath p) (absPath r @ ''/'' @ ''/'')"
    then obtain t where "absPath p = absPath r @ sep # sep # t" by (auto simp: prefix_def)
    then have "splitOn sep (absPath p) = splitOn sep (absPath r) @ [''''] @ splitOn sep t"
      using splitOn_sep [of sep "absPath r" "sep # t"] splitOn_sep [of sep "[]" t] by simp
    with assms have "(if p = [] then [''''] else p) = r @ '''' # splitOn sep t"
      by (simp add: splitOn_absPath)
    moreover from this assms(2) have "p \<noteq> []" by (cases r) (auto split: if_splits)
    ultimately have "'''' \<in> set p" by simp
    with assms(3) show False by (auto simp: okSegs_def list_all_iff okSeg_def)
  qed
  then show ?thesis by (simp add: unitFor_def)
qed

theorem unitFor_trailing_slash_root_witness:
  "unitFor (\<lambda>_ _. '''') 3 (absPath [''ws''] @ ''/'') (absPath [''ws'', ''main.go'']) = None"
  by (rule unitFor_trailing_slash_root) (simp_all add: okSeg_def)

text \<open>C37: the filters are a function of the set of units alone. They are empty when the
  workspace root is in scope; otherwise the exclusion of everything comes first and one
  admission per unit follows, in increasing order, whatever the iteration order of the map.\<close>

theorem filtersLocked_correct:
  assumes "wf_map (p_scope st)"
  shows "filtersLocked st =
    (if gget (p_scope st) ''.'' \<noteq> None then []
     else ''-**'' # map (\<lambda>d. ''+'' @ d) (sorted_list_of_set {u. gget (p_scope st) u \<noteq> None}))"
proof -
  have "''.'' \<in> set (sort (gkeys (p_scope st))) \<longleftrightarrow> gget (p_scope st) ''.'' \<noteq> None"
    by (simp only: set_sort set_gkeys mem_Collect_eq)
  then show ?thesis
    by (simp only: filtersLocked_def Let_def filterExcludeAll_def sort_gkeys [OF assms] if_True)
qed

definition twoUnits :: scopeState where
  "twoUnits = \<lparr>p_root = ''/ws'',
     p_scope = [(''go/b'', freshEntry 0), (''go/a'', freshEntry 0)],
     p_scopeGen = 0, p_appliedGen = 0, p_appliedCh = None, p_chanCount = 0, p_closedChs = {}\<rparr>"

theorem filtersLocked_correct_witness:
  "wf_map (p_scope twoUnits) \<and>
   filtersLocked twoUnits = ''-**'' # map (\<lambda>d. ''+'' @ d)
     (sorted_list_of_set {u. gget (p_scope twoUnits) u \<noteq> None})"
proof -
  have "wf_map (p_scope twoUnits)" by (simp add: twoUnits_def wf_map_def)
  moreover have "gget (p_scope twoUnits) ''.'' = None" by (simp add: twoUnits_def)
  ultimately show ?thesis using filtersLocked_correct [of twoUnits] by simp
qed

text \<open>\<open>ensureUnitsLocked\<close>. Afterwards every unit asked for is in scope and the
  others are as they were. A push is asked for exactly when some unit was not published, and
  when none is needed the returned generation is an upper bound of the units' generations
  that one of them reaches.\<close>

theorem ensureUnitsLocked_correct:
  assumes "ensureUnitsLocked now us st = ((g, needPush), st')"
  shows "(\<forall>u \<in> set us. gget (p_scope st') u \<noteq> None) \<and>
    (\<forall>u e. gget (p_scope st) u = Some e \<longrightarrow> gget (p_scope st') u = Some e) \<and>
    (needPush \<longleftrightarrow> (\<exists>u \<in> set us. unitGen (p_scope st') u = 0)) \<and>
    (\<forall>u \<in> set us. unitGen (p_scope st') u \<le> g) \<and>
    (us \<noteq> [] \<longrightarrow> (\<exists>u \<in> set us. unitGen (p_scope st') u = g))"
proof -
  have st': "st' = snd (ensureUnitsLocked now us st)" using assms by simp
  have gen: "unitGen (p_scope st') u = unitGen (p_scope st) u" for u
    by (simp add: st' unitGen_def freshEntry_def split: option.split)
  have "foldl max x xs = (if xs = [] then x else max x (Max (set xs)))" for x and xs :: "nat list"
    by (induction xs arbitrary: x) (auto simp: max.assoc)
  moreover have "(g, needPush) = (foldl max 0 (map (unitGen (p_scope st)) us),
      \<exists>u \<in> set us. unitGen (p_scope st) u = 0)"
    using ensureUnits_result [of now us st] assms by simp
  ultimately have g: "g = (if us = [] then 0 else Max (unitGen (p_scope st) ` set us))"
    and np: "needPush = (\<exists>u \<in> set us. unitGen (p_scope st) u = 0)"
    by auto
  have "Max (unitGen (p_scope st) ` set us) \<in> unitGen (p_scope st) ` set us" if "us \<noteq> []"
    using that by (intro Max_in) auto
  then have "us \<noteq> [] \<longrightarrow> (\<exists>u \<in> set us. unitGen (p_scope st') u = g)"
    unfolding g gen by (metis imageE)
  moreover have "\<forall>u \<in> set us. unitGen (p_scope st') u \<le> g" by (auto simp: gen g)
  moreover have "needPush \<longleftrightarrow> (\<exists>u \<in> set us. unitGen (p_scope st') u = 0)"
    by (simp only: np gen)
  ultimately show ?thesis by (auto simp: st' split: option.splits)
qed

theorem ensureUnitsLocked_correct_witness:
  "\<exists>g needPush st'. ensureUnitsLocked 5 [''go/a'', ''go/c''] twoUnits = ((g, needPush), st') \<and>
     needPush \<and> gget (p_scope st') ''go/c'' \<noteq> None"
proof -
  obtain g np st' where eq: "ensureUnitsLocked 5 [''go/a'', ''go/c''] twoUnits = ((g, np), st')"
    by (metis prod.exhaust)
  have "fst (ensureUnitsLocked 5 [''go/a'', ''go/c''] twoUnits) = (0, True)" by code_simp
  with eq have "np" by simp
  moreover have "gget (p_scope st') ''go/c'' \<noteq> None"
    using ensureUnitsLocked_correct [OF eq] by simp
  ultimately show ?thesis using eq by blast
qed

text \<open>the scope survives a restart. Restoring what was saved into an empty scope, with
  every unit's directory still there, gives the same filters, and every restored unit is
  unpublished with no open document.\<close>

theorem restore_saved_scope:
  assumes "wf_map (p_scope st)" and "p_root st \<noteq> ''''"
    and "\<And>u. gget (p_scope st) u \<noteq> None \<Longrightarrow> unitDirExists stat root u"
    and "p_scope new = []"
  shows "filtersLocked (restoreScope stat now root (saveScope st) new) = filtersLocked st \<and>
    (\<forall>u e. gget (p_scope (restoreScope stat now root (saveScope st) new)) u = Some e \<longrightarrow>
       e_gen e = 0 \<and> e_open e = {})"
proof
  let ?new = "restoreScope stat now root (saveScope st) new"
  have keys: "u \<in> set (gkeys (p_scope st)) \<longleftrightarrow> gget (p_scope st) u \<noteq> None" for u
    by (simp only: set_gkeys mem_Collect_eq)
  have "(gget (p_scope ?new) u = None) = (gget (p_scope st) u = None)" for u
    using assms keys [of u]
    by (cases "p_scope st = []") (auto simp: restore_gget saveScope_def)
  moreover have "wf_map (p_scope ?new)" by (simp add: assms(4))
  ultimately show "filtersLocked ?new = filtersLocked st"
    using assms(1) by (intro filtersLocked_cong) auto
  show "\<forall>u e. gget (p_scope ?new) u = Some e \<longrightarrow> e_gen e = 0 \<and> e_open e = {}"
    by (auto simp: restore_gget assms(4) freshEntry_def split: option.splits if_splits)
qed

theorem restore_saved_scope_witness:
  "filtersLocked (restoreScope (\<lambda>_. Some Directory) 9 ''/ws'' (saveScope twoUnits)
     (twoUnits\<lparr>p_scope := []\<rparr>)) = filtersLocked twoUnits"
proof -
  have "wf_map (p_scope twoUnits)" and "p_root twoUnits \<noteq> ''''"
    by (simp_all add: twoUnits_def wf_map_def)
  then show ?thesis
    using restore_saved_scope [of twoUnits "\<lambda>_. Some Directory" "''/ws''" "twoUnits\<lparr>p_scope := []\<rparr>" 9]
    by (simp add: unitDirExists_def)
qed

end
