(* ===== verification/RevIndex.thy ===== *)
theory RevIndex
  imports Symbols Scope
begin

text \<open>
  \<open>revindex.go\<close>: the reverse-import index. The parser (\<open>go/parser\<close>) is a parameter:
  \<open>parseFull\<close> is \<open>ParseFile\<close> with \<open>SkipObjectResolution\<close>, which may return a
  partial tree beside an error, and \<open>parseImportsOnly\<close> is \<open>ParseFile\<close> with
  \<open>ImportsOnly\<close>. A parse result is the tree, if any, and whether there was an error.
\<close>

type_synonym parser = "string \<Rightarrow> astFile option \<times> bool"

section \<open>The import signature of a file\<close>

text \<open>The package directory an import path names, if it belongs to the module.\<close>

definition internalDir :: "string \<Rightarrow> string \<Rightarrow> string option" where
  "internalDir modPath p =
     (if modPath = '''' then None
      else if p = modPath then Some ''.''
      else if hasPrefix p (modPath @ ''/'') then Some (drop (length modPath + 1) p)
      else None)"

definition embedMark :: string where
  "embedMark = CHR 0x00 # ''embed:''"

definition goEmbed :: string where
  "goEmbed = ''//go:embed''"

definition embedLines :: "string \<Rightarrow> string list" where
  "embedLines src = filter (\<lambda>t. hasPrefix t goEmbed) (map trimSpace (stringsLines src))"

text \<open>The import loop shared by \<open>parseImports\<close> and \<open>parseFileMetadata\<close>.\<close>

fun importLoop :: "string \<Rightarrow> string option list \<Rightarrow> string list \<times> string list" where
  "importLoop modPath [] = ([], [])"
| "importLoop modPath (None # is) = importLoop modPath is"
| "importLoop modPath (Some p # is) =
     (let (all, internal) = importLoop modPath is
      in (p # all, (case internalDir modPath p of None \<Rightarrow> internal | Some d \<Rightarrow> d # internal)))"

definition importSignature :: "string \<Rightarrow> astFile \<Rightarrow> string \<Rightarrow> string list \<times> string list" where
  "importSignature modPath f src =
     (let (all, internal) = importLoop modPath (a_imports f)
      in (sort (all @ map (\<lambda>t. embedMark @ t) (embedLines src)), sort internal))"

definition parseImports :: "parser \<Rightarrow> string \<Rightarrow> string \<Rightarrow> string list \<times> string list" where
  "parseImports parseImportsOnly src modPath =
     (case parseImportsOnly src of
        (Some f, False) \<Rightarrow> importSignature modPath f src
      | _ \<Rightarrow> ([], []))"

definition parseFileMetadata ::
  "parser \<Rightarrow> string \<Rightarrow> string \<Rightarrow> string \<Rightarrow> string list \<times> string list \<times> indexedSymbol list"
  where
  "parseFileMetadata parseFull src modPath rel =
     (case parseFull src of
        (None, _) \<Rightarrow> ([], [], [])
      | (Some f, _) \<Rightarrow>
          (let (all, internal) = importSignature modPath f src
           in (all, internal, collectSymbols (Some f) rel)))"

text \<open>\<open>modulePath\<close>: the first \<open>module\<close> line; \<open>None\<close> is an unreadable file.\<close>

fun modulePathLoop :: "string list \<Rightarrow> string" where
  "modulePathLoop [] = ''''"
| "modulePathLoop (l # ls) =
     (case cutPrefix (trimSpace l) ''module '' of
        Some rest \<Rightarrow> trimSpace rest
      | None \<Rightarrow> modulePathLoop ls)"

definition modulePath :: "string option \<Rightarrow> string" where
  "modulePath gomod =
     (case gomod of None \<Rightarrow> '''' | Some data \<Rightarrow> modulePathLoop (splitOn newlineChar data))"

section \<open>The index\<close>

record revIndex =
  ri_root :: string
  ri_modPath :: string
  ri_fileImports :: "(string, string list) gomap"
  ri_fileSymbols :: "(string, indexedSymbol list) gomap"
  ri_importers :: "(string, string list) gomap"
  ri_ready :: bool

definition newRevIndex :: revIndex where
  "newRevIndex = \<lparr>ri_root = '''', ri_modPath = '''', ri_fileImports = [], ri_fileSymbols = [],
     ri_importers = [], ri_ready = False\<rparr>"

text \<open>A missing key reads as the zero value: nil, the empty list or set.\<close>

definition getList :: "('k, 'v list) gomap \<Rightarrow> 'k \<Rightarrow> 'v list" where
  "getList m k = (case gget m k of None \<Rightarrow> [] | Some xs \<Rightarrow> xs)"

lemma getList_simps [simp]:
  "getList [] k = []" "getList (gput k v m) k' = (if k' = k then v else getList m k')"
  by (simp_all add: getList_def)

text \<open>The importer sets are lists without duplicates; \<open>set[dir] = true\<close> is an insertion.\<close>

definition addEdge :: "string \<Rightarrow> (string, string list) gomap \<Rightarrow> string \<Rightarrow> (string, string list) gomap"
  where
  "addEdge dir m imp = gput imp (List.insert dir (getList m imp)) m"

definition addEdges :: "string \<Rightarrow> string list \<Rightarrow> (string, string list) gomap \<Rightarrow> (string, string list) gomap"
  where
  "addEdges dir imps m = foldl (addEdge dir) m imps"

definition relInside :: "string \<Rightarrow> string \<Rightarrow> string option" where
  "relInside root path =
     (case filepathRel root path of
        None \<Rightarrow> None
      | Some rel \<Rightarrow> if hasPrefix rel ''..'' then None else Some rel)"

text \<open>\<open>UpdateFile\<close>; \<open>None\<close> as content is a file that cannot be read.\<close>

definition UpdateFile :: "parser \<Rightarrow> string \<Rightarrow> string option \<Rightarrow> revIndex \<Rightarrow> bool \<times> revIndex" where
  "UpdateFile parseFull path content ri =
     (if ri_root ri = '''' \<or> ri_modPath ri = '''' then (False, ri)
      else case relInside (ri_root ri) path of
          None \<Rightarrow> (False, ri)
        | Some rel \<Rightarrow>
            (case content of
               None \<Rightarrow> (True, ri\<lparr>ri_fileSymbols := gdel rel (ri_fileSymbols ri)\<rparr>)
             | Some src \<Rightarrow>
                 let (all, internal, symbols) = parseFileMetadata parseFull src (ri_modPath ri) rel;
                     changed = (getList (ri_fileImports ri) rel \<noteq> all)
                 in (changed,
                     ri\<lparr>ri_fileImports := gput rel all (ri_fileImports ri),
                        ri_fileSymbols := gput rel symbols (ri_fileSymbols ri),
                        ri_importers := addEdges (filepathDir rel) internal (ri_importers ri)\<rparr>)))"

definition SameImports :: "parser \<Rightarrow> string \<Rightarrow> string \<Rightarrow> revIndex \<Rightarrow> bool" where
  "SameImports parseImportsOnly path content ri =
     (if ri_root ri = '''' then False
      else case relInside (ri_root ri) path of
          None \<Rightarrow> False
        | Some rel \<Rightarrow>
            getList (ri_fileImports ri) rel =
              fst (parseImports parseImportsOnly content (ri_modPath ri)))"

section \<open>The reverse-import closure\<close>

text \<open>The inner loop of the search: the importers of one directory that are new.\<close>

fun visitLoop :: "string list \<Rightarrow> string list \<Rightarrow> string list \<Rightarrow> string list \<times> string list" where
  "visitLoop [] seen queue = (seen, queue)"
| "visitLoop (imp # imps) seen queue =
     (if imp \<notin> set seen then visitLoop imps (imp # seen) (queue @ [imp])
      else visitLoop imps seen queue)"

lemma visitLoop_new:
  "\<exists>new. visitLoop imps seen queue = (rev new @ seen, queue @ new) \<and>
     set new = set imps - set seen"
proof (induction imps arbitrary: seen queue)
  case Nil
  then show ?case by (intro exI [of _ "[]"]) simp
next
  case (Cons i imps)
  show ?case
  proof (cases "i \<in> set seen")
    case True
    then show ?thesis using Cons.IH [of seen queue] by auto
  next
    case False
    from Cons.IH [of "i # seen" "queue @ [i]"] obtain new
      where "visitLoop imps (i # seen) (queue @ [i]) = (rev new @ i # seen, (queue @ [i]) @ new)"
        and "set new = set imps - set (i # seen)"
      by blast
    with False show ?thesis by (intro exI [of _ "i # new"]) auto
  qed
qed

definition allImporters :: "(string, string list) gomap \<Rightarrow> string set" where
  "allImporters m = (\<Union>(k, v) \<in> set m. set v)"

lemma finite_allImporters [simp]: "finite (allImporters m)"
  by (auto simp: allImporters_def)

lemma getList_allImporters: "set (getList m k) \<subseteq> allImporters m"
proof (cases "gget m k")
  case (Some v)
  then have "(k, v) \<in> set m" by (rule map_of_SomeD)
  with Some show ?thesis by (auto simp: getList_def allImporters_def)
qed (simp add: getList_def)

text \<open>The outer loop: the queue is worked off from the front.\<close>

function closureLoop :: "(string, string list) gomap \<Rightarrow> string list \<Rightarrow> string list \<Rightarrow> string list" where
  "closureLoop m seen [] = seen"
| "closureLoop m seen (d # queue) =
     (let (seen', queue') = visitLoop (getList m d) seen queue in closureLoop m seen' queue')"
  by pat_completeness auto
termination
proof (relation "measures [\<lambda>(m, seen, queue). card (allImporters m - set seen),
    \<lambda>(m, seen, queue). length queue]")
  fix m :: "(string, string list) gomap" and seen d queue x seen' queue'
  assume x: "x = visitLoop (getList m d) seen queue" and "(seen', queue') = x"
  obtain new where new: "visitLoop (getList m d) seen queue = (rev new @ seen, queue @ new)"
    "set new = set (getList m d) - set seen"
    using visitLoop_new by blast
  with x \<open>(seen', queue') = x\<close> have s: "seen' = rev new @ seen" "queue' = queue @ new" by auto
  show "((m, seen', queue'), m, seen, d # queue)
    \<in> measures [\<lambda>(m, seen, queue). card (allImporters m - set seen), \<lambda>(m, seen, queue). length queue]"
  proof (cases "new = []")
    case True
    then show ?thesis by (simp add: s)
  next
    case False
    then obtain n where "n \<in> set new" by (cases new) auto
    then have "n \<in> allImporters m - set seen" using new(2) getList_allImporters [of m d] by auto
    then have "allImporters m - set seen' \<subset> allImporters m - set seen"
      using \<open>n \<in> set new\<close> by (auto simp: s)
    then have "card (allImporters m - set seen') < card (allImporters m - set seen)"
      by (intro psubset_card_mono) auto
    then show ?thesis by simp
  qed
qed simp

definition ClosureUnits :: "revIndex \<Rightarrow> string \<Rightarrow> nat \<Rightarrow> string list" where
  "ClosureUnits ri relDir granularity =
     sort (remdups (map (\<lambda>d. scopeUnit d granularity)
       (closureLoop (ri_importers ri) [relDir] [relDir])))"

text \<open>The edges of the graph that is searched: from a package directory to its importers.\<close>

definition importedBy :: "(string, string list) gomap \<Rightarrow> string \<Rightarrow> string \<Rightarrow> bool" where
  "importedBy m d imp \<longleftrightarrow> imp \<in> set (getList m d)"

definition reachable :: "(string, string list) gomap \<Rightarrow> string \<Rightarrow> string set" where
  "reachable m d = {x. (importedBy m)\<^sup>*\<^sup>* d x}"

lemma reachable_refl [simp]: "d \<in> reachable m d"
  by (simp add: reachable_def)

lemma reachable_step: "x \<in> reachable m d \<Longrightarrow> importedBy m x y \<Longrightarrow> y \<in> reachable m d"
  by (simp add: reachable_def)

lemma reachable_mono:
  assumes "\<And>x y. importedBy m x y \<Longrightarrow> importedBy m' x y"
  shows "reachable m d \<subseteq> reachable m' d"
  using rtranclp_mono [of "importedBy m" "importedBy m'"] assms
  by (auto simp: reachable_def le_fun_def)

text \<open>
  The invariant of the search: what was seen is reachable, and every edge from a seen
  directory that is not queued any more leads to a seen one.
\<close>

definition search_inv ::
  "(string, string list) gomap \<Rightarrow> string \<Rightarrow> string list \<Rightarrow> string list \<Rightarrow> bool" where
  "search_inv m start seen queue \<longleftrightarrow>
     start \<in> set seen \<and> set queue \<subseteq> set seen \<and> set seen \<subseteq> reachable m start \<and>
     (\<forall>x \<in> set seen - set queue. \<forall>y. importedBy m x y \<longrightarrow> y \<in> set seen)"

lemma search_inv_step:
  assumes "search_inv m start seen (d # queue)"
    and "visitLoop (getList m d) seen queue = (seen', queue')"
  shows "search_inv m start seen' queue'"
proof -
  obtain new where s: "seen' = rev new @ seen" "queue' = queue @ new"
    and new: "set new = set (getList m d) - set seen"
    using visitLoop_new [of "getList m d" seen queue] assms(2) by auto
  have "d \<in> reachable m start" using assms(1) by (auto simp: search_inv_def)
  then have "set new \<subseteq> reachable m start"
    using new reachable_step [of d m start] by (auto simp: importedBy_def)
  moreover have "y \<in> set seen'" if "x \<in> set seen' - set queue'" "importedBy m x y" for x y
  proof (cases "x = d")
    case True
    with that new show ?thesis by (auto simp: s importedBy_def)
  next
    case False
    with that assms(1) show ?thesis by (auto simp: s search_inv_def)
  qed
  ultimately show ?thesis
    using assms(1) by (auto simp: search_inv_def s)
qed

lemma closureLoop_reachable:
  "search_inv m start seen queue \<Longrightarrow> set (closureLoop m seen queue) = reachable m start"
proof (induction m seen queue rule: closureLoop.induct)
  case (1 m seen)
  have "x \<in> set seen" if "x \<in> reachable m start" for x
  proof -
    from that have "(importedBy m)\<^sup>*\<^sup>* start x" by (simp add: reachable_def)
    then show ?thesis
      by (induction rule: rtranclp_induct) (use "1.prems" in \<open>auto simp: search_inv_def\<close>)
  qed
  with "1.prems" show ?case by (auto simp: search_inv_def)
next
  case (2 m seen d queue)
  obtain seen' queue' where v: "visitLoop (getList m d) seen queue = (seen', queue')"
    by fastforce
  from "2.IH" [OF v [symmetric] refl search_inv_step [OF "2.prems" v]] v show ?case by simp
qed

lemma ClosureUnits_set:
  "set (ClosureUnits ri d n) = (\<lambda>x. scopeUnit x n) ` reachable (ri_importers ri) d"
proof -
  have "search_inv (ri_importers ri) d [d] [d]" by (simp add: search_inv_def)
  from closureLoop_reachable [OF this] show ?thesis by (simp add: ClosureUnits_def)
qed

section \<open>What an update does to the graph\<close>

lemma importedBy_addEdge:
  "importedBy (addEdge dir m imp) x y \<longleftrightarrow> importedBy m x y \<or> (x = imp \<and> y = dir)"
  by (auto simp: importedBy_def addEdge_def)

lemma importedBy_addEdges:
  "importedBy (addEdges dir imps m) x y \<longleftrightarrow> importedBy m x y \<or> (x \<in> set imps \<and> y = dir)"
  by (induction imps arbitrary: m) (auto simp: addEdges_def importedBy_addEdge)

lemma UpdateFile_frame [simp]:
  "ri_root (snd (UpdateFile pf path c ri)) = ri_root ri"
  "ri_modPath (snd (UpdateFile pf path c ri)) = ri_modPath ri"
  "ri_ready (snd (UpdateFile pf path c ri)) = ri_ready ri"
  by (auto simp: UpdateFile_def Let_def split: option.split prod.split)

lemma UpdateFile_edges:
  "importedBy (ri_importers ri) x y \<Longrightarrow>
     importedBy (ri_importers (snd (UpdateFile pf path c ri))) x y"
  by (auto simp: UpdateFile_def Let_def importedBy_addEdges split: option.split prod.split)

lemma importLoop_internal:
  "set (snd (importLoop modPath is)) = {d. \<exists>p. Some p \<in> set is \<and> internalDir modPath p = Some d}"
  by (induction modPath "is" rule: importLoop.induct)
    (auto split: prod.splits option.splits)

lemma importSignature_internal:
  "set (snd (importSignature modPath f src)) =
     {d. \<exists>p. Some p \<in> set (a_imports f) \<and> internalDir modPath p = Some d}"
  using importLoop_internal [of modPath "a_imports f"]
  by (cases "importLoop modPath (a_imports f)") (simp add: importSignature_def)

lemma UpdateFile_new_edge:
  assumes "ri_root ri \<noteq> ''''" and "ri_modPath ri \<noteq> ''''" and "relInside (ri_root ri) path = Some rel"
    and "parseFull src = (Some f, err)" and "Some p \<in> set (a_imports f)"
    and "internalDir (ri_modPath ri) p = Some d"
  shows "importedBy (ri_importers (snd (UpdateFile parseFull path (Some src) ri))) d (filepathDir rel)"
  using assms importSignature_internal [of "ri_modPath ri" f src]
  by (auto simp: UpdateFile_def parseFileMetadata_def Let_def importedBy_addEdges
      split: prod.split)

text \<open>A run of updates: the build of the index and the saves after it, in any order.\<close>

fun updateAll :: "parser \<Rightarrow> (string \<times> string option) list \<Rightarrow> revIndex \<Rightarrow> revIndex" where
  "updateAll parseFull [] ri = ri"
| "updateAll parseFull ((path, content) # us) ri =
     updateAll parseFull us (snd (UpdateFile parseFull path content ri))"

lemma updateAll_edges:
  "importedBy (ri_importers ri) x y \<Longrightarrow> importedBy (ri_importers (updateAll pf us ri)) x y"
  by (induction pf us ri rule: updateAll.induct) (auto intro: UpdateFile_edges)

lemma updateAll_frame [simp]:
  "ri_root (updateAll pf us ri) = ri_root ri" "ri_modPath (updateAll pf us ri) = ri_modPath ri"
  by (induction pf us ri rule: updateAll.induct) auto

lemma updateAll_new_edge:
  assumes "ri_root ri \<noteq> ''''" and "ri_modPath ri \<noteq> ''''" and "(path, Some src) \<in> set us"
    and "relInside (ri_root ri) path = Some rel" and "pf src = (Some f, err)"
    and "Some p \<in> set (a_imports f)" and "internalDir (ri_modPath ri) p = Some d"
  shows "importedBy (ri_importers (updateAll pf us ri)) d (filepathDir rel)"
  using assms
proof (induction pf us ri rule: updateAll.induct)
  case (2 pf path' content us ri)
  show ?case
  proof (cases "(path', content) = (path, Some src)")
    case True
    then show ?thesis
      using updateAll_edges [OF UpdateFile_new_edge [of ri path rel pf src f err p d]] "2.prems"
      by simp
  next
    case False
    then show ?thesis using "2.IH" "2.prems" by auto
  qed
qed simp

section \<open>The walk of Build\<close>

text \<open>
  \<open>filepath.WalkDir\<close> over the entries of the root, in their order. A directory is skipped
  for its name or because it is the root of a module of its own.
\<close>

datatype dirEntry = EFile string | EDir string "dirEntry list"

definition skipDir :: "string \<Rightarrow> dirEntry list \<Rightarrow> bool" where
  "skipDir name entries \<longleftrightarrow>
     hasPrefix name ''.'' \<or> hasPrefix name ''_'' \<or> name = ''vendor'' \<or> name = ''node_modules'' \<or>
     EFile ''go.mod'' \<in> set entries"

fun walkGo :: "string \<Rightarrow> dirEntry list \<Rightarrow> string list" where
  "walkGo path [] = []"
| "walkGo path (EFile name # es) =
     (if hasSuffix (path @ ''/'' @ name) ''.go'' then [path @ ''/'' @ name] else []) @ walkGo path es"
| "walkGo path (EDir name entries # es) =
     (if skipDir name entries then [] else walkGo (path @ ''/'' @ name) entries) @ walkGo path es"

text \<open>
  \<open>Build\<close>: the module path and the root are set, every file found is indexed (by several
  goroutines, so in any order: \<open>schedule\<close> permutes the files), then the index is ready.
  \<open>readFile\<close> is \<open>os.ReadFile\<close>.
\<close>

definition Build ::
  "parser \<Rightarrow> (string \<Rightarrow> string option) \<Rightarrow> (string list \<Rightarrow> string list) \<Rightarrow> string \<Rightarrow> dirEntry list
   \<Rightarrow> revIndex \<Rightarrow> revIndex" where
  "Build parseFull readFile schedule root entries ri =
     (let modPath = modulePath (readFile (filepathJoin root ''go.mod''));
          ri1 = ri\<lparr>ri_root := root, ri_modPath := modPath\<rparr>;
          files = schedule (walkGo root entries)
      in (updateAll parseFull (map (\<lambda>f. (f, readFile f)) files) ri1)\<lparr>ri_ready := True\<rparr>)"

text \<open>The specification of the walk: the files that no skipped directory hides.\<close>

fun visibleFile :: "dirEntry list \<Rightarrow> string list \<Rightarrow> bool" where
  "visibleFile es [] = False"
| "visibleFile es [f] = (EFile f \<in> set es)"
| "visibleFile es (d # p # ps) =
     (\<exists>entries. EDir d entries \<in> set es \<and> \<not> skipDir d entries \<and> visibleFile entries (p # ps))"

lemma visibleFile_Cons:
  "visibleFile (e # es) ps \<longleftrightarrow>
     (case e of EFile n \<Rightarrow> ps = [n]
      | EDir n entries \<Rightarrow> \<not> skipDir n entries \<and> (\<exists>qs. ps = n # qs \<and> visibleFile entries qs)) \<or>
     visibleFile es ps"
  by (cases "(es, ps)" rule: visibleFile.cases) (auto split: dirEntry.split)

lemma walkGo_visible:
  "set (walkGo path es) =
     {path @ ''/'' @ joinWith ''/'' ps | ps. visibleFile es ps \<and>
        hasSuffix (path @ ''/'' @ joinWith ''/'' ps) ''.go''}"
proof (induction path es rule: walkGo.induct)
  case (1 path)
  have "\<not> visibleFile [] ps" for ps by (cases "([] :: dirEntry list, ps)" rule: visibleFile.cases) auto
  then show ?case by simp
next
  case (2 path name es)
  have split: "{g ps |ps. (ps = [x] \<or> V ps) \<and> S ps} =
      (if S [x] then {g [x]} else {}) \<union> {g ps |ps. V ps \<and> S ps}"
    for g :: "string list \<Rightarrow> string" and x V S by auto
  show ?case
    unfolding visibleFile_Cons [of "EFile name"] dirEntry.case
    by (subst split) (simp add: "2.IH")
next
  case (3 path name entries es)
  have split: "{g ps |ps. (B \<and> (\<exists>qs. ps = x # qs \<and> U qs) \<or> V ps) \<and> S ps} =
      (if B then {g (x # qs) |qs. U qs \<and> S (x # qs)} else {}) \<union> {g ps |ps. V ps \<and> S ps}"
    for g :: "string list \<Rightarrow> string" and x B U V S by auto
  have cons: "path @ ''/'' @ joinWith ''/'' (name # qs) = (path @ ''/'' @ name) @ ''/'' @ joinWith ''/'' qs"
    if "visibleFile entries qs" for qs
  proof -
    have "qs \<noteq> []" using that by auto
    then show ?thesis by (simp add: joinWith_Cons)
  qed
  have below: "{path @ ''/'' @ joinWith ''/'' (name # qs) |qs. visibleFile entries qs \<and>
        hasSuffix (path @ ''/'' @ joinWith ''/'' (name # qs)) ''.go''} =
      {(path @ ''/'' @ name) @ ''/'' @ joinWith ''/'' qs |qs. visibleFile entries qs \<and>
        hasSuffix ((path @ ''/'' @ name) @ ''/'' @ joinWith ''/'' qs) ''.go''}"
  proof (intro Collect_cong ex_cong1)
    fix x qs
    show "(x = path @ ''/'' @ joinWith ''/'' (name # qs) \<and> visibleFile entries qs \<and>
        hasSuffix (path @ ''/'' @ joinWith ''/'' (name # qs)) ''.go'') =
      (x = (path @ ''/'' @ name) @ ''/'' @ joinWith ''/'' qs \<and> visibleFile entries qs \<and>
        hasSuffix ((path @ ''/'' @ name) @ ''/'' @ joinWith ''/'' qs) ''.go'')"
    proof (cases "visibleFile entries qs")
      case True
      show ?thesis by (simp only: cons [OF True])
    qed simp
  qed
  show ?case
    unfolding visibleFile_Cons [of "EDir name entries"] dirEntry.case walkGo.simps set_append
    by (subst split) (cases "skipDir name entries"; simp only: "3.IH" below if_True if_False
        not_True_eq_False not_False_eq_True list.set)
qed

section \<open>Properties\<close>

text \<open>C26: the closure. \<open>ClosureUnits\<close> returns, in increasing order and without
  repetition, the scope units of exactly the directories that reach the given one over import
  edges, the directory itself included; the search ends for every index, cyclic or not.\<close>

theorem ClosureUnits_correct:
  "ClosureUnits ri d n =
     sorted_list_of_set ((\<lambda>x. scopeUnit x n) ` {x. (importedBy (ri_importers ri))\<^sup>*\<^sup>* d x})"
proof -
  have "ClosureUnits ri d n = sorted_list_of_set (set (ClosureUnits ri d n))"
    unfolding ClosureUnits_def Let_def set_sort set_remdups sorted_list_of_set_sort_remdups
    by (rule refl)
  then show ?thesis by (simp only: ClosureUnits_set reachable_def)
qed

text \<open>the index only grows. No update of any file, deletion included, removes a unit
  from any closure, so a stale edge can widen an expansion but not truncate it.\<close>

theorem closure_never_shrinks:
  "set (ClosureUnits ri d n) \<subseteq> set (ClosureUnits (snd (UpdateFile parseFull path content ri)) d n)"
  unfolding ClosureUnits_set by (intro image_mono reachable_mono) (rule UpdateFile_edges)

text \<open>no importer is missed. Once a file of the module has been indexed with an import
  of a package of the module, the unit of the file's directory is in the closure of that
  package and of every package the latter is in the closure of, whatever is indexed before or
  after it.\<close>

theorem closure_contains_importer:
  assumes "ri_root ri \<noteq> ''''" and "ri_modPath ri \<noteq> ''''"
    and "(path, Some src) \<in> set updates" and "relInside (ri_root ri) path = Some rel"
    and "parseFull src = (Some f, err)" and "Some p \<in> set (a_imports f)"
    and "internalDir (ri_modPath ri) p = Some d"
    and "(importedBy (ri_importers (updateAll parseFull updates ri)))\<^sup>*\<^sup>* target d"
  shows "scopeUnit (filepathDir rel) n \<in>
    set (ClosureUnits (updateAll parseFull updates ri) target n)"
proof -
  have "d \<in> reachable (ri_importers (updateAll parseFull updates ri)) target"
    using assms(8) by (simp add: reachable_def)
  then have "filepathDir rel \<in> reachable (ri_importers (updateAll parseFull updates ri)) target"
    by (rule reachable_step)
      (rule updateAll_new_edge [of ri path src updates rel parseFull f err p d], fact+)
  then show ?thesis unfolding ClosureUnits_set by (rule imageI)
qed

text \<open>A small workspace: package \<open>a\<close> is imported by \<open>b\<close>, which \<open>c\<close> imports.\<close>

definition tinyParser :: parser where
  "tinyParser src =
     (Some \<lparr>a_imports = [if src = ''B'' then Some ''m/a'' else Some ''m/b''], a_decls = []\<rparr>, False)"

definition tinyIndex :: revIndex where
  "tinyIndex = newRevIndex\<lparr>ri_root := ''/w'', ri_modPath := ''m''\<rparr>"

theorem closure_contains_importer_witness:
  "scopeUnit (filepathDir ''c/c.go'') 3 \<in> set (ClosureUnits (updateAll tinyParser
     [(''/w/c/c.go'', Some ''C''), (''/w/b/b.go'', Some ''B'')] tinyIndex) ''a'' 3)"
proof (rule closure_contains_importer)
  let ?ri = "updateAll tinyParser
     [(''/w/c/c.go'', Some ''C''), (''/w/b/b.go'', Some ''B'')] tinyIndex"
  have rel: "relInside ''/w'' ''/w/b/b.go'' = Some ''b/b.go''" by code_simp
  have dir: "filepathDir ''b/b.go'' = ''b''" by code_simp
  show "ri_root tinyIndex \<noteq> ''''" "ri_modPath tinyIndex \<noteq> ''''"
    by (simp_all add: tinyIndex_def)
  show "relInside (ri_root tinyIndex) ''/w/c/c.go'' = Some ''c/c.go''" by code_simp
  show "tinyParser ''C'' = (Some \<lparr>a_imports = [Some ''m/b''], a_decls = []\<rparr>, False)"
    by (simp add: tinyParser_def)
  show "internalDir (ri_modPath tinyIndex) ''m/b'' = Some ''b''" by code_simp
  have "importedBy (ri_importers ?ri) ''a'' (filepathDir ''b/b.go'')"
    by (rule updateAll_new_edge [of _ "''/w/b/b.go''" "''B''" _ "''b/b.go''" tinyParser
        "\<lparr>a_imports = [Some ''m/a''], a_decls = []\<rparr>" False "''m/a''" "''a''"])
      (simp_all add: tinyIndex_def tinyParser_def rel internalDir_def cutPrefix_def)
  then have "importedBy (ri_importers ?ri) ''a'' ''b''" by (simp add: dir)
  then show "(importedBy (ri_importers ?ri))\<^sup>*\<^sup>* ''a'' ''b''" by blast
qed simp_all

text \<open>an unmodified overlay is clean. After a file has been indexed from its content,
  \<open>SameImports\<close> accepts that content, provided the two parser modes report the same
  imports for it, without error in the imports-only mode.\<close>

theorem SameImports_after_UpdateFile:
  assumes "ri_root ri \<noteq> ''''" and "ri_modPath ri \<noteq> ''''"
    and "relInside (ri_root ri) path = Some rel"
    and "parseFull src = (Some f, err)" and "parseImportsOnly src = (Some g, False)"
    and "a_imports g = a_imports f"
  shows "SameImports parseImportsOnly path src (snd (UpdateFile parseFull path (Some src) ri))"
  using assms
  by (simp add: SameImports_def UpdateFile_def parseFileMetadata_def parseImports_def
      importSignature_def Let_def split: prod.split)

theorem SameImports_after_UpdateFile_witness:
  "SameImports tinyParser ''/w/b/b.go'' ''B''
     (snd (UpdateFile tinyParser ''/w/b/b.go'' (Some ''B'') tinyIndex))"
proof (rule SameImports_after_UpdateFile)
  show "ri_root tinyIndex \<noteq> ''''" "ri_modPath tinyIndex \<noteq> ''''"
    by (simp_all add: tinyIndex_def)
  show "relInside (ri_root tinyIndex) ''/w/b/b.go'' = Some ''b/b.go''" by code_simp
  show "tinyParser ''B'' = (Some \<lparr>a_imports = [Some ''m/a''], a_decls = []\<rparr>, False)"
    "tinyParser ''B'' = (Some \<lparr>a_imports = [Some ''m/a''], a_decls = []\<rparr>, False)"
    by (simp_all add: tinyParser_def)
qed simp

text \<open>the walk of \<open>Build\<close> finds exactly the Go files that no skipped directory hides:
  none below a directory starting with a dot or an underscore, below \<open>vendor\<close> or
  \<open>node_modules\<close>, or inside a nested module, and all others.\<close>

theorem walkGo_correct:
  "set (walkGo root es) =
     {root @ ''/'' @ joinWith ''/'' ps | ps. visibleFile es ps \<and>
        hasSuffix (root @ ''/'' @ joinWith ''/'' ps) ''.go''}"
  by (rule walkGo_visible)

text \<open>the module line is taken as it stands. A comment after the module path, which
  \<open>go.mod\<close> allows, becomes part of it, so that no import of the module is recognised as
  internal and every closure is the package alone.\<close>

theorem modulePath_keeps_comment:
  "modulePath (Some ''module ex.com/m // main'') = ''ex.com/m // main'' \<and>
   internalDir (modulePath (Some ''module ex.com/m // main'')) ''ex.com/m/pkg'' = None"
proof -
  have "modulePath (Some ''module ex.com/m // main'') = ''ex.com/m // main''"
    by (simp add: modulePath_def newlineChar_def trimSpace_def decodeAll.simps byteOf_def
        isSpace_def cutPrefix_def Let_def)
  then show ?thesis by (simp add: internalDir_def)
qed

end
