(* ===== verification/Uri.thy ===== *)
theory Uri
  imports Utf8
begin

text \<open>
  File URIs: \<open>uriToPath\<close> (\<open>proxy.go\<close>) and \<open>pathToURI\<close> (\<open>symbols.go\<close>), with what they use
  of \<open>net/url\<close>: the path encoding of \<open>URL.String\<close> and, for the \<open>file\<close> scheme,
  \<open>url.Parse\<close>. Strings are byte strings. Of a non-empty authority (\<open>file://host/...\<close>)
  only its validity matters, and that is a parameter.
\<close>

section \<open>Percent encoding\<close>

definition hexDigit :: "nat \<Rightarrow> char" where
  "hexDigit n = ''0123456789ABCDEF'' ! n"

definition unhex :: "char \<Rightarrow> nat option" where
  "unhex c =
     (let b = byteOf c
      in if 48 \<le> b \<and> b \<le> 57 then Some (b - 48)
         else if 97 \<le> b \<and> b \<le> 102 then Some (b - 97 + 10)
         else if 65 \<le> b \<and> b \<le> 70 then Some (b - 65 + 10)
         else None)"

text \<open>\<open>shouldEscape\<close> in the mode for paths.\<close>

definition shouldEscape :: "char \<Rightarrow> bool" where
  "shouldEscape c \<longleftrightarrow>
     (let b = byteOf c
      in \<not> (97 \<le> b \<and> b \<le> 122 \<or> 65 \<le> b \<and> b \<le> 90 \<or> 48 \<le> b \<and> b \<le> 57 \<or>
            c \<in> set ''-_.~$&+,/:;=@''))"

fun escapePath :: "string \<Rightarrow> string" where
  "escapePath [] = []"
| "escapePath (c # s) =
     (if shouldEscape c
      then CHR ''%'' # hexDigit (byteOf c div 16) # hexDigit (byteOf c mod 16) # escapePath s
      else c # escapePath s)"

fun unescapePath :: "string \<Rightarrow> string option" where
  "unescapePath [] = Some []"
| "unescapePath (c # s) =
     (if c = CHR ''%'' then
        (case s of
           a # b # r \<Rightarrow>
             (case (unhex a, unhex b) of
                (Some x, Some y) \<Rightarrow> map_option (\<lambda>t. char_of (16 * x + y) # t) (unescapePath r)
              | _ \<Rightarrow> None)
         | _ \<Rightarrow> None)
      else map_option (Cons c) (unescapePath s))"

section \<open>The two conversions\<close>

definition pathToURI :: "string \<Rightarrow> string" where
  "pathToURI path =
     ''file:'' @ (if path \<noteq> '''' then ''//'' else '''') @ (if path = ''*'' then ''*'' else escapePath path)"

definition asciiLower :: "char \<Rightarrow> char" where
  "asciiLower c = (if 65 \<le> byteOf c \<and> byteOf c \<le> 90 then char_of (byteOf c + 32) else c)"

definition hasCTLByte :: "string \<Rightarrow> bool" where
  "hasCTLByte s \<longleftrightarrow> (\<exists>c \<in> set s. byteOf c < 32 \<or> byteOf c = 127)"

text \<open>
  \<open>uriToPath\<close>. \<open>url.Parse\<close> cuts the fragment and the query, takes the scheme up to the
  first colon (and lowers it), treats what does not start with a slash as opaque, and
  unescapes the path after the authority. The empty string is the failure value.
\<close>

definition uriToPath :: "(string \<Rightarrow> bool) \<Rightarrow> string \<Rightarrow> string" where
  "uriToPath hostOk uri =
     (let u = takeWhile (\<lambda>c. c \<noteq> CHR ''#'') uri;
          frag = drop (length u + 1) uri
      in if hasCTLByte u \<or> map asciiLower (take 5 u) \<noteq> ''file:'' then ''''
         else
           let rest = takeWhile (\<lambda>c. c \<noteq> CHR ''?'') (drop 5 u);
               (auth, p) = (if hasPrefix rest ''//''
                            then (takeWhile (\<lambda>c. c \<noteq> CHR ''/'') (drop 2 rest),
                                  dropWhile (\<lambda>c. c \<noteq> CHR ''/'') (drop 2 rest))
                            else ('''', rest))
           in if \<not> hasPrefix rest ''/'' \<or> (auth \<noteq> '''' \<and> \<not> hostOk auth) \<or> unescapePath frag = None
              then ''''
              else (case unescapePath p of None \<Rightarrow> '''' | Some path \<Rightarrow> path))"

section \<open>Lemmas\<close>

lemma unhex_hexDigit: "n < 16 \<Longrightarrow> unhex (hexDigit n) = Some n"
  by (auto simp: less_Suc_eq numeral_eq_Suc hexDigit_def unhex_def byteOf_def)

lemma byteOf_less: "byteOf c < 256"
  by (simp add: byteOf_def)

lemma char_of_byteOf [simp]: "char_of (byteOf c) = c"
  by (simp add: byteOf_def)

lemma unescape_escape [simp]: "unescapePath (escapePath s) = Some s"
proof (induction s)
  case (Cons c s)
  have "byteOf c div 16 < 16" and "byteOf c mod 16 < 16"
    using byteOf_less [of c] by simp_all
  moreover have "16 * (byteOf c div 16) + byteOf c mod 16 = byteOf c" by simp
  moreover have "\<not> shouldEscape c \<Longrightarrow> c \<noteq> CHR ''%''"
    by (auto simp: shouldEscape_def byteOf_def)
  ultimately show ?case using Cons.IH by (simp add: unhex_hexDigit)
qed simp

text \<open>What the encoding never emits.\<close>

lemma hexDigit_byte: "n < 16 \<Longrightarrow> byteOf (hexDigit n) \<in> {48..57} \<union> {65..70}"
  by (auto simp: less_Suc_eq numeral_eq_Suc hexDigit_def byteOf_def)

definition cleanByte :: "char \<Rightarrow> bool" where
  "cleanByte c \<longleftrightarrow> c \<noteq> CHR ''#'' \<and> c \<noteq> CHR ''?'' \<and> 32 \<le> byteOf c \<and> byteOf c \<noteq> 127"

lemma clean_unescaped: "\<not> shouldEscape c \<Longrightarrow> cleanByte c"
  by (auto simp: shouldEscape_def cleanByte_def byteOf_def Let_def)

lemma clean_hexDigit: "n < 16 \<Longrightarrow> cleanByte (hexDigit n)"
  using hexDigit_byte [of n] by (auto simp: cleanByte_def byteOf_def)

lemma escape_clean: "c \<in> set (escapePath s) \<Longrightarrow> cleanByte c"
proof (induction s)
  case (Cons a s)
  have "byteOf a div 16 < 16" and "byteOf a mod 16 < 16"
    using byteOf_less [of a] by simp_all
  moreover have "cleanByte CHR ''%''" by (simp add: cleanByte_def byteOf_def)
  ultimately show ?case
    using Cons clean_hexDigit clean_unescaped by (auto split: if_splits)
qed simp

lemma takeWhile_all: "(\<And>c. c \<in> set s \<Longrightarrow> P c) \<Longrightarrow> takeWhile P s = s"
  by (simp add: takeWhile_eq_all_conv)

lemma escape_Cons_slash: "escapePath (CHR ''/'' # p) = CHR ''/'' # escapePath p"
  by (simp add: shouldEscape_def byteOf_def)

text \<open>The conversion of an URI without fragment, query or authority.\<close>

lemma uriToPath_plain:
  assumes "\<And>c. c \<in> set u \<Longrightarrow> cleanByte c" and "take 5 u = ''file:''"
    and "drop 5 u = ''///'' @ e" and "unescapePath e = Some p"
  shows "uriToPath hostOk u = CHR ''/'' # p"
proof -
  have t: "takeWhile (\<lambda>c. c \<noteq> CHR ''#'') u = u"
    by (rule takeWhile_all) (use assms(1) in \<open>simp add: cleanByte_def\<close>)
  have "\<And>c. c \<in> set (drop 5 u) \<Longrightarrow> cleanByte c" by (rule assms(1)) (rule in_set_dropD)
  then have r: "takeWhile (\<lambda>c. c \<noteq> CHR ''?'') (drop 5 u) = drop 5 u"
    by (intro takeWhile_all) (simp add: cleanByte_def)
  then have e: "takeWhile (\<lambda>c. c \<noteq> CHR ''?'') e = e" by (simp add: assms(3))
  have ctl: "\<not> hasCTLByte u"
    unfolding hasCTLByte_def using assms(1) by (auto simp: cleanByte_def not_less [symmetric])
  have low: "map asciiLower ''file:'' = ''file:''"
    by (simp add: asciiLower_def byteOf_def)
  show ?thesis
    unfolding uriToPath_def Let_def t assms(2,3) using ctl low assms(4) by (simp add: e)
qed

lemma uriToPath_file:
  "uriToPath hostOk (''file:///'' @ escapePath p) = CHR ''/'' # p"
proof (rule uriToPath_plain [where e = "escapePath p"])
  fix c
  assume "c \<in> set (''file:///'' @ escapePath p)"
  then consider "c \<in> set ''file:///''" | "c \<in> set (escapePath p)" by auto
  then show "cleanByte c"
  proof cases
    case 1
    then show ?thesis by (auto simp: cleanByte_def byteOf_def)
  qed (rule escape_clean)
qed simp_all

section \<open>Properties\<close>

text \<open>C38: a location leads back to its file. The URI that \<open>pathToURI\<close> gives for an
  absolute path is read back as that path by \<open>uriToPath\<close>, whatever bytes the path
  holds.\<close>

theorem uri_roundtrip:
  assumes "hasPrefix path ''/''"
  shows "uriToPath hostOk (pathToURI path) = path"
proof -
  obtain p where "path = CHR ''/'' # p" using assms by (cases path) auto
  then show ?thesis
    using uriToPath_file [of hostOk p] by (simp add: pathToURI_def escape_Cons_slash del: escapePath.simps)
qed

theorem uri_roundtrip_witness:
  "uriToPath (\<lambda>h. False) (pathToURI ''/w/a b%#?.go'') = ''/w/a b%#?.go''"
  by (rule uri_roundtrip) simp

end
