(* ===== verification/Documents.thy ===== *)
theory Documents
  imports Utf8
begin

text \<open>
  \<open>documents.go\<close>: the overlay of open documents, and the incremental edits the editor
  sends, whose positions count lines and UTF-16 code units while the text is a byte string
  whose runes \<open>Utf8\<close> decodes.
\<close>

section \<open>Positions\<close>

definition utf16CodeUnits :: "nat \<Rightarrow> nat" where
  "utf16CodeUnits r = (if r \<le> 65535 then 1 else 2)"

text \<open>The first loop of \<open>byteOffsetForUTF16Position\<close>: the start of the line.\<close>

fun lineLoop :: "nat \<Rightarrow> (nat \<times> nat) list \<Rightarrow> nat \<Rightarrow> nat \<Rightarrow> nat \<times> nat" where
  "lineLoop line [] lineStart currentLine = (lineStart, currentLine)"
| "lineLoop line ((i, r) # rs) lineStart currentLine =
     (if currentLine = line then (lineStart, currentLine)
      else if r = 10 then lineLoop line rs (i + 1) (currentLine + 1)
      else lineLoop line rs lineStart currentLine)"

text \<open>The second loop: it finds the column, runs past it, or stops at the end of the line.\<close>

datatype colResult = Found nat | Past | LineEnd nat

fun colLoop :: "nat \<Rightarrow> (nat \<times> nat) list \<Rightarrow> nat \<Rightarrow> colResult" where
  "colLoop character [] col = LineEnd col"
| "colLoop character ((i, r) # rs) col =
     (if r = 10 then LineEnd col
      else if col = character then Found i
      else if col + utf16CodeUnits r > character then Past
      else colLoop character rs (col + utf16CodeUnits r))"

text \<open>The third loop: the offset of the next newline, if any.\<close>

fun newlineLoop :: "(nat \<times> nat) list \<Rightarrow> nat option" where
  "newlineLoop [] = None"
| "newlineLoop ((i, r) # rs) = (if r = 10 then Some i else newlineLoop rs)"

definition byteOffsetForUTF16Position :: "string \<Rightarrow> int \<Rightarrow> int \<Rightarrow> nat option" where
  "byteOffsetForUTF16Position text line character =
     (if line < 0 \<or> character < 0 then None
      else
        let (lineStart, currentLine) = lineLoop (nat line) (rangeString text) 0 0
        in if int currentLine \<noteq> line then None
           else
             let rest = rangeString (drop lineStart text)
             in case colLoop (nat character) rest 0 of
                  Found i \<Rightarrow> Some (lineStart + i)
                | Past \<Rightarrow> None
                | LineEnd col \<Rightarrow>
                    if int col = character then
                      (case newlineLoop rest of
                         Some i \<Rightarrow> Some (lineStart + i)
                       | None \<Rightarrow> Some (length text))
                    else None)"

text \<open>
  The specification: the position of the cursor after reading runes is a line number and a
  column in UTF-16 code units; a newline starts the next line.
\<close>

definition advancePos :: "nat \<times> nat \<Rightarrow> nat \<times> nat \<Rightarrow> nat \<times> nat" where
  "advancePos p rw =
     (if fst rw = 10 then (Suc (fst p), 0) else (fst p, snd p + utf16CodeUnits (fst rw)))"

definition posAfter :: "(nat \<times> nat) list \<Rightarrow> nat \<times> nat" where
  "posAfter rs = foldl advancePos (0, 0) rs"

definition newlines :: "(nat \<times> nat) list \<Rightarrow> nat" where
  "newlines rs = length (filter (\<lambda>rw. fst rw = 10) rs)"

definition units16 :: "(nat \<times> nat) list \<Rightarrow> nat" where
  "units16 rs = sum_list (map (\<lambda>rw. utf16CodeUnits (fst rw)) rs)"

text \<open>A sequence of whole lines: empty, or ending in a newline.\<close>

definition wholeLines :: "(nat \<times> nat) list \<Rightarrow> bool" where
  "wholeLines rs \<longleftrightarrow> rs = [] \<or> fst (last rs) = 10"

lemma newlines_simps [simp]:
  "newlines [] = 0" "newlines (r # rs) = (if fst r = 10 then Suc (newlines rs) else newlines rs)"
  "newlines (rs @ ss) = newlines rs + newlines ss"
  by (simp_all add: newlines_def)

lemma units16_simps [simp]:
  "units16 [] = 0" "units16 (r # rs) = utf16CodeUnits (fst r) + units16 rs"
  "units16 (rs @ ss) = units16 rs + units16 ss"
  by (simp_all add: units16_def)

lemma utf16CodeUnits_pos: "0 < utf16CodeUnits r"
  by (simp add: utf16CodeUnits_def)

lemma posAfter_simps [simp]:
  "posAfter [] = (0, 0)" "posAfter (rs @ [r]) = advancePos (posAfter rs) r"
  by (simp_all add: posAfter_def)

lemma posAfter_wholeLines: "wholeLines P \<Longrightarrow> posAfter P = (newlines P, 0)"
proof -
  have "fst (posAfter P) = newlines P" for P
    by (induction P rule: rev_induct) (auto simp: advancePos_def)
  moreover assume "wholeLines P"
  then have "snd (posAfter P) = 0"
    by (cases P rule: rev_cases) (auto simp: wholeLines_def advancePos_def)
  ultimately show ?thesis by (simp add: prod_eq_iff)
qed

lemma posAfter_line:
  assumes "wholeLines P" and "newlines R = 0"
  shows "posAfter (P @ R) = (newlines P, units16 R)"
  using assms(2)
proof (induction R rule: rev_induct)
  case Nil
  then show ?case using posAfter_wholeLines [OF assms(1)] by simp
next
  case (snoc r R)
  then have "posAfter ((P @ R) @ [r]) = (newlines P, units16 (R @ [r]))"
    by (subst posAfter_simps(2)) (auto simp: advancePos_def split: if_splits)
  then show ?case by simp
qed

lemma split_lines: "\<exists>P R. rs = P @ R \<and> wholeLines P \<and> newlines R = 0"
proof (induction rs rule: rev_induct)
  case Nil
  show ?case by (intro exI [of _ "[]"]) (simp add: wholeLines_def)
next
  case (snoc r rs)
  then obtain P R where "rs = P @ R" "wholeLines P" "newlines R = 0" by blast
  show ?case
  proof (cases "fst r = 10")
    case True
    then show ?thesis
      by (rule_tac x = "rs @ [r]" in exI, rule_tac x = "[]" in exI) (simp add: wholeLines_def)
  next
    case False
    with \<open>rs = P @ R\<close> have "rs @ [r] = P @ (R @ [r])" by simp
    moreover have "newlines (R @ [r]) = 0" using False \<open>newlines R = 0\<close> by simp
    ultimately show ?thesis using \<open>wholeLines P\<close> by blast
  qed
qed

lemma wholeLines_tl: "wholeLines (r # P) \<Longrightarrow> P \<noteq> [] \<Longrightarrow> wholeLines P"
  by (simp add: wholeLines_def)

lemma lineLoop_found:
  assumes "wholeLines P" and "\<And>w. (10, w) \<in> set P \<Longrightarrow> w = 1" and "L = cl + newlines P"
  shows "lineLoop L (offsets i (P @ Q)) ls cl = (if P = [] then ls else i + widths P, L)"
  using assms
proof (induction P arbitrary: i ls cl)
  case Nil
  then show ?case by (cases Q) auto
next
  case (Cons rw P)
  obtain r w where rw: "rw = (r, w)" by (cases rw)
  have "newlines (rw # P) \<noteq> 0"
    using Cons.prems(1) by (cases P rule: rev_cases) (auto simp: wholeLines_def)
  then have "cl \<noteq> L" using Cons.prems(3) by simp
  have nl: "w' = 1" if "(10, w') \<in> set P" for w'
    by (rule Cons.prems(2)) (simp add: that)
  have wl: "wholeLines P" using Cons.prems(1) by (auto simp: wholeLines_def split: if_splits)
  show ?case
  proof (cases "r = 10")
    case True
    then have "w = 1" by (intro Cons.prems(2)) (simp add: rw)
    have "L = cl + 1 + newlines P" using Cons.prems(3) True by (simp add: rw)
    from Cons.IH [OF wl nl this, of "i + w" "i + 1"] \<open>cl \<noteq> L\<close> True \<open>w = 1\<close>
    show ?thesis by (simp add: rw)
  next
    case False
    then have "P \<noteq> []" using Cons.prems(1) by (auto simp: rw wholeLines_def)
    have "L = cl + newlines P" using Cons.prems(3) False by (simp add: rw)
    from Cons.IH [OF wl nl this, of "i + w" ls] \<open>cl \<noteq> L\<close> False \<open>P \<noteq> []\<close>
    show ?thesis by (simp add: rw)
  qed
qed

lemma lineLoop_missing:
  "cl + newlines rs < L \<Longrightarrow> snd (lineLoop L (offsets i rs) ls cl) = cl + newlines rs"
proof (induction rs arbitrary: i ls cl)
  case (Cons rw rs)
  obtain r w where rw: "rw = (r, w)" by (cases rw)
  show ?case
    using Cons.prems Cons.IH [of cl "i + w" ls] Cons.IH [of "cl + 1" "i + w" "i + 1"]
    by (cases "r = 10") (simp_all add: rw)
qed simp

lemma split_at_line:
  "L \<le> newlines rs \<Longrightarrow> \<exists>P Q. rs = P @ Q \<and> wholeLines P \<and> newlines P = L"
proof (induction rs rule: rev_induct)
  case Nil
  then show ?case by (intro exI [of _ "[]"]) (simp add: wholeLines_def)
next
  case (snoc r rs)
  show ?case
  proof (cases "L \<le> newlines rs")
    case True
    then obtain P Q where "rs = P @ Q" "wholeLines P" "newlines P = L" using snoc.IH by blast
    then show ?thesis by (intro exI [of _ P] exI [of _ "Q @ [r]"]) simp
  next
    case False
    with snoc.prems have "fst r = 10" and "L = Suc (newlines rs)" by (auto split: if_splits)
    then show ?thesis
      by (intro exI [of _ "rs @ [r]"] exI [of _ "[]"]) (simp add: wholeLines_def)
  qed
qed

lemma colLoop_complete:
  assumes "newlines R = 0" and "col + units16 R = C"
  shows "colLoop C (offsets i (R @ T)) col =
    (if T = [] \<or> fst (hd T) = 10 then LineEnd C else Found (i + widths R))"
  using assms
proof (induction R arbitrary: i col)
  case Nil
  then show ?case by (cases T) auto
next
  case (Cons rw R)
  obtain r w where rw: "rw = (r, w)" by (cases rw)
  have "col < C" using Cons.prems utf16CodeUnits_pos [of r] by (simp add: rw)
  with Cons.prems Cons.IH [of "col + utf16CodeUnits r" "i + w"] show ?case
    by (cases "T = []") (simp_all add: rw add.assoc split: if_splits)
qed

lemma colLoop_sound:
  assumes "colLoop C (offsets i Q) col = res" and "res \<noteq> Past"
  shows "\<exists>R T. Q = R @ T \<and> newlines R = 0 \<and>
    (res = Found (i + widths R) \<and> col + units16 R = C \<or>
     res = LineEnd (col + units16 R) \<and> (T = [] \<or> fst (hd T) = 10))"
  using assms
proof (induction Q arbitrary: i col)
  case Nil
  then show ?case by auto
next
  case (Cons rw Q)
  obtain r w where rw: "rw = (r, w)" by (cases rw)
  let ?col = "col + utf16CodeUnits r"
  consider "r = 10" | "r \<noteq> 10" "col = C" | "r \<noteq> 10" "col \<noteq> C" "?col \<le> C"
    using Cons.prems by (fastforce simp: rw)
  then show ?case
  proof cases
    case 1
    with Cons.prems show ?thesis
      by (intro exI [of _ "[]"] exI [of _ "rw # Q"]) (auto simp: rw)
  next
    case 2
    with Cons.prems show ?thesis
      by (intro exI [of _ "[]"] exI [of _ "rw # Q"]) (auto simp: rw)
  next
    case 3
    with Cons.prems have "colLoop C (offsets (i + w) Q) ?col = res" by (simp add: rw)
    from Cons.IH [OF this Cons.prems(2)] obtain R T
      where "Q = R @ T" "newlines R = 0" and
        "res = Found (i + w + widths R) \<and> ?col + units16 R = C \<or>
         res = LineEnd (?col + units16 R) \<and> (T = [] \<or> fst (hd T) = 10)"
      by blast
    with 3 show ?thesis
      by (intro exI [of _ "rw # R"] exI [of _ T]) (simp add: rw add.assoc)
  qed
qed

lemma newlineLoop_line:
  "newlines R = 0 \<Longrightarrow> T = [] \<or> fst (hd T) = 10 \<Longrightarrow>
     newlineLoop (offsets i (R @ T)) = (if T = [] then None else Some (i + widths R))"
proof (induction R arbitrary: i)
  case Nil
  then show ?case by (cases T) auto
next
  case (Cons rw R)
  then show ?case by (cases rw) (auto split: if_splits)
qed

lemma posAfter_split:
  assumes "posAfter P = (L, C)"
  obtains P1 R where "P = P1 @ R" "wholeLines P1" "newlines R = 0" "L = newlines P1" "C = units16 R"
proof -
  obtain P1 R where "P = P1 @ R" "wholeLines P1" "newlines R = 0"
    using split_lines [of P] by blast
  with assms posAfter_line [of P1 R] that show ?thesis by simp
qed

lemma rangeString_newline: "decodeAll s = P @ Q \<Longrightarrow> (10, w) \<in> set P \<Longrightarrow> w = 1"
  using decodeAll_newline_width [of w s] by simp

lemma lineStart_found:
  assumes "decodeAll text = P @ Q" and "wholeLines P"
  shows "lineLoop (newlines P) (rangeString text) 0 0 = (widths P, newlines P)"
  using assms lineLoop_found [of P "newlines P" 0 0 Q 0] rangeString_newline [OF assms(1)]
  by (simp add: rangeString_def)

text \<open>The offset of a position that runes reach, and every offset that is returned.\<close>

lemma byteOffset_complete:
  assumes "decodeAll text = P @ Q" and "posAfter P = (L, C)"
  shows "byteOffsetForUTF16Position text (int L) (int C) = Some (widths P)"
proof -
  obtain P1 R where P: "P = P1 @ R" and wl: "wholeLines P1" and R: "newlines R = 0"
    and L: "L = newlines P1" and C: "C = units16 R"
    using posAfter_split [OF assms(2)] .
  have dec: "decodeAll text = P1 @ (R @ Q)" using assms(1) P by simp
  have rest: "rangeString (drop (widths P1) text) = offsets 0 (R @ Q)"
    using decodeAll_drop [OF dec] by (simp add: rangeString_def)
  show ?thesis
  proof (cases "Q = [] \<or> fst (hd Q) = 10")
    case True
    then have "colLoop C (offsets 0 (R @ Q)) 0 = LineEnd C"
      using colLoop_complete [OF R, of 0 C 0 Q] C by auto
    moreover have "newlineLoop (offsets 0 (R @ Q)) = (if Q = [] then None else Some (widths R))"
      using newlineLoop_line [OF R True, of 0] by simp
    moreover have "Q = [] \<Longrightarrow> length text = widths P"
      using widths_decodeAll [of "text"] assms(1) by simp
    ultimately show ?thesis
      using lineStart_found [OF dec wl]
      by (auto simp: byteOffsetForUTF16Position_def rest P L Let_def)
  next
    case False
    then have "colLoop C (offsets 0 (R @ Q)) 0 = Found (widths R)"
      using colLoop_complete [OF R, of 0 C 0 Q] C by auto
    then show ?thesis
      using lineStart_found [OF dec wl]
      by (simp add: byteOffsetForUTF16Position_def rest P L Let_def)
  qed
qed

lemma byteOffset_sound:
  assumes "byteOffsetForUTF16Position text line character = Some off"
  shows "\<exists>P Q. decodeAll text = P @ Q \<and> 0 \<le> line \<and> 0 \<le> character \<and>
    posAfter P = (nat line, nat character) \<and> off = widths P"
proof -
  have pos: "0 \<le> line" "0 \<le> character"
    using assms by (auto simp: byteOffsetForUTF16Position_def split: if_splits)
  have "nat line \<le> newlines (decodeAll text)"
  proof (rule ccontr)
    assume "\<not> ?thesis"
    then have "snd (lineLoop (nat line) (rangeString text) 0 0) < nat line"
      using lineLoop_missing [of 0 "decodeAll text" "nat line" 0 0] by (simp add: rangeString_def)
    with assms pos show False
      by (auto simp: byteOffsetForUTF16Position_def Let_def split: prod.splits if_splits)
  qed
  then obtain P1 S where dec: "decodeAll text = P1 @ S" and wl: "wholeLines P1"
    and n: "newlines P1 = nat line"
    using split_at_line by blast
  let ?res = "colLoop (nat character) (offsets 0 S) 0"
  have rest: "rangeString (drop (widths P1) text) = offsets 0 S"
    using decodeAll_drop [OF dec] by (simp add: rangeString_def)
  have off: "(case ?res of Found i \<Rightarrow> Some (widths P1 + i) | Past \<Rightarrow> None
      | LineEnd col \<Rightarrow> if int col = character then
          (case newlineLoop (offsets 0 S) of Some i \<Rightarrow> Some (widths P1 + i)
           | None \<Rightarrow> Some (length text)) else None) = Some off"
    using assms pos lineStart_found [OF dec wl]
    by (simp add: byteOffsetForUTF16Position_def n rest Let_def)
  then have "?res \<noteq> Past" by auto
  from colLoop_sound [OF refl this] obtain R T where S: "S = R @ T" and R: "newlines R = 0"
    and res: "?res = Found (widths R) \<and> units16 R = nat character \<or>
      ?res = LineEnd (units16 R) \<and> (T = [] \<or> fst (hd T) = 10)"
    by auto
  have "units16 R = nat character \<and> off = widths (P1 @ R)"
    using res
  proof
    assume "?res = Found (widths R) \<and> units16 R = nat character"
    with off show ?thesis by simp
  next
    assume le: "?res = LineEnd (units16 R) \<and> (T = [] \<or> fst (hd T) = 10)"
    have "T = [] \<Longrightarrow> length text = widths (P1 @ R)"
      using widths_decodeAll [of "text"] dec S by simp
    with le off newlineLoop_line [OF R, of T 0] S show ?thesis
      by (auto split: if_splits)
  qed
  moreover have "posAfter (P1 @ R) = (nat line, units16 R)"
    using posAfter_line [OF wl R] n by simp
  ultimately show ?thesis
    using pos dec S by (intro exI [of _ "P1 @ R"] exI [of _ T]) simp
qed

section \<open>Edits\<close>

record lspPosition =
  l_line :: int
  l_character :: int

record lspRange =
  r_start :: lspPosition
  r_end :: lspPosition

record contentChange =
  c_range :: "lspRange option"
  c_text :: string

text \<open>
  \<open>applyContentChanges\<close>: the edits of one notification in order. The loop stops at the
  first position that cannot be found, with the text so far and \<open>False\<close>.
\<close>

fun applyContentChanges :: "string \<Rightarrow> contentChange list \<Rightarrow> string \<times> bool" where
  "applyContentChanges text [] = (text, True)"
| "applyContentChanges text (ch # chs) =
     (case c_range ch of
        None \<Rightarrow> applyContentChanges (c_text ch) chs
      | Some r \<Rightarrow>
          (case byteOffsetForUTF16Position text (l_line (r_start r)) (l_character (r_start r)) of
             None \<Rightarrow> (text, False)
           | Some start \<Rightarrow>
               (case byteOffsetForUTF16Position text (l_line (r_end r)) (l_character (r_end r)) of
                  None \<Rightarrow> (text, False)
                | Some end' \<Rightarrow>
                    if end' < start then (text, False)
                    else applyContentChanges
                           (take start text @ c_text ch @ drop end' text) chs)))"

text \<open>
  The specification of the edits, on cursor positions: an edit without a range replaces the
  text, one with a range replaces what lies between the cursor positions of its ends.
\<close>

definition posOf :: "lspPosition \<Rightarrow> int \<times> int" where
  "posOf p = (l_line p, l_character p)"

definition cursorAt :: "string \<Rightarrow> lspPosition \<Rightarrow> nat \<Rightarrow> bool" where
  "cursorAt s p off \<longleftrightarrow>
     (\<exists>P Q. decodeAll s = P @ Q \<and> off = widths P \<and>
        posOf p = (int (fst (posAfter P)), int (snd (posAfter P))))"

inductive edited :: "string \<Rightarrow> contentChange list \<Rightarrow> string \<Rightarrow> bool" where
  edited_done: "edited s [] s"
| edited_full: "c_range ch = None \<Longrightarrow> edited (c_text ch) chs s' \<Longrightarrow> edited s (ch # chs) s'"
| edited_range: "c_range ch = Some r \<Longrightarrow> cursorAt s (r_start r) i \<Longrightarrow> cursorAt s (r_end r) j \<Longrightarrow>
    i \<le> j \<Longrightarrow> edited (take i s @ c_text ch @ drop j s) chs s' \<Longrightarrow> edited s (ch # chs) s'"

inductive_cases edited_NilE: "edited s [] s'"
inductive_cases edited_ConsE: "edited s (ch # chs) s'"

lemma byteOffset_iff:
  "byteOffsetForUTF16Position s (l_line p) (l_character p) = Some off \<longleftrightarrow> cursorAt s p off"
proof
  assume "byteOffsetForUTF16Position s (l_line p) (l_character p) = Some off"
  from byteOffset_sound [OF this] show "cursorAt s p off"
    by (auto simp: cursorAt_def posOf_def)
next
  assume "cursorAt s p off"
  then obtain P Q where "decodeAll s = P @ Q" and off: "off = widths P"
    and pos: "posOf p = (int (fst (posAfter P)), int (snd (posAfter P)))"
    by (auto simp: cursorAt_def)
  then show "byteOffsetForUTF16Position s (l_line p) (l_character p) = Some off"
    using byteOffset_complete [of s P Q "fst (posAfter P)" "snd (posAfter P)"]
    by (simp add: posOf_def)
qed

lemma cursorAt_unique: "cursorAt s p i \<Longrightarrow> cursorAt s p j \<Longrightarrow> i = j"
  by (simp add: byteOffset_iff [symmetric])

lemma edited_iff:
  "applyContentChanges s chs = (s', True) \<longleftrightarrow> edited s chs s'"
proof
  show "applyContentChanges s chs = (s', True) \<Longrightarrow> edited s chs s'"
    by (induction s chs rule: applyContentChanges.induct)
      (auto simp: byteOffset_iff not_less split: option.splits if_splits
        intro: edited.intros)
next
  show "edited s chs s' \<Longrightarrow> applyContentChanges s chs = (s', True)"
    by (induction rule: edited.induct)
      (auto simp: byteOffset_iff [symmetric] split: option.splits)
qed

section \<open>Tracking the open documents\<close>

record openDoc =
  d_uri :: string
  d_languageId :: string
  d_version :: int
  d_text :: string

text \<open>
  The parameters of the notifications after \<open>json.Unmarshal\<close>; \<open>None\<close> when that
  fails. \<open>uriToPath\<close> (package \<open>net/url\<close>) is a parameter.
\<close>

record changeParams =
  ch_uri :: string
  ch_version :: int
  ch_changes :: "contentChange list"

type_synonym openDocs = "(string, openDoc) gomap"

definition trackDidOpen ::
  "(string \<Rightarrow> string) \<Rightarrow> openDoc option \<Rightarrow> openDocs \<Rightarrow> openDocs" where
  "trackDidOpen uriToPath params docs =
     (case params of
        None \<Rightarrow> docs
      | Some dp \<Rightarrow>
          if d_uri dp = '''' then docs
          else if d_languageId dp \<noteq> ''go'' \<and> \<not> hasSuffix (uriToPath (d_uri dp)) ''.go'' then docs
          else gput (d_uri dp)
                 (if d_languageId dp = '''' then dp\<lparr>d_languageId := ''go''\<rparr> else dp) docs)"

definition trackDidChange :: "changeParams option \<Rightarrow> openDocs \<Rightarrow> openDocs" where
  "trackDidChange params docs =
     (case params of
        None \<Rightarrow> docs
      | Some dp \<Rightarrow>
          if ch_uri dp = '''' then docs
          else case gget docs (ch_uri dp) of
              None \<Rightarrow> docs
            | Some doc \<Rightarrow>
                let (txt, ok) = applyContentChanges (d_text doc) (ch_changes dp)
                in if ok
                   then gput (d_uri doc) (doc\<lparr>d_text := txt, d_version := ch_version dp\<rparr>) docs
                   else docs)"

definition trackDidClose :: "string \<Rightarrow> openDocs \<Rightarrow> openDocs" where
  "trackDidClose uri docs = (if uri = '''' then docs else gdel uri docs)"

text \<open>Every document is stored under its own URI, which is not empty.\<close>

definition docs_ok :: "openDocs \<Rightarrow> bool" where
  "docs_ok docs \<longleftrightarrow>
     wf_map docs \<and> (\<forall>u d. gget docs u = Some d \<longrightarrow> d_uri d = u \<and> u \<noteq> '''')"

lemma docs_ok_Nil [simp]: "docs_ok []"
  by (simp add: docs_ok_def)

lemma docs_ok_open: "docs_ok docs \<Longrightarrow> docs_ok (trackDidOpen f p docs)"
  by (auto simp: docs_ok_def trackDidOpen_def split: option.split)

lemma docs_ok_change: "docs_ok docs \<Longrightarrow> docs_ok (trackDidChange p docs)"
  by (auto simp: docs_ok_def trackDidChange_def split: option.split prod.split)

lemma docs_ok_close: "docs_ok docs \<Longrightarrow> docs_ok (trackDidClose u docs)"
  by (auto simp: docs_ok_def trackDidClose_def)

text \<open>
  The editor's side: a sequence of notifications for one document, as the editor sends it,
  and the text and version the editor has after them.
\<close>

fun trackChanges :: "changeParams list \<Rightarrow> openDocs \<Rightarrow> openDocs" where
  "trackChanges [] docs = docs"
| "trackChanges (p # ps) docs = trackChanges ps (trackDidChange (Some p) docs)"

inductive editorText :: "string \<Rightarrow> int \<Rightarrow> changeParams list \<Rightarrow> string \<Rightarrow> int \<Rightarrow> bool" where
  editor_done: "editorText s v [] s v"
| editor_change: "edited s (ch_changes p) s1 \<Longrightarrow> editorText s1 (ch_version p) ps s' v' \<Longrightarrow>
    editorText s v (p # ps) s' v'"

inductive_cases editorText_ConsE: "editorText s v (p # ps) s' v'"

lemma trackChanges_editor:
  assumes "editorText s v ps s' v'" and "docs_ok docs" and "gget docs u = Some doc"
    and "d_text doc = s" and "d_version doc = v" and "\<forall>p \<in> set ps. ch_uri p = u"
  shows "gget (trackChanges ps docs) u = Some (doc\<lparr>d_text := s', d_version := v'\<rparr>)"
  using assms
proof (induction arbitrary: docs doc rule: editorText.induct)
  case (editor_done s v)
  then show ?case by simp
next
  case (editor_change s p s1 ps s' v' v)
  have u: "d_uri doc = u" "u \<noteq> ''''"
    using editor_change.prems(1,2) by (auto simp: docs_ok_def)
  have "applyContentChanges (d_text doc) (ch_changes p) = (s1, True)"
    using editor_change.hyps(1) editor_change.prems(3) by (simp add: edited_iff)
  then have "trackDidChange (Some p) docs =
      gput u (doc\<lparr>d_text := s1, d_version := ch_version p\<rparr>) docs"
    using u editor_change.prems(2,5) by (simp add: trackDidChange_def)
  then have "gget (trackDidChange (Some p) docs) u =
      Some (doc\<lparr>d_text := s1, d_version := ch_version p\<rparr>)" by simp
  from editor_change.IH [OF docs_ok_change [OF editor_change.prems(1)] this]
  show ?case using editor_change.prems(5) by simp
qed

section \<open>Properties\<close>

text \<open>C33: \<open>byteOffsetForUTF16Position\<close> finds exactly the cursor positions. It returns
  an offset if and only if a prefix of the runes of the text ends there after the given number
  of newlines and, since the last newline, the given number of UTF-16 code units. In
  particular the offset lies in the text and on a rune boundary, a surrogate pair is never
  split, and no negative position is found.\<close>

theorem byteOffset_correct:
  "byteOffsetForUTF16Position s line character = Some off \<longleftrightarrow>
     (\<exists>P Q. decodeAll s = P @ Q \<and> off = widths P \<and>
        (line, character) = (int (fst (posAfter P)), int (snd (posAfter P))))"
  using byteOffset_iff [of s "\<lparr>l_line = line, l_character = character\<rparr>" off]
  by (simp add: cursorAt_def posOf_def)

text \<open>C19: the edits of a notification are applied as the protocol means them.
  \<open>applyContentChanges\<close> succeeds with a text if and only if that text results from the
  edits one after the other, each replacing what lies between two cursor positions of the
  text it finds.\<close>

theorem applyContentChanges_correct:
  "applyContentChanges s chs = (s', True) \<longleftrightarrow> edited s chs s'"
  by (rule edited_iff)


definition exampleDoc :: openDoc where
  "exampleDoc = \<lparr>d_uri = ''file:///ws/a.go'', d_languageId = ''go'', d_version = 1,
     d_text = ''x\<newline>ab''\<rparr>"

definition exampleChange :: changeParams where
  "exampleChange = \<lparr>ch_uri = ''file:///ws/a.go'', ch_version = 2,
     ch_changes = [\<lparr>c_range = Some \<lparr>r_start = \<lparr>l_line = 1, l_character = 1\<rparr>,
        r_end = \<lparr>l_line = 1, l_character = 2\<rparr>\<rparr>, c_text = ''c''\<rparr>]\<rparr>"


lemma colLoop_short:
  "newlines R = 0 \<Longrightarrow> T = [] \<or> fst (hd T) = 10 \<Longrightarrow> col + units16 R < C \<Longrightarrow>
     colLoop C (offsets i (R @ T)) col = LineEnd (col + units16 R)"
proof (induction R arbitrary: i col)
  case Nil
  then show ?case by (cases T) auto
next
  case (Cons rw R)
  then show ?case by (cases rw; cases "T = []") (auto simp: add.assoc split: if_splits)
qed

text \<open>a column past the end of its line is not clamped to the line's length, as the
  protocol asks of a receiver: the position is not found and the whole notification leaves
  the tracked document as it was, text and version.\<close>

theorem change_past_line_end_dropped:
  assumes "decodeAll (d_text doc) = P @ R @ Q" and "wholeLines P" and "newlines R = 0"
    and "Q = [] \<or> fst (hd Q) = 10"
    and "gget docs (ch_uri p) = Some doc" and "ch_changes p = ch # chs" and "c_range ch = Some r"
    and "l_line (r_start r) = int (newlines P)" and "int (units16 R) < l_character (r_start r)"
  shows "trackDidChange (Some p) docs = docs"
proof -
  have rest: "rangeString (drop (widths P) (d_text doc)) = offsets 0 (R @ Q)"
    using decodeAll_drop [OF assms(1)] by (simp add: rangeString_def)
  have "units16 R < nat (l_character (r_start r))" using assms(9) by linarith
  then have "colLoop (nat (l_character (r_start r))) (offsets 0 (R @ Q)) 0 = LineEnd (units16 R)"
    using colLoop_short [OF assms(3,4), of 0 _ 0] by simp
  then have "byteOffsetForUTF16Position (d_text doc) (l_line (r_start r))
      (l_character (r_start r)) = None"
    using lineStart_found [OF assms(1,2)] assms(8,9)
    by (simp add: byteOffsetForUTF16Position_def rest)
  then show ?thesis
    using assms by (simp add: trackDidChange_def)
qed

definition pastChange :: changeParams where
  "pastChange = \<lparr>ch_uri = ''file:///ws/a.go'', ch_version = 2,
     ch_changes = [\<lparr>c_range = Some \<lparr>r_start = \<lparr>l_line = 1, l_character = 9\<rparr>,
        r_end = \<lparr>l_line = 1, l_character = 9\<rparr>\<rparr>, c_text = ''c''\<rparr>]\<rparr>"

theorem change_past_line_end_dropped_witness:
  "trackDidChange (Some pastChange) [(''file:///ws/a.go'', exampleDoc)] =
     [(''file:///ws/a.go'', exampleDoc)]"
proof (rule change_past_line_end_dropped)
  show "decodeAll (d_text exampleDoc) = [(120, 1), (10, 1)] @ [(97, 1), (98, 1)] @ []"
    by (simp add: exampleDoc_def decodeAll.simps byteOf_def)
  show "ch_changes pastChange = \<lparr>c_range = Some \<lparr>r_start = \<lparr>l_line = 1, l_character = 9\<rparr>,
      r_end = \<lparr>l_line = 1, l_character = 9\<rparr>\<rparr>, c_text = ''c''\<rparr> # []"
    by (simp add: pastChange_def)
qed (simp_all add: wholeLines_def pastChange_def utf16CodeUnits_def)+

end
