(* ===== verification/WorkspaceSymbols.thy ===== *)
theory WorkspaceSymbols
  imports RevIndex Uri Documents "HOL-Library.Multiset" "HOL-Library.Product_Lexorder"
begin

text \<open>
  The symbol search of \<open>symbols.go\<close>: the ranked answer of one index
  (\<open>WorkspaceSymbols\<close>), the merge of the answers of several indexes
  (\<open>mergeWorkspaceSymbols\<close>) and the assembly of the reply in
  \<open>interceptWorkspaceSymbol\<close> (\<open>proxy.go\<close>). \<open>sort.Slice\<close> is not stable, so the
  sorting function is an argument of the definitions, of which only the contract
  of \<open>sort.Slice\<close> is used.
\<close>

section \<open>The contract of \<open>sort.Slice\<close>\<close>

locale slice_sorter =
  fixes lt :: "'a \<Rightarrow> 'a \<Rightarrow> bool" and srt :: "'a list \<Rightarrow> 'a list"
  assumes srt_perm: "\<And>xs. mset (srt xs) = mset xs"
    and srt_sorted: "\<And>xs. sorted_wrt (\<lambda>x y. \<not> lt y x) (srt xs)"
begin

lemma srt_set [simp]: "set (srt xs) = set xs"
  using srt_perm [of xs] by (metis set_mset_mset)

lemma srt_length [simp]: "length (srt xs) = length xs"
  using srt_perm [of xs] by (metis size_mset)

lemma kept_sub: "set (take n (srt xs)) \<subseteq> set xs"
  using set_take_subset [of n "srt xs"] by simp

lemma kept_all: "length xs \<le> n \<Longrightarrow> mset (take n (srt xs)) = mset xs"
  by (simp add: srt_perm)

text \<open>What the cut drops does not precede what it keeps.\<close>

lemma kept_best:
  assumes "x \<in> set (take n (srt xs))" and "y \<in> set (drop n (srt xs))"
  shows "\<not> lt y x"
proof -
  have "sorted_wrt (\<lambda>x y. \<not> lt y x) (take n (srt xs) @ drop n (srt xs))"
    using srt_sorted by simp
  with assms show ?thesis by (simp only: sorted_wrt_append) blast
qed

lemma dropped:
  assumes "y \<in> set xs" and "y \<notin> set (take n (srt xs))"
  shows "y \<in> set (drop n (srt xs))"
  using assms by (metis UnE append_take_drop_id set_append srt_set)


end


text \<open>The insertion sort that \<open>sort.Slice\<close> runs on short slices keeps the contract.\<close>

fun insertBy :: "('a \<Rightarrow> 'a \<Rightarrow> bool) \<Rightarrow> 'a \<Rightarrow> 'a list \<Rightarrow> 'a list" where
  "insertBy lt x [] = [x]"
| "insertBy lt x (y # ys) = (if lt x y then x # y # ys else y # insertBy lt x ys)"

definition insertionSort :: "('a \<Rightarrow> 'a \<Rightarrow> bool) \<Rightarrow> 'a list \<Rightarrow> 'a list" where
  "insertionSort lt xs = foldl (\<lambda>acc x. insertBy lt x acc) [] xs"

lemma insertBy_mset [simp]: "mset (insertBy lt x ys) = add_mset x (mset ys)"
  by (induction ys) auto

lemma insertBy_set [simp]: "set (insertBy lt x ys) = insert x (set ys)"
  by (induction ys) auto

lemma insertBy_sorted:
  fixes key :: "'a \<Rightarrow> 'b :: linorder"
  shows "sorted_wrt (\<lambda>x y. \<not> key y < key x) ys \<Longrightarrow>
    sorted_wrt (\<lambda>x y. \<not> key y < key x) (insertBy (\<lambda>x y. key x < key y) x ys)"
  by (induction ys) auto

lemma insertion_fold:
  fixes key :: "'a \<Rightarrow> 'b :: linorder"
  defines "step \<equiv> \<lambda>acc x. insertBy (\<lambda>x y. key x < key y) x acc"
  shows "sorted_wrt (\<lambda>x y. \<not> key y < key x) acc \<Longrightarrow>
    mset (foldl step acc xs) = mset acc + mset xs \<and>
    sorted_wrt (\<lambda>x y. \<not> key y < key x) (foldl step acc xs)"
  by (induction xs arbitrary: acc) (simp_all add: step_def insertBy_sorted)

lemma insertionSort_sorter:
  fixes key :: "'a \<Rightarrow> 'b :: linorder"
  assumes "\<And>x y. lt x y \<longleftrightarrow> key x < key y"
  shows "slice_sorter lt (insertionSort lt)"
proof -
  have "lt = (\<lambda>x y. key x < key y)" using assms by blast
  then show ?thesis
    using insertion_fold [of key "[]"]
    by (simp add: slice_sorter_def insertionSort_def)
qed

section \<open>One index\<close>

definition maxWorkspaceSymbols :: nat where
  "maxWorkspaceSymbols = 500"

text \<open>\<open>workspaceSymbol\<close> with its \<open>lspLocation\<close> as the two fields \<open>w_uri\<close>, \<open>w_range\<close>.\<close>

record workspaceSymbol =
  w_name :: string
  w_kind :: int
  w_uri :: string
  w_range :: lspRange
  w_container :: string

record scoredSymbol =
  m_sym :: indexedSymbol
  m_score :: int

text \<open>The comparison the matches are sorted with.\<close>

definition symLess :: "scoredSymbol \<Rightarrow> scoredSymbol \<Rightarrow> bool" where
  "symLess a b =
     (if m_score a \<noteq> m_score b then m_score a < m_score b
      else if s_name (m_sym a) \<noteq> s_name (m_sym b) then s_name (m_sym a) < s_name (m_sym b)
      else s_relFile (m_sym a) < s_relFile (m_sym b))"

definition symMatches :: "(string \<Rightarrow> string) \<Rightarrow> string \<Rightarrow> revIndex \<Rightarrow> scoredSymbol list" where
  "symMatches toLower query ri =
     concat (map (\<lambda>(file, symbols).
        map (\<lambda>s. \<lparr>m_sym = s, m_score = symbolMatchScore toLower query s\<rparr>)
          (filter (\<lambda>s. symbolMatchScore toLower query s \<ge> 0) symbols)) (ri_fileSymbols ri))"

definition toWorkspaceSymbol :: "string \<Rightarrow> indexedSymbol \<Rightarrow> workspaceSymbol" where
  "toWorkspaceSymbol root sy =
     \<lparr>w_name = s_name sy, w_kind = s_kind sy,
      w_uri = pathToURI (filepathJoin root (s_relFile sy)),
      w_range = \<lparr>r_start = \<lparr>l_line = s_startLine sy, l_character = s_startChar sy\<rparr>,
                 r_end = \<lparr>l_line = s_endLine sy, l_character = s_endChar sy\<rparr>\<rparr>,
      w_container = s_container sy\<rparr>"

definition WorkspaceSymbols ::
  "(string \<Rightarrow> string) \<Rightarrow> (scoredSymbol list \<Rightarrow> scoredSymbol list) \<Rightarrow> string \<Rightarrow> revIndex
   \<Rightarrow> workspaceSymbol list" where
  "WorkspaceSymbols toLower srt query ri =
     (let matches = srt (symMatches toLower (trimSpace query) ri);
          matches = (if length matches > maxWorkspaceSymbols
                     then take maxWorkspaceSymbols matches else matches)
      in map (\<lambda>m. toWorkspaceSymbol (ri_root ri) (m_sym m)) matches)"

section \<open>Several indexes\<close>

definition wsLess :: "workspaceSymbol \<Rightarrow> workspaceSymbol \<Rightarrow> bool" where
  "wsLess a b = (if w_name a \<noteq> w_name b then w_name a < w_name b else w_uri a < w_uri b)"

definition mergeWorkspaceSymbols ::
  "(workspaceSymbol list \<Rightarrow> workspaceSymbol list) \<Rightarrow> workspaceSymbol list list
   \<Rightarrow> workspaceSymbol list" where
  "mergeWorkspaceSymbols srt results =
     (let merged = srt (concat results)
      in if length merged > maxWorkspaceSymbols then take maxWorkspaceSymbols merged else merged)"

text \<open>
  \<open>interceptWorkspaceSymbol\<close>: not intercepted (\<open>None\<close>) when the parameters do not parse or
  there is no root; otherwise the held request is forwarded when the main index is not ready
  in time, or answered from the main index and the sub-indexes that are. Readiness
  within the shared budget is the second component of each pair.
\<close>

datatype symbolReply = ForwardHeld | Respond "workspaceSymbol list"

definition interceptWorkspaceSymbol ::
  "(string \<Rightarrow> string) \<Rightarrow> (scoredSymbol list \<Rightarrow> scoredSymbol list)
   \<Rightarrow> (workspaceSymbol list \<Rightarrow> workspaceSymbol list)
   \<Rightarrow> string option \<Rightarrow> string \<Rightarrow> revIndex \<times> bool \<Rightarrow> (revIndex \<times> bool) list \<Rightarrow> symbolReply option" where
  "interceptWorkspaceSymbol toLower srt srtMerge query root idx subs =
     (case query of None \<Rightarrow> None
      | Some q \<Rightarrow>
          if root = '''' then None
          else if \<not> snd idx then Some ForwardHeld
          else
            let results = WorkspaceSymbols toLower srt q (fst idx) #
                  map (\<lambda>(ri, ready). WorkspaceSymbols toLower srt q ri)
                    (filter (\<lambda>(ri, ready). ready) subs)
            in Some (Respond (mergeWorkspaceSymbols srtMerge results)))"

section \<open>Lemmas\<close>

lemma symLess_key:
  "symLess a b \<longleftrightarrow>
     (m_score a, s_name (m_sym a), s_relFile (m_sym a)) <
     (m_score b, s_name (m_sym b), s_relFile (m_sym b))"
  by (auto simp: symLess_def less_prod_def)

lemma wsLess_key: "wsLess a b \<longleftrightarrow> (w_name a, w_uri a) < (w_name b, w_uri b)"
  by (auto simp: wsLess_def less_prod_def)

interpretation ss: slice_sorter symLess "insertionSort symLess"
  by (rule insertionSort_sorter) (rule symLess_key)

interpretation wss: slice_sorter wsLess "insertionSort wsLess"
  by (rule insertionSort_sorter) (rule wsLess_key)


lemma WorkspaceSymbols_take:
  assumes "slice_sorter symLess srt"
  shows "WorkspaceSymbols toLower srt query ri =
    map (\<lambda>m. toWorkspaceSymbol (ri_root ri) (m_sym m))
      (take maxWorkspaceSymbols (srt (symMatches toLower (trimSpace query) ri)))"
  using slice_sorter.srt_length [OF assms] by (simp add: WorkspaceSymbols_def Let_def)

lemma merge_take:
  assumes "slice_sorter wsLess srt"
  shows "mergeWorkspaceSymbols srt results = take maxWorkspaceSymbols (srt (concat results))"
  using slice_sorter.srt_length [OF assms] by (simp add: mergeWorkspaceSymbols_def Let_def)

lemma wsLess_irrefl: "\<not> wsLess x x"
  by (simp add: wsLess_def)

lemma mset_concat_map:
  "(\<And>x. x \<in> set xs \<Longrightarrow> mset (f x) = mset (g x)) \<Longrightarrow>
     mset (concat (map f xs)) = mset (concat (map g xs))"
  by (induction xs) auto

lemma length_matches_le:
  "ri \<in> set ris \<Longrightarrow> length (concat (map f ris)) \<le> n \<Longrightarrow> length (f ri) \<le> n"
  by (induction ris) auto

text \<open>ASCII case folding.\<close>

lemma asciiLower_ascii: "asciiStr s \<Longrightarrow> asciiStr (map asciiLower s)"
  by (auto simp: asciiStr_def asciiLower_def byteOf_def)

lemma ascii_dot: "asciiStr (s @ t) \<longleftrightarrow> asciiStr s \<and> asciiStr t" "asciiStr ''.''"
  by (auto simp: asciiStr_def byteOf_def)

lemma subseq_of_sublist: "sublist a b \<Longrightarrow> subseq a b"
  by (auto simp: sublist_def)

text \<open>The lower-case name a query is matched against.\<close>

definition qualifiedName :: "indexedSymbol \<Rightarrow> string" where
  "qualifiedName sy =
     map asciiLower (if s_container sy \<noteq> '''' then s_container sy @ ''.'' @ s_name sy else s_name sy)"

section \<open>Properties\<close>



text \<open>one reply for all modules. With the main index ready and at most 500 matches
  in all, the reply to \<open>workspace/symbol\<close> holds each match of the main index and of every
  sub-index that is ready, each as often as it matches, and nothing else.\<close>

theorem workspaceSymbol_reply_complete:
  assumes "slice_sorter symLess srt" and "slice_sorter wsLess srtMerge" and "root \<noteq> ''''"
    and "snd idx"
    and "length (concat (map (symMatches toLower (trimSpace q))
           (fst idx # map fst (filter snd subs)))) \<le> maxWorkspaceSymbols"
  shows "\<exists>ws. interceptWorkspaceSymbol toLower srt srtMerge (Some q) root idx subs = Some (Respond ws) \<and>
    mset ws = mset (concat (map (\<lambda>ri. map (\<lambda>m. toWorkspaceSymbol (ri_root ri) (m_sym m))
      (symMatches toLower (trimSpace q) ri)) (fst idx # map fst (filter snd subs))))"
proof -
  let ?ris = "fst idx # map fst (filter snd subs)"
  let ?ws = "\<lambda>ri. WorkspaceSymbols toLower srt q ri"
  have one: "mset (?ws ri) = mset (map (\<lambda>m. toWorkspaceSymbol (ri_root ri) (m_sym m))
      (symMatches toLower (trimSpace q) ri))" if "ri \<in> set ?ris" for ri
  proof -
    have "length (symMatches toLower (trimSpace q) ri) \<le> maxWorkspaceSymbols"
      using length_matches_le [OF that assms(5)] .
    then have "mset (take maxWorkspaceSymbols (srt (symMatches toLower (trimSpace q) ri))) =
        mset (symMatches toLower (trimSpace q) ri)"
      by (rule slice_sorter.kept_all [OF assms(1)])
    then show ?thesis by (simp only: WorkspaceSymbols_take [OF assms(1)] mset_map)
  qed
  have all: "mset (concat (map ?ws ?ris)) = mset (concat (map (\<lambda>ri.
      map (\<lambda>m. toWorkspaceSymbol (ri_root ri) (m_sym m)) (symMatches toLower (trimSpace q) ri)) ?ris))"
    by (rule mset_concat_map) (rule one)
  have "size (mset (concat (map ?ws ?ris))) \<le> maxWorkspaceSymbols"
    unfolding all using assms(5) by (simp add: length_concat comp_def)
  then have "mset (mergeWorkspaceSymbols srtMerge (map ?ws ?ris)) = mset (concat (map ?ws ?ris))"
    unfolding merge_take [OF assms(2)] size_mset by (rule slice_sorter.kept_all [OF assms(2)])
  moreover have "interceptWorkspaceSymbol toLower srt srtMerge (Some q) root idx subs =
      Some (Respond (mergeWorkspaceSymbols srtMerge (map ?ws ?ris)))"
    using assms(3,4) by (simp add: interceptWorkspaceSymbol_def comp_def case_prod_beta')
  ultimately show ?thesis using all by simp
qed

theorem workspaceSymbol_reply_complete_witness:
  "\<exists>ws. interceptWorkspaceSymbol id (insertionSort symLess) (insertionSort wsLess) (Some ''q'') ''/w''
      (newRevIndex, True) [(newRevIndex, False)] = Some (Respond ws) \<and>
    mset ws = mset (concat (map (\<lambda>ri. map (\<lambda>m. toWorkspaceSymbol (ri_root ri) (m_sym m))
      (symMatches id (trimSpace ''q'') ri))
      (fst (newRevIndex, True) # map fst (filter snd [(newRevIndex, False)]))))"
  by (rule workspaceSymbol_reply_complete)
    (simp_all add: ss.slice_sorter_axioms wss.slice_sorter_axioms symMatches_def newRevIndex_def)

text \<open>an exact match can be lost. The merge orders by name, not by score: when one index
  contributes 500 symbols whose names precede \<open>x\<close>, the reply lacks \<open>x\<close>, be it the only
  exact match of the query.\<close>

theorem merge_drops_later_name:
  assumes "slice_sorter wsLess srt" and "maxWorkspaceSymbols \<le> length many"
    and "list_all (\<lambda>w. w_name w < w_name x) many"
  shows "x \<notin> set (mergeWorkspaceSymbols srt [many, [x]])"
proof
  let ?l = "srt (many @ [x])"
  let ?kept = "take maxWorkspaceSymbols ?l" and ?rest = "drop maxWorkspaceSymbols ?l"
  assume "x \<in> set (mergeWorkspaceSymbols srt [many, [x]])"
  then have kept: "x \<in> set ?kept" by (simp add: merge_take [OF assms(1)])
  have perm: "mset ?kept + mset ?rest = add_mset x (mset many)"
  proof -
    have "mset ?kept + mset ?rest = mset ?l" by (simp only: mset_append [symmetric] append_take_drop_id)
    also have "\<dots> = mset (many @ [x])" by (rule slice_sorter.srt_perm [OF assms(1)])
    finally show ?thesis by simp
  qed
  have before: "wsLess w x" if "w \<in> set many" for w
    using assms(3) that by (auto simp: list_all_iff wsLess_def)
  have "x \<notin> set many" using before wsLess_irrefl by blast
  then have "count (mset many) x = 0" by (simp only: count_mset_0_iff not_False_eq_True)
  then have "count (mset ?kept) x + count (mset ?rest) x = 1"
    using arg_cong [OF perm, of "\<lambda>m. count m x"] by simp
  moreover have "0 < count (mset ?kept) x" using kept by (simp only: count_greater_zero_iff set_mset_mset)
  ultimately have "count (mset ?rest) x = 0" by linarith
  then have "x \<notin> set ?rest" by (simp only: count_mset_0_iff not_False_eq_True)
  moreover have "?rest \<noteq> []"
    using assms(2) slice_sorter.srt_length [OF assms(1), of "many @ [x]"] by simp
  ultimately obtain y where y: "y \<in> set ?rest" "y \<noteq> x" by (metis hd_in_set)
  then have "y \<in># add_mset x (mset many)" using perm by (metis union_iff set_mset_mset)
  then have "wsLess y x" using y before by auto
  with slice_sorter.kept_best [OF assms(1) kept y(1)] show False by blast
qed

theorem merge_drops_later_name_witness:
  "\<lparr>w_name = ''b'', w_kind = 12, w_uri = ''file:///w/b.go'',
     w_range = \<lparr>r_start = \<lparr>l_line = 1, l_character = 5\<rparr>, r_end = \<lparr>l_line = 1, l_character = 6\<rparr>\<rparr>,
     w_container = ''''\<rparr> \<notin> set (mergeWorkspaceSymbols (insertionSort wsLess)
   [replicate 500 \<lparr>w_name = ''ab'', w_kind = 12, w_uri = ''file:///w/a.go'',
     w_range = \<lparr>r_start = \<lparr>l_line = 1, l_character = 5\<rparr>, r_end = \<lparr>l_line = 1, l_character = 7\<rparr>\<rparr>,
     w_container = ''''\<rparr>,
    [\<lparr>w_name = ''b'', w_kind = 12, w_uri = ''file:///w/b.go'',
     w_range = \<lparr>r_start = \<lparr>l_line = 1, l_character = 5\<rparr>, r_end = \<lparr>l_line = 1, l_character = 6\<rparr>\<rparr>,
     w_container = ''''\<rparr>]])"
proof -
  have "''ab'' < (''b'' :: string)" by code_simp
  then show ?thesis
    by (intro merge_drops_later_name)
      (simp_all add: wss.slice_sorter_axioms maxWorkspaceSymbols_def list_all_iff)
qed

text \<open>what a query finds. For ASCII names and an ASCII query that is not blank, a
  symbol is a match if and only if the lower-case query is a subsequence of its lower-case
  qualified name, provided \<open>strings.ToLower\<close> folds ASCII strings byte by byte.\<close>

theorem symbolMatchScore_ascii:
  assumes "asciiStr query" and "asciiStr (s_name sy)" and "asciiStr (s_container sy)"
    and "query \<noteq> ''''" and "\<forall>s. asciiStr s \<longrightarrow> toLower s = map asciiLower s"
  shows "0 \<le> symbolMatchScore toLower query sy \<longleftrightarrow>
    subseq (map asciiLower query) (qualifiedName sy)"
proof -
  let ?q = "map asciiLower query" and ?name = "map asciiLower (s_name sy)"
  have dot: "map asciiLower ''.'' = ''.''" by (simp add: asciiLower_def byteOf_def)
  have lower: "toLower query = ?q" "toLower (s_name sy) = ?name"
    "toLower (s_container sy) = map asciiLower (s_container sy)" using assms by auto
  have full: "(if s_container sy \<noteq> '''' then map asciiLower (s_container sy) @ ''.'' @ ?name else ?name)
      = qualifiedName sy"
    using dot by (simp add: qualifiedName_def)
  have name: "sublist ?name (qualifiedName sy)"
  proof -
    have "sublist ?name ((map asciiLower (s_container sy) @ map asciiLower ''.'') @ ?name)"
      by (rule sublist_append_leftI)
    then show ?thesis by (simp add: qualifiedName_def)
  qed
  have ascii: "asciiStr (qualifiedName sy)"
    unfolding qualifiedName_def by (rule asciiLower_ascii) (use assms in \<open>auto simp: asciiStr_def byteOf_def\<close>)
  have "?q \<noteq> ''''" using assms(4) by simp
  then have fuzzy: "fuzzyContains ?q (qualifiedName sy) \<longleftrightarrow> subseq ?q (qualifiedName sy)"
    using fuzzyContains_ascii [OF ascii] by blast
  have "subseq ?q (qualifiedName sy)"
    if "prefix ?q t \<or> sublist ?q t" and "t = ?name \<or> t = qualifiedName sy" for t
    using that name by (metis prefix_imp_sublist sublist_order.order_trans subseq_of_sublist)
  then have sub: "subseq ?q (qualifiedName sy)"
    if "?name = ?q \<or> qualifiedName sy = ?q \<or> prefix ?q ?name \<or> prefix ?q (qualifiedName sy)
      \<or> sublist ?q ?name \<or> sublist ?q (qualifiedName sy)"
    using that by (metis prefix_order.order_refl)
  show ?thesis
    unfolding symbolMatchScore_def Let_def lower full stringsContains_def fuzzy
    using sub \<open>?q \<noteq> ''''\<close> by (simp split: if_splits)
qed

theorem symbolMatchScore_ascii_witness:
  "0 \<le> symbolMatchScore (map asciiLower) ''sVm''
     \<lparr>s_name = ''M'', s_kind = 6, s_container = ''Server'', s_relFile = ''a.go'',
      s_startLine = 0, s_startChar = 0, s_endLine = 0, s_endChar = 1\<rparr> \<longleftrightarrow>
   subseq (map asciiLower ''sVm'') (qualifiedName
     \<lparr>s_name = ''M'', s_kind = 6, s_container = ''Server'', s_relFile = ''a.go'',
      s_startLine = 0, s_startChar = 0, s_endLine = 0, s_endChar = 1\<rparr>)"
  by (rule symbolMatchScore_ascii) (simp_all add: asciiStr_def byteOf_def)

text \<open>a query outside ASCII never matches loosely. \<open>fuzzyContains\<close> compares the
  bytes of the query with the runes of the name, so the query ``e-acute a'' written in UTF-8 is not
  found in a name that contains its characters with another between them.\<close>

theorem fuzzyContains_misses_utf8:
  "fuzzyContains [char_of (195 :: nat), char_of (169 :: nat), CHR ''a'']
     [char_of (195 :: nat), char_of (169 :: nat), CHR ''b'', CHR ''a''] = False"
  by (simp add: fuzzyContains_def decodeAll.simps byteOf_def secondByteOk_def)

end
