(* ===== verification/IndexBuild.thy ===== *)
theory IndexBuild
  imports RevIndex
begin

text \<open>
  The reverse-import index over time (\<open>revindex.go\<close>): what \<open>Build\<close> makes of a file tree, and
  updates that run concurrently. \<open>Build\<close> hands the files to several goroutines and every file
  event starts another one; each reads its file without the lock and stores the result under it.
\<close>

section \<open>The import relation of files\<close>

text \<open>
  The edges a file contributes: \<open>d\<close> is a package directory of the module it imports, \<open>x\<close> its
  own directory.
\<close>

definition contributes ::
  "parser \<Rightarrow> string \<Rightarrow> string \<Rightarrow> string \<Rightarrow> string option \<Rightarrow> string \<Rightarrow> string \<Rightarrow> bool" where
  "contributes parseFull root modPath path content d x \<longleftrightarrow>
     (\<exists>rel src f err p. relInside root path = Some rel \<and> content = Some src \<and>
        parseFull src = (Some f, err) \<and> Some p \<in> set (a_imports f) \<and>
        internalDir modPath p = Some d \<and> x = filepathDir rel)"

lemma UpdateFile_edges_iff:
  assumes "ri_root ri \<noteq> ''''" and "ri_modPath ri \<noteq> ''''"
  shows "importedBy (ri_importers (snd (UpdateFile pf path c ri))) d x \<longleftrightarrow>
    importedBy (ri_importers ri) d x \<or> contributes pf (ri_root ri) (ri_modPath ri) path c d x"
proof (cases "relInside (ri_root ri) path")
  case (Some rel)
  show ?thesis
  proof (cases c)
    case (Some src)
    obtain t err where pf: "pf src = (t, err)" by (cases "pf src")
    have "d \<in> set (fst (snd (parseFileMetadata pf src (ri_modPath ri) rel))) \<longleftrightarrow>
        (\<exists>f. t = Some f \<and> (\<exists>p. Some p \<in> set (a_imports f) \<and> internalDir (ri_modPath ri) p = Some d))"
      using importSignature_internal [of "ri_modPath ri" _ src] pf
      by (auto simp: parseFileMetadata_def case_prod_unfold Let_def split: option.split)
    then show ?thesis
      using assms \<open>relInside _ _ = _\<close> Some pf
      by (auto simp: UpdateFile_def contributes_def case_prod_unfold importedBy_addEdges Let_def)
  qed (use assms Some in \<open>simp add: UpdateFile_def contributes_def\<close>)
qed (use assms in \<open>simp add: UpdateFile_def contributes_def\<close>)

lemma updateAll_edges_iff:
  assumes "ri_root ri \<noteq> ''''" and "ri_modPath ri \<noteq> ''''"
  shows "importedBy (ri_importers (updateAll pf us ri)) d x \<longleftrightarrow>
    importedBy (ri_importers ri) d x \<or>
    (\<exists>(path, c) \<in> set us. contributes pf (ri_root ri) (ri_modPath ri) path c d x)"
  using assms
proof (induction pf us ri rule: updateAll.induct)
  case (2 pf path c us ri)
  then show ?case by (simp add: UpdateFile_edges_iff)
qed simp

section \<open>The files of a tree\<close>

text \<open>Entries of a directory as the file system has them: each name is one segment.\<close>

fun okEntry :: "dirEntry \<Rightarrow> bool" where
  "okEntry (EFile name) = okSeg name"
| "okEntry (EDir name es) = (okSeg name \<and> list_all okEntry es)"

lemma visibleFile_ok: "visibleFile es ps \<Longrightarrow> list_all okEntry es \<Longrightarrow> okSegs ps \<and> ps \<noteq> []"
  by (induction es ps rule: visibleFile.induct) (fastforce simp: list_all_iff)+

definition goFiles :: "string list \<Rightarrow> dirEntry list \<Rightarrow> string list set" where
  "goFiles rs es = {ps. visibleFile es ps \<and> hasSuffix (absPath (rs @ ps)) ''.go''}"

lemma walkGo_goFiles:
  assumes "list_all okEntry es" and "rs \<noteq> []"
  shows "set (walkGo (absPath rs) es) = (\<lambda>ps. absPath (rs @ ps)) ` goFiles rs es"
proof -
  have "absPath rs @ ''/'' @ joinWith ''/'' ps = absPath (rs @ ps)" if "visibleFile es ps" for ps
    using absPath_append [OF assms(2)] visibleFile_ok [OF that assms(1)] by simp
  then show ?thesis unfolding walkGo_visible goFiles_def by (auto simp: image_iff) force+
qed

lemma relInside_goFile:
  assumes "okSegs rs" and "ps \<in> goFiles rs es" and "list_all okEntry es"
  shows "relInside (absPath rs) (absPath (rs @ ps)) =
    (if hasPrefix (joinWith ''/'' ps) ''..'' then None else Some (joinWith ''/'' ps))"
proof -
  have "okSegs ps" "ps \<noteq> []" using visibleFile_ok assms(2,3) by (auto simp: goFiles_def)
  then show ?thesis using rel_below [OF assms(1), of ps] by (simp add: relInside_def)
qed

text \<open>
  The import relation of the tree: the directory \<open>d\<close> is imported by a Go file in the directory
  \<open>x\<close>. A file whose path from the root starts with two dots is not indexed.
\<close>

definition treeImports ::
  "parser \<Rightarrow> (string \<Rightarrow> string option) \<Rightarrow> string list \<Rightarrow> dirEntry list \<Rightarrow> string \<Rightarrow> string \<Rightarrow> string \<Rightarrow> bool"
  where
  "treeImports parseFull readFile rs es modPath d x \<longleftrightarrow>
     (\<exists>ps \<in> goFiles rs es. \<exists>src f err p. \<not> hasPrefix (joinWith ''/'' ps) ''..'' \<and>
        readFile (absPath (rs @ ps)) = Some src \<and> parseFull src = (Some f, err) \<and>
        Some p \<in> set (a_imports f) \<and> internalDir modPath p = Some d \<and>
        x = filepathDir (joinWith ''/'' ps))"

lemma Build_edges:
  assumes "okSegs rs" and "rs \<noteq> []" and "list_all okEntry es"
    and "\<forall>fs. set (schedule fs) = set fs"
    and "modulePath (readFile (filepathJoin (absPath rs) ''go.mod'')) = modPath" and "modPath \<noteq> ''''"
  shows "importedBy (ri_importers (Build pf readFile schedule (absPath rs) es newRevIndex)) d x \<longleftrightarrow>
    treeImports pf readFile rs es modPath d x"
proof -
  let ?ri = "newRevIndex\<lparr>ri_root := absPath rs, ri_modPath := modPath\<rparr>"
  let ?us = "map (\<lambda>f. (f, readFile f)) (schedule (walkGo (absPath rs) es))"
  have "set ?us = (\<lambda>ps. (absPath (rs @ ps), readFile (absPath (rs @ ps)))) ` goFiles rs es"
    using walkGo_goFiles [OF assms(3,2)] assms(4) by (simp add: image_image)
  then have "(\<exists>(path, c) \<in> set ?us. contributes pf (absPath rs) modPath path c d x) \<longleftrightarrow>
      (\<exists>ps \<in> goFiles rs es. contributes pf (absPath rs) modPath (absPath (rs @ ps))
         (readFile (absPath (rs @ ps))) d x)"
    by auto
  also have "\<dots> \<longleftrightarrow> treeImports pf readFile rs es modPath d x"
    unfolding treeImports_def contributes_def
    using relInside_goFile [OF assms(1) _ assms(3)] by (intro bex_cong) (auto split: if_splits)
  finally show ?thesis
    using updateAll_edges_iff [of ?ri pf ?us d x] assms(5,6)
    by (simp add: Build_def Let_def importedBy_def newRevIndex_def)
qed


section \<open>The record of a file\<close>

lemma UpdateFile_same:
  assumes "ri_root ri \<noteq> ''''" and "ri_modPath ri \<noteq> ''''" and "relInside (ri_root ri) path = Some rel"
  shows "gget (ri_fileSymbols (snd (UpdateFile pf path c ri))) rel =
    (case c of None \<Rightarrow> None
     | Some src \<Rightarrow> Some (snd (snd (parseFileMetadata pf src (ri_modPath ri) rel))))"
  using assms by (simp add: UpdateFile_def Let_def case_prod_unfold split: option.split)

lemma UpdateFile_other:
  assumes "relInside (ri_root ri) path \<noteq> Some rel"
  shows "gget (ri_fileSymbols (snd (UpdateFile pf path c ri))) rel = gget (ri_fileSymbols ri) rel"
  using assms by (auto simp: UpdateFile_def Let_def case_prod_unfold split: option.split)

lemma updateAll_other:
  assumes "\<forall>(path, c) \<in> set us. relInside (ri_root ri) path \<noteq> Some rel"
  shows "gget (ri_fileSymbols (updateAll pf us ri)) rel = gget (ri_fileSymbols ri) rel"
  using assms
proof (induction pf us ri rule: updateAll.induct)
  case (2 pf path c us ri)
  have "gget (ri_fileSymbols (updateAll pf us (snd (UpdateFile pf path c ri)))) rel =
      gget (ri_fileSymbols (snd (UpdateFile pf path c ri))) rel"
    by (rule "2.IH") (use "2.prems" in simp)
  then show ?case using UpdateFile_other [of ri path rel pf c] "2.prems" by simp
qed simp

lemma updateAll_same:
  assumes "ri_root ri \<noteq> ''''" and "ri_modPath ri \<noteq> ''''"
    and "(path, c) \<in> set us" and "relInside (ri_root ri) path = Some rel"
    and "\<forall>(path', c') \<in> set us. relInside (ri_root ri) path' = Some rel \<longrightarrow> c' = c"
  shows "gget (ri_fileSymbols (updateAll pf us ri)) rel =
    (case c of None \<Rightarrow> None
     | Some src \<Rightarrow> Some (snd (snd (parseFileMetadata pf src (ri_modPath ri) rel))))"
  using assms
proof (induction pf us ri arbitrary: path rule: updateAll.induct)
  case (2 pf path0 c0 us ri)
  show ?case
  proof (cases "\<exists>path'. (path', c) \<in> set us \<and> relInside (ri_root ri) path' = Some rel")
    case True
    then obtain path' where path': "(path', c) \<in> set us" "relInside (ri_root ri) path' = Some rel" by blast
    have "gget (ri_fileSymbols (updateAll pf us (snd (UpdateFile pf path0 c0 ri)))) rel =
        (case c of None \<Rightarrow> None
         | Some src \<Rightarrow> Some (snd (snd (parseFileMetadata pf src
             (ri_modPath (snd (UpdateFile pf path0 c0 ri))) rel))))"
      by (rule "2.IH" [OF _ _ path'(1)]) (use path' "2.prems" in simp_all)
    then show ?thesis by (simp split: option.splits)
  next
    case False
    then have none: "\<forall>(path', c') \<in> set us. relInside (ri_root ri) path' \<noteq> Some rel"
      using "2.prems"(5) by auto
    then have "path = path0" "c = c0" using "2.prems"(3,4) by auto
    then show ?thesis
      using UpdateFile_same [OF "2.prems"(1,2,4), of pf c]
        updateAll_other [of us "snd (UpdateFile pf path c ri)" rel pf] none by simp
  qed
qed simp

lemma goFile_rel_inj:
  assumes "list_all okEntry es" and "ps \<in> goFiles rs es" and "qs \<in> goFiles rs es"
    and "joinWith ''/'' ps = joinWith ''/'' qs"
  shows "ps = qs"
proof -
  have "okSegs ps" "okSegs qs" "ps \<noteq> []" "qs \<noteq> []"
    using visibleFile_ok [OF _ assms(1)] assms(2,3) by (auto simp: goFiles_def)
  then show ?thesis using assms(4) absPath_inj [of ps qs] by (simp add: absPath_def)
qed

section \<open>Properties of Build\<close>

text \<open>C7: the built index is the import graph of the tree. In whatever order the goroutines of
  \<open>Build\<close> index the files, the closure of a directory is then the sorted set of the units of the
  directories that import it, transitively, in the files the walk finds; and the symbols recorded
  are those of these files and no others.\<close>

theorem Build_closure:
  assumes "okSegs rs" and "rs \<noteq> []" and "list_all okEntry es"
    and "\<forall>fs. set (schedule fs) = set fs"
    and "modulePath (readFile (filepathJoin (absPath rs) ''go.mod'')) = modPath" and "modPath \<noteq> ''''"
    and "ri = Build parseFull readFile schedule (absPath rs) es newRevIndex"
  shows "ClosureUnits ri d n = sorted_list_of_set
      ((\<lambda>x. scopeUnit x n) ` {x. (treeImports parseFull readFile rs es modPath)\<^sup>*\<^sup>* d x}) \<and>
    (gget (ri_fileSymbols ri) rel = Some syms \<longleftrightarrow>
      (\<exists>ps \<in> goFiles rs es. \<exists>src. rel = joinWith ''/'' ps \<and> \<not> hasPrefix rel ''..'' \<and>
         readFile (absPath (rs @ ps)) = Some src \<and>
         syms = snd (snd (parseFileMetadata parseFull src modPath rel))))"
proof
  have "importedBy (ri_importers ri) = treeImports parseFull readFile rs es modPath"
    unfolding assms(7) by (intro ext, rule Build_edges) (fact assms(1-6))+
  moreover have "ClosureUnits ri d n = sorted_list_of_set (set (ClosureUnits ri d n))"
    unfolding ClosureUnits_def Let_def set_sort set_remdups sorted_list_of_set_sort_remdups
    by (rule refl)
  ultimately show "ClosureUnits ri d n = sorted_list_of_set
      ((\<lambda>x. scopeUnit x n) ` {x. (treeImports parseFull readFile rs es modPath)\<^sup>*\<^sup>* d x})"
    by (simp only: ClosureUnits_set reachable_def)
next
  let ?ri = "newRevIndex\<lparr>ri_root := absPath rs, ri_modPath := modPath\<rparr>"
  let ?us = "map (\<lambda>f. (f, readFile f)) (schedule (walkGo (absPath rs) es))"
  have us: "set ?us = (\<lambda>ps. (absPath (rs @ ps), readFile (absPath (rs @ ps)))) ` goFiles rs es"
    using walkGo_goFiles [OF assms(3,2)] assms(4) by (simp add: image_image)
  have syms: "gget (ri_fileSymbols ri) rel = gget (ri_fileSymbols (updateAll parseFull ?us ?ri)) rel"
    by (simp add: assms(5,7) Build_def Let_def)
  have rel: "relInside (absPath rs) (absPath (rs @ ps)) = Some r \<longleftrightarrow>
      r = joinWith ''/'' ps \<and> \<not> hasPrefix r ''..''" if "ps \<in> goFiles rs es" for ps r
    using relInside_goFile [OF assms(1) that assms(3)] by auto
  show "gget (ri_fileSymbols ri) rel = Some syms \<longleftrightarrow>
      (\<exists>ps \<in> goFiles rs es. \<exists>src. rel = joinWith ''/'' ps \<and> \<not> hasPrefix rel ''..'' \<and>
         readFile (absPath (rs @ ps)) = Some src \<and>
         syms = snd (snd (parseFileMetadata parseFull src modPath rel)))"
  proof (cases "\<exists>ps \<in> goFiles rs es. rel = joinWith ''/'' ps \<and> \<not> hasPrefix rel ''..''")
    case True
    then obtain ps where ps: "ps \<in> goFiles rs es" "rel = joinWith ''/'' ps" "\<not> hasPrefix rel ''..''"
      by blast
    have only: "qs = ps" if "qs \<in> goFiles rs es" "rel = joinWith ''/'' qs" for qs
      using goFile_rel_inj [OF assms(3) that(1) ps(1)] that(2) ps(2) by simp
    have "gget (ri_fileSymbols (updateAll parseFull ?us ?ri)) rel =
        (case readFile (absPath (rs @ ps)) of None \<Rightarrow> None
         | Some src \<Rightarrow> Some (snd (snd (parseFileMetadata parseFull src (ri_modPath ?ri) rel))))"
    proof (rule updateAll_same)
      show "(absPath (rs @ ps), readFile (absPath (rs @ ps))) \<in> set ?us" unfolding us using ps(1) by simp
      show "relInside (ri_root ?ri) (absPath (rs @ ps)) = Some rel" using rel [OF ps(1)] ps by simp
      show "\<forall>(path', c') \<in> set ?us. relInside (ri_root ?ri) path' = Some rel \<longrightarrow>
          c' = readFile (absPath (rs @ ps))"
        using only rel unfolding us by auto
    qed (use assms(6) in simp_all)
    then have "gget (ri_fileSymbols ri) rel = Some syms \<longleftrightarrow>
        (\<exists>src. readFile (absPath (rs @ ps)) = Some src \<and>
           syms = snd (snd (parseFileMetadata parseFull src modPath rel)))"
      unfolding syms by (auto split: option.split)
    also have "\<dots> \<longleftrightarrow> (\<exists>qs \<in> goFiles rs es. \<exists>src. rel = joinWith ''/'' qs \<and> \<not> hasPrefix rel ''..'' \<and>
         readFile (absPath (rs @ qs)) = Some src \<and>
         syms = snd (snd (parseFileMetadata parseFull src modPath rel)))"
      using ps only by blast
    finally show ?thesis .
  next
    case False
    then have "gget (ri_fileSymbols (updateAll parseFull ?us ?ri)) rel = gget (ri_fileSymbols ?ri) rel"
    proof (intro updateAll_other ballI, clarify)
      fix path c assume "(path, c) \<in> set ?us" "relInside (ri_root ?ri) path = Some rel"
      then show False using False rel unfolding us by auto
    qed
    moreover have "gget (ri_fileSymbols ?ri) rel = None" by (simp add: newRevIndex_def)
    ultimately have "gget (ri_fileSymbols ri) rel = None" using syms by simp
    then show ?thesis using False by auto
  qed
qed


definition tinyTree :: "dirEntry list" where
  "tinyTree = [EFile ''go.mod'', EDir ''a'' [EFile ''a.go''], EDir ''b'' [EFile ''b.go'']]"

definition tinyFiles :: "string \<Rightarrow> string option" where
  "tinyFiles path =
     (if path = ''/w/go.mod'' then Some ''module m''
      else if path = ''/w/b/b.go'' then Some ''B'' else None)"

theorem Build_closure_witness:
  "ClosureUnits (Build tinyParser tinyFiles rev (absPath [''w'']) tinyTree newRevIndex) ''a'' 3 =
     sorted_list_of_set ((\<lambda>x. scopeUnit x 3) `
       {x. (treeImports tinyParser tinyFiles [''w''] tinyTree ''m'')\<^sup>*\<^sup>* ''a'' x})"
proof (rule Build_closure [THEN conjunct1])
  show "okSegs [''w'']" "list_all okEntry tinyTree" by (simp_all add: okSeg_def tinyTree_def)
  have "modulePath (Some ''module m'') = ''m''"
    by (simp add: modulePath_def newlineChar_def trimSpace_def decodeAll.simps byteOf_def
        isSpace_def cutPrefix_def Let_def)
  moreover have "filepathJoin (absPath [''w'']) ''go.mod'' = ''/w/go.mod''" by code_simp
  ultimately show "modulePath (tinyFiles (filepathJoin (absPath [''w'']) ''go.mod'')) = ''m''"
    by (simp add: tinyFiles_def)
qed simp_all

section \<open>Concurrent updates\<close>

text \<open>
  The files on disk, the contents that goroutines have read and not yet stored, and the index.
  A save changes a file; an update reads a file and stores what it read, in two steps.
  \<open>current\<close> is a ghost: the files whose content on disk has been stored since it was written.
\<close>

type_synonym indexSys =
  "(string \<Rightarrow> string option) \<times> (string \<times> string option) list \<times> string set \<times> revIndex"

inductive indexStep :: "parser \<Rightarrow> indexSys \<Rightarrow> indexSys \<Rightarrow> bool" for parseFull where
  ix_save: "indexStep parseFull (disk, jobs, current, ri) (disk(path := c), jobs, current - {path}, ri)"
| ix_read: "indexStep parseFull (disk, jobs, current, ri) (disk, jobs @ [(path, disk path)], current, ri)"
| ix_store: "(path, c) \<in> set jobs \<Longrightarrow>
    indexStep parseFull (disk, jobs, current, ri)
      (disk, remove1 (path, c) jobs, if c = disk path then insert path current else current,
       snd (UpdateFile parseFull path c ri))"

definition index_inv :: "parser \<Rightarrow> string \<Rightarrow> string \<Rightarrow> indexSys \<Rightarrow> bool" where
  "index_inv parseFull root modPath = (\<lambda>(disk, jobs, current, ri).
     ri_root ri = root \<and> ri_modPath ri = modPath \<and>
     (\<forall>path \<in> current. \<forall>d x. contributes parseFull root modPath path (disk path) d x \<longrightarrow>
        importedBy (ri_importers ri) d x))"

lemma index_inv_step:
  assumes "indexStep parseFull s s'" and "index_inv parseFull root modPath s"
    and "root \<noteq> ''''" and "modPath \<noteq> ''''"
  shows "index_inv parseFull root modPath s'"
  using assms
proof (induction rule: indexStep.induct)
  case (ix_store path c jobs disk current ri)
  have "importedBy (ri_importers (snd (UpdateFile parseFull path c ri))) d x \<longleftrightarrow>
      importedBy (ri_importers ri) d x \<or> contributes parseFull root modPath path c d x" for d x
    using UpdateFile_edges_iff [of ri parseFull path c d x] ix_store.prems by (simp add: index_inv_def)
  then show ?case
    using ix_store.prems unfolding index_inv_def
    by (simp add: UpdateFile_frame split: if_splits)
next
  case (ix_save disk jobs current ri path c)
  then show ?case unfolding index_inv_def by (simp, blast)
qed (simp_all add: index_inv_def)

lemma index_inv_run:
  assumes "(indexStep parseFull)\<^sup>*\<^sup>* (disk0, [], {}, ri0) s"
    and "ri_root ri0 \<noteq> ''''" and "ri_modPath ri0 \<noteq> ''''"
  shows "index_inv parseFull (ri_root ri0) (ri_modPath ri0) s"
  using assms(1)
  by (induction rule: rtranclp_induct)
    (simp add: index_inv_def, use index_inv_step assms(2,3) in blast)

text \<open>The import relation of a set of files as they are on disk.\<close>

definition diskImports ::
  "parser \<Rightarrow> string \<Rightarrow> string \<Rightarrow> (string \<Rightarrow> string option) \<Rightarrow> string set \<Rightarrow> string \<Rightarrow> string \<Rightarrow> bool" where
  "diskImports parseFull root modPath disk files d x \<longleftrightarrow>
     (\<exists>path \<in> files. contributes parseFull root modPath path (disk path) d x)"

text \<open>C27: the closure is never too small, whatever runs at once. In every interleaving of saves and
  of updates that read and store in separate steps, the closure of a directory holds the unit of
  every directory that imports it, transitively, in the files whose content on disk has been stored.\<close>

theorem closure_covers_disk:
  assumes "(indexStep parseFull)\<^sup>*\<^sup>* (disk0, [], {}, ri0) (disk, jobs, current, ri)"
    and "ri_root ri0 \<noteq> ''''" and "ri_modPath ri0 \<noteq> ''''"
    and "(diskImports parseFull (ri_root ri0) (ri_modPath ri0) disk current)\<^sup>*\<^sup>* d x"
  shows "scopeUnit x n \<in> set (ClosureUnits ri d n)"
proof -
  have "diskImports parseFull (ri_root ri0) (ri_modPath ri0) disk current y z \<Longrightarrow>
      importedBy (ri_importers ri) y z" for y z
    using index_inv_run [OF assms(1-3)] by (auto simp: index_inv_def diskImports_def)
  then have "(importedBy (ri_importers ri))\<^sup>*\<^sup>* d x"
    using rtranclp_mono [of "diskImports parseFull (ri_root ri0) (ri_modPath ri0) disk current"
        "importedBy (ri_importers ri)"] assms(4) by (auto simp: le_fun_def)
  then show ?thesis by (auto simp: ClosureUnits_set reachable_def)
qed

text \<open>A save of \<open>b.go\<close>, an update, another save and its update, whose stores are swapped.\<close>

definition racedIndex :: revIndex where
  "racedIndex =
     snd (UpdateFile tinyParser ''/w/b/b.go'' (Some ''C'')
       (snd (UpdateFile tinyParser ''/w/b/b.go'' (Some ''B'') tinyIndex)))"

lemma raced_run:
  "(indexStep tinyParser)\<^sup>*\<^sup>* (Map.empty, [], {}, tinyIndex)
     (Map.empty(''/w/b/b.go'' := Some ''B''), [], {''/w/b/b.go''}, racedIndex)"
proof -
  let ?p = "''/w/b/b.go''"
  let ?c = "Map.empty(?p := Some ''C'')" and ?b = "Map.empty(?p := Some ''B'')"
  let ?i = "snd (UpdateFile tinyParser ?p (Some ''B'') tinyIndex)"
  have "indexStep tinyParser (Map.empty, [], {}, tinyIndex) (?c, [], {}, tinyIndex)"
    using ix_save [of tinyParser Map.empty "[]" "{}" tinyIndex ?p "Some ''C''"] by simp
  moreover have "indexStep tinyParser (?c, [], {}, tinyIndex) (?c, [(?p, Some ''C'')], {}, tinyIndex)"
    using ix_read [of tinyParser ?c "[]" "{}" tinyIndex ?p] by simp
  moreover have "indexStep tinyParser (?c, [(?p, Some ''C'')], {}, tinyIndex)
      (?b, [(?p, Some ''C'')], {}, tinyIndex)"
    using ix_save [of tinyParser ?c "[(?p, Some ''C'')]" "{}" tinyIndex ?p "Some ''B''"] by simp
  moreover have "indexStep tinyParser (?b, [(?p, Some ''C'')], {}, tinyIndex)
      (?b, [(?p, Some ''C''), (?p, Some ''B'')], {}, tinyIndex)"
    using ix_read [of tinyParser ?b "[(?p, Some ''C'')]" "{}" tinyIndex ?p] by simp
  moreover have "indexStep tinyParser (?b, [(?p, Some ''C''), (?p, Some ''B'')], {}, tinyIndex)
      (?b, [(?p, Some ''C'')], {?p}, ?i)"
    using ix_store [of ?p "Some ''B''" "[(?p, Some ''C''), (?p, Some ''B'')]" tinyParser ?b "{}" tinyIndex]
    by simp
  moreover have "indexStep tinyParser (?b, [(?p, Some ''C'')], {?p}, ?i) (?b, [], {?p}, racedIndex)"
    using ix_store [of ?p "Some ''C''" "[(?p, Some ''C'')]" tinyParser ?b "{?p}" ?i]
    by (simp add: racedIndex_def)
  ultimately show ?thesis by (meson converse_rtranclp_into_rtranclp rtranclp.rtrancl_refl)
qed


lemma raced_rel: "relInside ''/w'' ''/w/b/b.go'' = Some ''b/b.go''" "filepathDir ''b/b.go'' = ''b''"
  by code_simp+

theorem closure_covers_disk_witness:
  "scopeUnit ''b'' 3 \<in> set (ClosureUnits racedIndex ''a'' 3)"
proof (rule closure_covers_disk [OF raced_run])
  show "ri_root tinyIndex \<noteq> ''''" "ri_modPath tinyIndex \<noteq> ''''" by (simp_all add: tinyIndex_def)
  have "contributes tinyParser (ri_root tinyIndex) (ri_modPath tinyIndex) ''/w/b/b.go'' (Some ''B'') ''a'' ''b''"
    by (auto simp: contributes_def tinyIndex_def tinyParser_def raced_rel internalDir_def)
  then show "(diskImports tinyParser (ri_root tinyIndex) (ri_modPath tinyIndex)
      (Map.empty(''/w/b/b.go'' := Some ''B'')) {''/w/b/b.go''})\<^sup>*\<^sup>* ''a'' ''b''"
    by (intro r_into_rtranclp) (simp add: diskImports_def)
qed

text \<open>an older content can be the last one recorded. Two updates of one file that overlap are
  stored in either order: there is a run in which every update has ended, the last content on
  disk was read and stored, and the imports on record are those of the content before it, so that
  the unmodified file is taken for an edited one.\<close>

theorem older_update_wins:
  "(indexStep tinyParser)\<^sup>*\<^sup>* (Map.empty, [], {}, tinyIndex)
     (Map.empty(''/w/b/b.go'' := Some ''B''), [], {''/w/b/b.go''}, racedIndex) \<and>
   \<not> SameImports tinyParser ''/w/b/b.go'' ''B'' racedIndex"
proof -
  have p: "parseFileMetadata tinyParser src ''m'' rel =
      (let (all, internal) = importSignature ''m'' \<lparr>a_imports = [if src = ''B'' then Some ''m/a'' else Some ''m/b''], a_decls = []\<rparr> src
       in (all, internal, collectSymbols (Some \<lparr>a_imports = [if src = ''B'' then Some ''m/a'' else Some ''m/b''], a_decls = []\<rparr>) rel))"
    for src rel by (simp add: parseFileMetadata_def tinyParser_def)
  have sig: "fst (importSignature ''m'' \<lparr>a_imports = [Some ''m/a''], a_decls = []\<rparr> ''B'') = [''m/a'']"
    "fst (importSignature ''m'' \<lparr>a_imports = [Some ''m/b''], a_decls = []\<rparr> ''C'') = [''m/b'']"
    by (simp_all add: importSignature_def embedLines_def internalDir_def stringsLines_def
        newlineChar_def trimSpace_def decodeAll.simps byteOf_def isSpace_def goEmbed_def)
  have "getList (ri_fileImports racedIndex) ''b/b.go'' = [''m/b'']"
    using sig by (simp add: racedIndex_def UpdateFile_def tinyIndex_def newRevIndex_def raced_rel p
        case_prod_unfold Let_def getList_def)
  moreover have "ri_root racedIndex = ''/w''" "ri_modPath racedIndex = ''m''"
    by (simp_all add: racedIndex_def tinyIndex_def)
  moreover have "fst (parseImports tinyParser ''B'' ''m'') = [''m/a'']"
    using sig by (simp add: parseImports_def tinyParser_def)
  ultimately have "\<not> SameImports tinyParser ''/w/b/b.go'' ''B'' racedIndex"
    by (simp add: SameImports_def raced_rel)
  then show ?thesis using raced_run by blast
qed

end
