(* ===== verification/Config.thy ===== *)
theory Config
  imports Scope Uri
begin

text \<open>
  JSON-RPC messages and the settings the proxy rewrites: \<open>docURI\<close>,
  \<open>stripUserFilters\<close>, \<open>cloneMap\<close>, \<open>patchConfigResponse\<close>, \<open>patchInitialize\<close>
  (\<open>proxy.go\<close>) and \<open>setFilters\<close> (\<open>scope.go\<close>). A message is modelled after
  \<open>json.Unmarshal\<close>: a JSON value is a tree, an object a map, a number its literal.
  Object keys are matched exactly.
\<close>

section \<open>JSON values and messages\<close>

datatype json =
    JNull
  | JBool bool
  | JNum string
  | JStr string
  | JArr "json list"
  | JObj "(string, json) gomap"

text \<open>\<open>message\<close>: a member that is absent is \<open>None\<close> (for \<open>m_method\<close>: empty).\<close>

record message =
  m_id :: "json option"
  m_method :: string
  m_params :: "json option"
  m_result :: "json option"
  m_error :: "json option"

definition jfield :: "json \<Rightarrow> string \<Rightarrow> json option" where
  "jfield j k = (case j of JObj ms \<Rightarrow> gget ms k | _ \<Rightarrow> None)"

text \<open>
  Members read by \<open>json.Unmarshal\<close> into a string, an integer and a struct: absent and \<open>null\<close>
  leave the zero value, another type is an error (\<open>None\<close>). An integer literal is given by its
  value.
\<close>

definition jint :: "(string \<Rightarrow> int option) \<Rightarrow> json option \<Rightarrow> int option" where
  "jint readInt j =
     (case j of None \<Rightarrow> Some 0 | Some JNull \<Rightarrow> Some 0 | Some (JNum n) \<Rightarrow> readInt n | _ \<Rightarrow> None)"

definition jstr :: "json option \<Rightarrow> string option" where
  "jstr j = (case j of None \<Rightarrow> Some '''' | Some JNull \<Rightarrow> Some '''' | Some (JStr s) \<Rightarrow> Some s | _ \<Rightarrow> None)"

definition objOf :: "json option \<Rightarrow> (string, json) gomap option" where
  "objOf j = (case j of None \<Rightarrow> Some [] | Some JNull \<Rightarrow> Some [] | Some (JObj ms) \<Rightarrow> Some ms | _ \<Rightarrow> None)"

definition docURI :: "json option \<Rightarrow> string" where
  "docURI params =
     (case params of None \<Rightarrow> ''''
      | Some p \<Rightarrow>
          (case jfield p ''textDocument'' of None \<Rightarrow> ''''
           | Some td \<Rightarrow> (case jfield td ''uri'' of Some (JStr u) \<Rightarrow> u | _ \<Rightarrow> '''')))"

section \<open>Settings\<close>

definition optionDirectoryFilters :: string where
  "optionDirectoryFilters = ''directoryFilters''"

definition stripUserFilters :: "(string, json) gomap \<Rightarrow> (string, json) gomap" where
  "stripUserFilters settings =
     (let kept = filter (\<lambda>(k, v). \<not> (k = optionDirectoryFilters \<or>
                   hasSuffix k (''.'' @ optionDirectoryFilters))) settings
      in case gget kept ''build'' of
           Some (JObj build) \<Rightarrow> gput ''build'' (JObj (gdel optionDirectoryFilters build)) kept
         | _ \<Rightarrow> kept)"

definition setFilters :: "(string, json) gomap \<Rightarrow> string list \<Rightarrow> (string, json) gomap" where
  "setFilters settings filters = gput optionDirectoryFilters (JArr (map JStr filters)) settings"

text \<open>\<open>cloneMap\<close>: a deep copy; \<open>None\<close> is the nil map.\<close>

definition cloneMap :: "(string, json) gomap option \<Rightarrow> (string, json) gomap" where
  "cloneMap m = (case m of None \<Rightarrow> [] | Some ms \<Rightarrow> ms)"

text \<open>
  The values gopls may take for the option: under a key whose last dotted segment names it,
  or inside the \<open>build\<close> section.
\<close>

definition namesFilters :: "string \<Rightarrow> bool" where
  "namesFilters k \<longleftrightarrow> last (splitOn CHR ''.'' k) = optionDirectoryFilters"

definition filterValues :: "(string, json) gomap \<Rightarrow> json set" where
  "filterValues settings =
     {v. \<exists>k. gget settings k = Some v \<and> namesFilters k} \<union>
     {v. \<exists>build. gget settings ''build'' = Some (JObj build) \<and>
         gget build optionDirectoryFilters = Some v}"

section \<open>State\<close>

text \<open>
  What the workers start from: the parameters of \<open>initialize\<close> and the editor's settings,
  both without filters.
\<close>

record configState = scopeState +
  p_workerInit :: "json option"
  p_workerConfig :: "json list"

section \<open>Configuration answers\<close>

text \<open>
  \<open>patchConfigResponse\<close>, in its two critical sections: the settings for the workers are
  stored, then the filters of the moment are put into every item. \<open>configItems\<close> is the
  result of unmarshalling the answer into a slice (\<open>null\<close> gives the nil slice).
\<close>

definition configItems :: "message \<Rightarrow> json list option" where
  "configItems m =
     (case m_result m of Some (JArr items) \<Rightarrow> Some items | Some JNull \<Rightarrow> Some [] | _ \<Rightarrow> None)"

definition stripItem :: "json \<Rightarrow> json" where
  "stripItem it = (case it of JObj settings \<Rightarrow> JObj (stripUserFilters settings) | _ \<Rightarrow> it)"

definition patchItem :: "string list \<Rightarrow> json \<Rightarrow> json" where
  "patchItem fs it =
     JObj (setFilters (case stripItem it of JObj settings \<Rightarrow> settings | _ \<Rightarrow> []) fs)"

definition storeWorkerConfig :: "message \<Rightarrow> 'a configState_scheme \<Rightarrow> 'a configState_scheme" where
  "storeWorkerConfig m st =
     (case configItems m of None \<Rightarrow> st | Some items \<Rightarrow> st\<lparr>p_workerConfig := map stripItem items\<rparr>)"

definition patchedResponse :: "string list \<Rightarrow> message \<Rightarrow> message" where
  "patchedResponse fs m =
     (case configItems m of
        None \<Rightarrow> m
      | Some items \<Rightarrow>
          m\<lparr>m_result := Some (if m_result m = Some JNull then JNull else JArr (map (patchItem fs) items))\<rparr>)"

definition patchConfigResponse ::
  "message \<Rightarrow> 'a configState_scheme \<Rightarrow> message \<times> 'a configState_scheme" where
  "patchConfigResponse m st =
     (let st' = storeWorkerConfig m st in (patchedResponse (filtersLocked st') m, st'))"

section \<open>The initialize request\<close>

definition nonEmptyURI :: "json option \<Rightarrow> string" where
  "nonEmptyURI j = (case j of Some (JStr u) \<Rightarrow> u | _ \<Rightarrow> '''')"

definition initRoot :: "(string \<Rightarrow> bool) \<Rightarrow> (string, json) gomap \<Rightarrow> string" where
  "initRoot hostOk params =
     (let uri = nonEmptyURI (gget params ''rootUri'')
      in if uri \<noteq> '''' then uriToPath hostOk uri
         else (case gget params ''workspaceFolders'' of
                 Some (JArr (f # fs)) \<Rightarrow>
                   (let uri = nonEmptyURI (jfield f ''uri'')
                    in if uri \<noteq> '''' then uriToPath hostOk uri else '''')
               | _ \<Rightarrow> ''''))"

text \<open>
  \<open>patchInitialize\<close>. The value \<open>None\<close> is a panic: for the parameters \<open>null\<close> the map stays
  nil and the assignment to it stops the process. \<open>saved\<close> reads the scope file of a root.
\<close>

definition patchInitialize ::
  "(string \<Rightarrow> bool) \<Rightarrow> fileSystem \<Rightarrow> int \<Rightarrow> (string \<Rightarrow> string list option)
   \<Rightarrow> message \<Rightarrow> 'a configState_scheme \<Rightarrow> (message \<times> 'a configState_scheme) option" where
  "patchInitialize hostOk stat now saved m st =
     (case m_params m of
        Some JNull \<Rightarrow> None
      | Some (JObj params) \<Rightarrow>
          (let root = initRoot hostOk params;
               st1 = st\<lparr>p_root := root\<rparr>;
               st2 = (if root \<noteq> '''' then restoreScope stat now root (saved root) st1 else st1);
               opts = stripUserFilters (case gget params ''initializationOptions'' of
                        Some (JObj o') \<Rightarrow> o' | _ \<Rightarrow> []);
               workerParams = gput ''initializationOptions'' (JObj (cloneMap (Some opts)))
                                (cloneMap (Some params));
               st3 = st2\<lparr>p_workerInit := Some (JObj workerParams)\<rparr>;
               st4 = stampScopeGenLocked st3;
               st5 = advanceAppliedLocked (p_scopeGen st4) st4;
               params' = gput ''initializationOptions''
                           (JObj (setFilters opts (filtersLocked st5))) params
           in Some (m\<lparr>m_params := Some (JObj params')\<rparr>, st5))
      | _ \<Rightarrow> Some (m, st))"

section \<open>What gopls reads\<close>

definition jstring :: "json \<Rightarrow> string" where
  "jstring j = (case j of JStr s \<Rightarrow> s | _ \<Rightarrow> '''')"

definition filtersOf :: "json \<Rightarrow> string list option" where
  "filtersOf settings =
     (case jfield settings optionDirectoryFilters of
        Some (JArr vs) \<Rightarrow> Some (map jstring vs) | _ \<Rightarrow> None)"

text \<open>The filters a message to gopls carries, when it is one of the two that carry any.\<close>

definition sentFilters :: "message \<Rightarrow> string list option" where
  "sentFilters m =
     (if m_method m = ''initialize'' then
        (case m_params m of Some p \<Rightarrow>
           (case jfield p ''initializationOptions'' of Some o' \<Rightarrow> filtersOf o' | None \<Rightarrow> None)
         | None \<Rightarrow> None)
      else if m_method m = '''' then
        (case m_result m of Some (JArr (it # its)) \<Rightarrow> filtersOf it | _ \<Rightarrow> None)
      else None)"

section \<open>Lemmas\<close>

lemma namesFilters_iff:
  "namesFilters k \<longleftrightarrow> k = optionDirectoryFilters \<or> hasSuffix k (''.'' @ optionDirectoryFilters)"
proof
  assume last: "namesFilters k"
  have k: "k = joinWith ''.'' (butlast (splitOn CHR ''.'' k) @ [last (splitOn CHR ''.'' k)])"
    by simp
  show "k = optionDirectoryFilters \<or> hasSuffix k (''.'' @ optionDirectoryFilters)"
  proof (cases "butlast (splitOn CHR ''.'' k) = []")
    case True
    then show ?thesis using k last by (simp add: namesFilters_def)
  next
    case False
    then have "k = joinWith ''.'' (butlast (splitOn CHR ''.'' k)) @ ''.'' @ optionDirectoryFilters"
      using k last joinWith_append [of "butlast (splitOn CHR ''.'' k)" "[optionDirectoryFilters]" "''.''"]
      unfolding namesFilters_def by (metis joinWith.simps(2) not_Cons_self2)
    then show ?thesis unfolding suffix_def by blast
  qed
next
  have "splitOn CHR ''.'' optionDirectoryFilters = [optionDirectoryFilters]"
    by (rule splitOn_free) (simp add: optionDirectoryFilters_def)
  moreover assume "k = optionDirectoryFilters \<or> hasSuffix k (''.'' @ optionDirectoryFilters)"
  ultimately show "namesFilters k"
    by (auto simp: namesFilters_def suffix_def splitOn_sep)
qed

lemma gget_filter_keys: "gget (filter (\<lambda>(k, v). P k) m) k = (if P k then gget m k else None)"
  by (induction m) auto

lemma namesFilters_build: "\<not> namesFilters ''build''"
  by (simp add: namesFilters_iff optionDirectoryFilters_def suffix_def)

lemma strip_kept:
  "(\<not> (k = optionDirectoryFilters \<or> hasSuffix k (''.'' @ optionDirectoryFilters))) = (\<not> namesFilters k)"
  by (simp add: namesFilters_iff)

lemma stripUserFilters_gget:
  "gget (stripUserFilters s) k =
     (if namesFilters k then None
      else if k = ''build'' then map_option (\<lambda>v. case v of
             JObj b \<Rightarrow> JObj (gdel optionDirectoryFilters b) | _ \<Rightarrow> v) (gget s k)
      else gget s k)"
  unfolding stripUserFilters_def strip_kept Let_def gget_filter_keys
  using namesFilters_build
  by (auto simp: gget_filter_keys split: option.splits json.splits)

lemma strip_build:
  "gget (stripUserFilters s) ''build'' = Some (JObj b) \<Longrightarrow> gget b optionDirectoryFilters = None"
proof -
  assume a: "gget (stripUserFilters s) ''build'' = Some (JObj b)"
  then obtain v where "(case v of JObj b' \<Rightarrow> JObj (gdel optionDirectoryFilters b') | _ \<Rightarrow> v) = JObj b"
    by (auto simp: stripUserFilters_gget namesFilters_build)
  then obtain b' where "b = gdel optionDirectoryFilters b'" by (cases v) auto
  then show ?thesis by simp
qed

lemma filterValues_set_strip:
  "filterValues (setFilters (stripUserFilters s) fs) = {JArr (map JStr fs)}"
proof -
  have n: "namesFilters optionDirectoryFilters" by (simp add: namesFilters_iff)
  have b: "optionDirectoryFilters \<noteq> ''build''" by (simp add: optionDirectoryFilters_def)
  show ?thesis
    using n b strip_build [of s] unfolding filterValues_def setFilters_def
    by (auto simp: stripUserFilters_gget split: if_splits)
qed

lemma filtersOf_set [simp]: "filtersOf (JObj (setFilters s fs)) = Some fs"
  by (simp add: filtersOf_def jfield_def setFilters_def jstring_def comp_def)


lemma filtersLocked_frame [simp]:
  "filtersLocked (storeWorkerConfig m st) = filtersLocked st"
  "filtersLocked (advanceAppliedLocked g st) = filtersLocked st"
  "filtersLocked (stampScopeGenLocked st) = filtersLocked st"
  "filtersLocked (st\<lparr>p_root := r\<rparr>) = filtersLocked st"
  "filtersLocked (st'\<lparr>p_workerInit := w\<rparr>) = filtersLocked st'"
  by (simp_all add: filtersLocked_def storeWorkerConfig_def stamp_frame(5) split: option.split
      del: stampScopeGenLocked_def)

lemma gens_ok_root [intro, scope_inv]: "gens_ok st \<Longrightarrow> gens_ok (st\<lparr>p_root := r\<rparr>)"
  by (simp add: gens_ok_def)

lemma storeWorkerConfig_frame [simp]:
  "p_scope (storeWorkerConfig m st) = p_scope st"
  "p_scopeGen (storeWorkerConfig m st) = p_scopeGen st"
  "p_appliedGen (storeWorkerConfig m st) = p_appliedGen st"
  "p_root (storeWorkerConfig m st) = p_root st"
  "configState.more (storeWorkerConfig m st) = configState.more st"
  by (simp_all add: storeWorkerConfig_def split: option.split)

text \<open>A scope all of whose units are published and applied.\<close>

definition allApplied :: "'a scopeState_scheme \<Rightarrow> bool" where
  "allApplied st \<longleftrightarrow>
     (\<forall>u e. gget (p_scope st) u = Some e \<longrightarrow> 0 < e_gen e \<and> e_gen e \<le> p_appliedGen st)"

lemma stamp_advance_applied:
  "gens_ok st \<Longrightarrow>
     allApplied (advanceAppliedLocked (p_scopeGen (stampScopeGenLocked st)) (stampScopeGenLocked st))"
  by (fastforce simp: allApplied_def gens_ok_def)

lemma patchInitialize_obj:
  assumes "m_params m = Some (JObj params)" and "gens_ok st"
  shows "\<exists>m' st' opts ps. patchInitialize hostOk stat now saved m st = Some (m', st') \<and>
    m_params m' = Some (JObj ps) \<and> m_method m' = m_method m \<and> m_id m' = m_id m \<and>
    (\<forall>k. k \<noteq> ''initializationOptions'' \<longrightarrow> gget ps k = gget params k) \<and>
    gget ps ''initializationOptions'' =
      Some (JObj (setFilters (stripUserFilters opts) (filtersLocked st'))) \<and>
    opts = (case gget params ''initializationOptions'' of Some (JObj o') \<Rightarrow> o' | _ \<Rightarrow> []) \<and>
    p_root st' = initRoot hostOk params \<and> gens_ok st' \<and> allApplied st' \<and>
    p_appliedGen st' = p_scopeGen st'"
proof -
  let ?st2 = "if initRoot hostOk params \<noteq> ''''
    then restoreScope stat now (initRoot hostOk params) (saved (initRoot hostOk params))
      (st\<lparr>p_root := initRoot hostOk params\<rparr>) else st\<lparr>p_root := initRoot hostOk params\<rparr>"
  have ok: "gens_ok (?st2\<lparr>p_workerInit := w\<rparr>)" for w
    using gens_ok_restore [OF gens_ok_root [OF assms(2)]] gens_ok_root [OF assms(2)]
    by (simp add: gens_ok_def)
  show ?thesis
    using assms(1) ok [THEN stamp_advance_applied] ok
    by (auto simp: patchInitialize_def Let_def intro!: gens_ok_advance gens_ok_stamp)
      (auto simp: gens_ok_def)
qed


text \<open>
  A patched settings item: an object in which the given filters are the only value gopls
  can take, and every other option is the editor's.
\<close>

definition itemPatched :: "string list \<Rightarrow> json \<Rightarrow> json \<Rightarrow> bool" where
  "itemPatched fs it it' \<longleftrightarrow>
     (\<exists>settings. it' = JObj settings \<and> filterValues settings = {JArr (map JStr fs)} \<and>
        (\<forall>orig k. it = JObj orig \<longrightarrow> \<not> namesFilters k \<longrightarrow> k \<noteq> ''build'' \<longrightarrow>
           gget settings k = gget orig k))"

lemma patchItem_eq:
  "patchItem fs it = JObj (setFilters (stripUserFilters (case it of JObj s \<Rightarrow> s | _ \<Rightarrow> [])) fs)"
  by (cases it) (simp_all add: patchItem_def stripItem_def stripUserFilters_def)

lemma filtersOf_patchItem [simp]: "filtersOf (patchItem fs it) = Some fs"
  by (simp add: patchItem_eq)

lemma patchItem_patched: "itemPatched fs it (patchItem fs it)"
proof -
  have "gget (setFilters (stripUserFilters s) fs) k = gget s k"
    if "\<not> namesFilters k" and "k \<noteq> ''build''" for s k
    using that by (auto simp: setFilters_def stripUserFilters_gget namesFilters_iff)
  then show ?thesis
    unfolding itemPatched_def patchItem_eq using filterValues_set_strip by simp
qed

section \<open>Properties\<close>


text \<open>An editor that spells the option with its section, and a second item without settings.\<close>

definition exampleAnswer :: message where
  "exampleAnswer =
     \<lparr>m_id = Some (JNum ''7''), m_method = '''', m_params = None,
      m_result = Some (JArr [JObj [(''build.directoryFilters'', JArr [JStr ''-x'']),
                                   (''staticcheck'', JBool True)], JNull]), m_error = None\<rparr>"

definition exampleState :: configState where
  "exampleState =
     \<lparr>p_root = ''/ws'', p_scope = p_scope twoUnits, p_scopeGen = 3, p_appliedGen = 2, p_appliedCh = None, p_chanCount = 0, p_closedChs = {},
      p_workerInit = None, p_workerConfig = []\<rparr>"


text \<open>the first filters ride the \<open>initialize\<close> request. The patched request keeps
  every parameter but the options, in which the filters of the scope (with the restored units)
  are the only ones gopls can see; the state left behind has the root of the request and
  counts every unit of that scope as published and applied.\<close>

theorem patchInitialize_correct:
  assumes "m_params m = Some (JObj params)" and "gens_ok st"
  shows "\<exists>m' st' ps opts'. patchInitialize hostOk stat now saved m st = Some (m', st') \<and>
    m_params m' = Some (JObj ps) \<and>
    (\<forall>k. k \<noteq> ''initializationOptions'' \<longrightarrow> gget ps k = gget params k) \<and>
    gget ps ''initializationOptions'' = Some (JObj opts') \<and>
    filterValues opts' = {JArr (map JStr (filtersLocked st'))} \<and>
    p_root st' = initRoot hostOk params \<and> gens_ok st' \<and>
    (\<forall>u e. gget (p_scope st') u = Some e \<longrightarrow> 0 < e_gen e \<and> e_gen e \<le> p_appliedGen st')"
proof -
  from patchInitialize_obj [OF assms, of hostOk stat now saved]
  obtain m' st' opts ps where *:
    "patchInitialize hostOk stat now saved m st = Some (m', st')" "m_params m' = Some (JObj ps)"
    "\<forall>k. k \<noteq> ''initializationOptions'' \<longrightarrow> gget ps k = gget params k"
    "gget ps ''initializationOptions'' =
       Some (JObj (setFilters (stripUserFilters opts) (filtersLocked st')))"
    "p_root st' = initRoot hostOk params" "gens_ok st'" "allApplied st'"
    by blast
  show ?thesis
    by (rule exI [of _ m'], rule exI [of _ st'], rule exI [of _ ps],
        rule exI [of _ "setFilters (stripUserFilters opts) (filtersLocked st')"])
      (use * filterValues_set_strip in \<open>simp add: allApplied_def\<close>)
qed

theorem patchInitialize_correct_witness:
  "\<exists>m' st' ps opts'. patchInitialize (\<lambda>h. False) worktreeFs 0 (\<lambda>r. Some [''.''])
      \<lparr>m_id = Some (JNum ''1''), m_method = ''initialize'',
       m_params = Some (JObj [(''rootUri'', JStr ''file:///ws'')]), m_result = None, m_error = None\<rparr>
      \<lparr>p_root = '''', p_scope = [], p_scopeGen = 0, p_appliedGen = 0, p_appliedCh = None, p_chanCount = 0, p_closedChs = {},
       p_workerInit = None, p_workerConfig = []\<rparr> = Some (m', st') \<and>
    m_params m' = Some (JObj ps) \<and>
    (\<forall>k. k \<noteq> ''initializationOptions'' \<longrightarrow> gget ps k = gget [(''rootUri'', JStr ''file:///ws'')] k) \<and>
    gget ps ''initializationOptions'' = Some (JObj opts') \<and>
    filterValues opts' = {JArr (map JStr (filtersLocked st'))} \<and>
    p_root st' = initRoot (\<lambda>h. False) [(''rootUri'', JStr ''file:///ws'')] \<and> gens_ok st' \<and>
    (\<forall>u e. gget (p_scope st') u = Some e \<longrightarrow> 0 < e_gen e \<and> e_gen e \<le> p_appliedGen st')"
  by (rule patchInitialize_correct) (simp_all add: gens_ok_def wf_map_def)

text \<open>the user's filters never reach a worker. The parameters kept for the workers by
  \<open>patchInitialize\<close> and the settings kept by \<open>patchConfigResponse\<close> contain no value gopls
  could take for \<open>directoryFilters\<close>.\<close>

theorem worker_settings_unfiltered:
  assumes "m_result m = Some (JArr items)"
  shows "list_all2 (\<lambda>it kept. (\<forall>settings. kept = JObj settings \<longrightarrow> filterValues settings = {}) \<and>
      ((\<exists>orig. it = JObj orig) \<longleftrightarrow> (\<exists>settings. kept = JObj settings)))
    items (p_workerConfig (snd (patchConfigResponse m st)))"
proof -
  have strip: "filterValues (stripUserFilters s) = {}" for s
    using strip_build [of s] by (auto simp: filterValues_def stripUserFilters_gget)
  have "p_workerConfig (snd (patchConfigResponse m st)) = map stripItem items"
    using assms by (simp add: patchConfigResponse_def storeWorkerConfig_def configItems_def Let_def)
  then show ?thesis
    using strip by (simp add: list_all2_conv_all_nth stripItem_def split: json.split)
qed

theorem worker_settings_unfiltered_witness:
  "list_all2 (\<lambda>it kept. (\<forall>settings. kept = JObj settings \<longrightarrow> filterValues settings = {}) \<and>
      ((\<exists>orig. it = JObj orig) \<longleftrightarrow> (\<exists>settings. kept = JObj settings)))
    [JObj [(''build'', JObj [(''directoryFilters'', JArr [])])]]
    (p_workerConfig (snd (patchConfigResponse
      \<lparr>m_id = None, m_method = '''', m_params = None,
       m_result = Some (JArr [JObj [(''build'', JObj [(''directoryFilters'', JArr [])])]]),
       m_error = None\<rparr>
      \<lparr>p_root = ''/w'', p_scope = [], p_scopeGen = 3, p_appliedGen = 2, p_appliedCh = None, p_chanCount = 0, p_closedChs = {},
       p_workerInit = None, p_workerConfig = []\<rparr>)))"
  by (rule worker_settings_unfiltered) simp

end
