(* ===== verification/Barrier.thy ===== *)
theory Barrier
  imports Config
begin

text \<open>
  The configuration barrier (\<open>scope.go\<close>) and the scope lifecycle that feeds it
  (\<open>proxy.go\<close>): opening and closing documents, the two-stage rescope, eviction of idle
  units, \<open>pushScope\<close>, the pulls of gopls, the answers of the editor and the timed
  fallback. Every function body that runs under the mutex is one step; the handling of a
  configuration answer, which releases the mutex between its parts, is a sequence of steps that
  the other goroutines interleave with.
\<close>

section \<open>State\<close>

text \<open>
  The rest of the \<open>proxy\<close> struct that the barrier uses. \<open>p_rescopeTimer\<close>: a rescope is
  scheduled. \<open>p_toServer\<close>: the messages written to gopls, oldest first.
\<close>

record proxyState = configState +
  p_configIDs :: "json set"
  p_configGens :: "(json, nat) gomap"
  p_sawConfigPull :: bool
  p_pendingDiag :: "string set"
  p_rescopeTimer :: bool
  p_toServer :: "message list"

text \<open>What the proxy is configured with and reads from outside: see \<open>uriToPath\<close>, \<open>unitFor\<close>.\<close>

record proxyEnv =
  env_hostOk :: "string \<Rightarrow> bool"
  env_rootFor :: "string \<Rightarrow> string \<Rightarrow> string"
  env_granularity :: nat

definition writeServer :: "message \<Rightarrow> 'a proxyState_scheme \<Rightarrow> 'a proxyState_scheme" where
  "writeServer m st = st\<lparr>p_toServer := p_toServer st @ [m]\<rparr>"

section \<open>Documents and diagnostics\<close>

definition unitForURI :: "proxyEnv \<Rightarrow> string \<Rightarrow> 'a proxyState_scheme \<Rightarrow> string option" where
  "unitForURI en uri st =
     unitFor (env_rootFor en) (env_granularity en) (p_root st) (uriToPath (env_hostOk en) uri)"

definition observeOpen ::
  "proxyEnv \<Rightarrow> int \<Rightarrow> json option \<Rightarrow> 'a proxyState_scheme \<Rightarrow> 'a proxyState_scheme" where
  "observeOpen en now params st =
     (let uri = docURI params; path = uriToPath (env_hostOk en) uri
      in if \<not> hasSuffix path ''.go'' then st
         else
           (case unitForURI en uri st of
              None \<Rightarrow> st
            | Some unit \<Rightarrow>
                (case gget (p_scope st) unit of
                   Some e \<Rightarrow>
                     st\<lparr>p_scope := gput unit
                          (e\<lparr>e_open := insert uri (e_open e), e_lastActive := now\<rparr>) (p_scope st)\<rparr>
                 | None \<Rightarrow>
                     let wasEmpty = (p_scope st = []);
                         st' = st\<lparr>p_scope := gput unit
                                 ((freshEntry now)\<lparr>e_open := {uri}\<rparr>) (p_scope st)\<rparr>
                     in if wasEmpty then st'\<lparr>p_rescopeTimer := True\<rparr>
                        else st'\<lparr>p_pendingDiag := insert uri (p_pendingDiag st')\<rparr>)))"

definition observeClose ::
  "proxyEnv \<Rightarrow> int \<Rightarrow> json option \<Rightarrow> 'a proxyState_scheme \<Rightarrow> 'a proxyState_scheme" where
  "observeClose en now params st =
     (let uri = docURI params
      in case unitForURI en uri st of
           None \<Rightarrow> st
         | Some unit \<Rightarrow>
             (case gget (p_scope st) unit of
                None \<Rightarrow> st
              | Some e \<Rightarrow>
                  st\<lparr>p_scope := gput unit
                       (e\<lparr>e_open := e_open e - {uri}, e_lastActive := now\<rparr>) (p_scope st)\<rparr>))"

text \<open>\<open>diagArrived\<close>, also called by the timer that replaces missing diagnostics.\<close>

definition diagArrived :: "string \<Rightarrow> 'a proxyState_scheme \<Rightarrow> 'a proxyState_scheme" where
  "diagArrived uri st =
     (if uri \<notin> p_pendingDiag st then st
      else st\<lparr>p_pendingDiag := p_pendingDiag st - {uri}, p_rescopeTimer := True\<rparr>)"

definition onDiagnostics :: "json option \<Rightarrow> 'a proxyState_scheme \<Rightarrow> 'a proxyState_scheme" where
  "onDiagnostics params st =
     (case params of
        Some (JObj ps) \<Rightarrow>
          (case gget ps ''uri'' of
             Some (JStr uri) \<Rightarrow> diagArrived uri st
           | Some JNull \<Rightarrow> diagArrived '''' st
           | Some _ \<Rightarrow> st
           | None \<Rightarrow> diagArrived '''' st)
      | Some JNull \<Rightarrow> diagArrived '''' st
      | _ \<Rightarrow> st)"

section \<open>Publishing\<close>

text \<open>
  \<open>pushScope\<close>: stamp the scope and tell gopls that its configuration changed. The result is
  the new generation; the timer armed for it is \<open>fallbackTick\<close>.
\<close>

definition didChangeConfiguration :: message where
  "didChangeConfiguration =
     \<lparr>m_id = None, m_method = ''workspace/didChangeConfiguration'',
      m_params = Some (JObj [(''settings'', JObj [])]), m_result = None, m_error = None\<rparr>"

definition pushScope :: "'a proxyState_scheme \<Rightarrow> nat \<times> 'a proxyState_scheme" where
  "pushScope st =
     (let st' = stampScopeGenLocked st
      in (p_scopeGen st', writeServer didChangeConfiguration st'))"

text \<open>The rescope timer fires.\<close>

definition rescopeFires :: "'a proxyState_scheme \<Rightarrow> 'a proxyState_scheme" where
  "rescopeFires st = snd (pushScope (st\<lparr>p_rescopeTimer := False\<rparr>))"

definition evictIdleUnits :: "int \<Rightarrow> int \<Rightarrow> 'a proxyState_scheme \<Rightarrow> 'a proxyState_scheme" where
  "evictIdleUnits ttl now st =
     (let idle = (\<lambda>(u, e). e_open e = {} \<and> now - e_lastActive e > ttl);
          st' = st\<lparr>p_scope := filter (\<lambda>x. \<not> idle x) (p_scope st)\<rparr>
      in if list_ex idle (p_scope st) then snd (pushScope st') else st')"

section \<open>Pulls and answers\<close>

definition handleServerNotification ::
  "message \<Rightarrow> 'a proxyState_scheme \<Rightarrow> 'a proxyState_scheme" where
  "handleServerNotification m st =
     (if m_method m = ''workspace/configuration'' then
        (case m_id m of
           None \<Rightarrow> st
         | Some i \<Rightarrow>
             st\<lparr>p_configIDs := insert i (p_configIDs st), p_sawConfigPull := True,
                p_configGens := gput i (p_scopeGen st) (p_configGens st)\<rparr>)
      else if m_method m = ''textDocument/publishDiagnostics'' then onDiagnostics (m_params m) st
      else st)"

text \<open>
  \<open>handleClientResponse\<close> in its parts: the request id is taken out of the maps, the answer
  is patched and written, and only then the applied generation advances.
\<close>

definition takeConfigID ::
  "json \<Rightarrow> 'a proxyState_scheme \<Rightarrow> (bool \<times> nat) \<times> 'a proxyState_scheme" where
  "takeConfigID i st =
     ((i \<in> p_configIDs st, case gget (p_configGens st) i of None \<Rightarrow> 0 | Some g \<Rightarrow> g),
      st\<lparr>p_configIDs := p_configIDs st - {i}, p_configGens := gdel i (p_configGens st)\<rparr>)"

definition handleClientResponse ::
  "message \<Rightarrow> 'a proxyState_scheme \<Rightarrow> bool \<times> 'a proxyState_scheme" where
  "handleClientResponse m st =
     (case m_id m of
        None \<Rightarrow> (False, st)
      | Some i \<Rightarrow>
          (let ((isConfig, gen), st1) = takeConfigID i st
           in if \<not> isConfig then (False, st1)
              else
                let (m', st2) = patchConfigResponse m st1
                in (True, advanceAppliedLocked gen (writeServer m' st2))))"

section \<open>Waiting\<close>

text \<open>
  \<open>awaitApplied\<close> and \<open>awaitUnitApplied\<close> look at the state once and again at every wake-up
  before the deadline: the list holds the states they see.
\<close>

fun awaitApplied :: "nat \<Rightarrow> 'a scopeState_scheme list \<Rightarrow> bool" where
  "awaitApplied gen [] = False"
| "awaitApplied gen (st # seen) = (if p_appliedGen st \<ge> gen then True else awaitApplied gen seen)"

definition unitDone :: "string \<Rightarrow> 'a scopeState_scheme \<Rightarrow> bool" where
  "unitDone unit st =
     (case gget (p_scope st) unit of
        None \<Rightarrow> False | Some e \<Rightarrow> e_gen e > 0 \<and> e_gen e \<le> p_appliedGen st)"

fun awaitUnitApplied :: "string \<Rightarrow> 'a scopeState_scheme list \<Rightarrow> bool" where
  "awaitUnitApplied unit [] = False"
| "awaitUnitApplied unit (st # seen) = (if unitDone unit st then True else awaitUnitApplied unit seen)"

text \<open>
  \<open>scheduleAppliedFallback\<close>: what one tick does, with the time \<open>remaining\<close> to the absolute
  deadline; the second result is the delay of the next tick, if there is one.
\<close>

definition fallbackTick ::
  "nat \<Rightarrow> int \<Rightarrow> int \<Rightarrow> 'a proxyState_scheme \<Rightarrow> int option \<times> 'a proxyState_scheme" where
  "fallbackTick gen d remaining st =
     (if p_appliedGen st \<ge> gen then (None, st)
      else if p_sawConfigPull st then
        (if remaining > 0 then (Some (if d > remaining then remaining else d), st)
         else (None, advanceAppliedLocked gen st))
      else (None, advanceAppliedLocked gen st))"

text \<open>\<open>armAppliedFallback\<close>: the delay of the first tick and the cap, zero meaning the default.\<close>

definition armAppliedFallback :: "int \<Rightarrow> int \<Rightarrow> int \<times> int" where
  "armAppliedFallback delay cap =
     (if delay = 0 then 10 else delay, if cap = 0 then 60 else cap)"


section \<open>The interleaving\<close>

text \<open>
  The client pump is one goroutine, which handles one message after the other; while it
  handles a configuration answer it passes through the points below. All other functions run
  in goroutines and timers of their own and interleave with them.
\<close>

datatype clientPc =
    PcIdle
  | PcTaken message nat
  | PcStored message nat
  | PcPatched message nat
  | PcWritten nat

type_synonym sys = "proxyState \<times> clientPc"

text \<open>An answer that gives gopls settings: a non-empty array.\<close>

definition answersPull :: "message \<Rightarrow> bool" where
  "answersPull m \<longleftrightarrow> m_method m = '''' \<and> (\<exists>it its. m_result m = Some (JArr (it # its)))"

text \<open>
  A strict run is one in which the editor answers every pull with settings and no fallback
  timer has to assume that an unconfirmed generation is applied.
\<close>

inductive step :: "proxyEnv \<Rightarrow> bool \<Rightarrow> sys \<Rightarrow> sys \<Rightarrow> bool" for en strict where
  s_open: "step en strict (p, PcIdle) (observeOpen en now params p, PcIdle)"
| s_close: "step en strict (p, PcIdle) (observeClose en now params p, PcIdle)"
| s_forward: "sentFilters m = None \<Longrightarrow> step en strict (p, pc) (writeServer m p, pc)"
| s_take: "m_id m = Some i \<Longrightarrow> takeConfigID i p = ((True, g), p') \<Longrightarrow> (strict \<longrightarrow> answersPull m) \<Longrightarrow>
    step en strict (p, PcIdle) (p', PcTaken m g)"
| s_other: "m_id (m :: message) = Some i \<Longrightarrow> takeConfigID i p = ((False, g), p') \<Longrightarrow>
    step en strict (p, PcIdle) (p', PcIdle)"
| s_store: "step en strict (p, PcTaken m g) (storeWorkerConfig m p, PcStored m g)"
| s_patch: "step en strict (p, PcStored m g) (p, PcPatched (patchedResponse (filtersLocked p) m) g)"
| s_write: "step en strict (p, PcPatched m g) (writeServer m p, PcWritten g)"
| s_advance: "step en strict (p, PcWritten g) (advanceAppliedLocked g p, PcIdle)"
| s_server: "step en strict (p, pc) (handleServerNotification m p, pc)"
| s_rescope: "p_rescopeTimer p \<Longrightarrow> step en strict (p, pc) (rescopeFires p, pc)"
| s_diagTimeout: "step en strict (p, pc) (diagArrived uri p, pc)"
| s_evict: "step en strict (p, pc) (evictIdleUnits ttl now p, pc)"
| s_ensure: "step en strict (p, pc) (snd (ensureUnitsLocked now us p), pc)"
| s_push: "step en strict (p, pc) (snd (pushScope p), pc)"
| s_wait: "step en strict (p, pc) (snd (appliedChLocked p), pc)"
| s_fallback: "g \<le> p_scopeGen p \<Longrightarrow> (strict \<longrightarrow> p_appliedGen (snd (fallbackTick g d r p)) = p_appliedGen p) \<Longrightarrow>
    step en strict (p, pc) (snd (fallbackTick g d r p), pc)"

definition freshProxy :: proxyState where
  "freshProxy =
     \<lparr>p_root = '''', p_scope = [], p_scopeGen = 0, p_appliedGen = 0, p_appliedCh = None,
      p_chanCount = 0, p_closedChs = {}, p_workerInit = None, p_workerConfig = [],
      p_configIDs = {}, p_configGens = [], p_sawConfigPull = False, p_pendingDiag = {},
      p_rescopeTimer = False, p_toServer = []\<rparr>"

text \<open>The session starts with the \<open>initialize\<close> request.\<close>

inductive sessionReachable :: "proxyEnv \<Rightarrow> bool \<Rightarrow> sys \<Rightarrow> bool" for en strict where
  start: "m_method m = ''initialize'' \<Longrightarrow> m_params m = Some (JObj params) \<Longrightarrow>
    patchInitialize (env_hostOk en) stat now saved m freshProxy = Some (m', p) \<Longrightarrow>
    sessionReachable en strict (writeServer m' p, PcIdle)"
| later: "sessionReachable en strict s \<Longrightarrow> step en strict s s' \<Longrightarrow> sessionReachable en strict s'"

text \<open>The filters gopls was given last.\<close>

definition lastFilters :: "message list \<Rightarrow> string list" where
  "lastFilters ms =
     foldl (\<lambda>fs m. case sentFilters m of None \<Rightarrow> fs | Some fs' \<Rightarrow> fs') [filterExcludeAll] ms"

section \<open>The invariant\<close>

definition evolves :: "'a scopeState_scheme \<Rightarrow> 'a scopeState_scheme \<Rightarrow> bool" where
  "evolves p p' \<longleftrightarrow>
     p_scopeGen p \<le> p_scopeGen p' \<and>
     (\<forall>u e'. gget (p_scope p') u = Some e' \<longrightarrow> 0 < e_gen e' \<longrightarrow> e_gen e' \<le> p_scopeGen p \<longrightarrow>
        (\<exists>e. gget (p_scope p) u = Some e \<and> e_gen e = e_gen e'))"

definition covered :: "string list \<Rightarrow> nat \<Rightarrow> 'a scopeState_scheme \<Rightarrow> bool" where
  "covered fs g p \<longleftrightarrow>
     (\<forall>u e. gget (p_scope p) u = Some e \<longrightarrow> 0 < e_gen e \<longrightarrow> e_gen e \<le> g \<longrightarrow> admits fs u)"

definition pulls_ok :: "'a proxyState_scheme \<Rightarrow> bool" where
  "pulls_ok p \<longleftrightarrow>
     (\<forall>i g. gget (p_configGens p) i = Some g \<longrightarrow> g \<le> p_scopeGen p) \<and>
     (p_configIDs p \<noteq> {} \<longrightarrow> p_sawConfigPull p)"

lemma covered_evolves:
  "covered fs g p \<Longrightarrow> evolves p p' \<Longrightarrow> g \<le> p_scopeGen p \<Longrightarrow> covered fs g p'"
  unfolding covered_def evolves_def by fastforce

lemma covered_mono: "covered fs g p \<Longrightarrow> h \<le> g \<Longrightarrow> covered fs h p"
  unfolding covered_def by fastforce

lemma covered_filtersLocked: "covered (filtersLocked p) g p"
  by (simp add: covered_def filtersLocked_admits)

lemma lastFilters_snoc [simp]:
  "lastFilters (ms @ [m]) = (case sentFilters m of None \<Rightarrow> lastFilters ms | Some fs \<Rightarrow> fs)"
  unfolding lastFilters_def by (cases "sentFilters m") simp_all

text \<open>A step of another goroutine: nothing is delivered and no generation is applied.\<close>

definition quiet :: "proxyState \<Rightarrow> proxyState \<Rightarrow> bool" where
  "quiet p p' \<longleftrightarrow>
     evolves p p' \<and> p_appliedGen p' = p_appliedGen p \<and> (gens_ok p \<longrightarrow> gens_ok p') \<and>
     (pulls_ok p \<longrightarrow> pulls_ok p') \<and> lastFilters (p_toServer p') = lastFilters (p_toServer p)"

lemma evolves_trans: "evolves p q \<Longrightarrow> evolves q r \<Longrightarrow> evolves p r"
  unfolding evolves_def by fastforce

lemma quiet_refl [simp]: "quiet p p"
  by (auto simp: quiet_def evolves_def)

lemma quiet_trans: "quiet p q \<Longrightarrow> quiet q r \<Longrightarrow> quiet p r"
  unfolding quiet_def using evolves_trans by auto

text \<open>Changing only fields outside the scope, or only what an entry holds beside its generation.\<close>

lemma quiet_scope:
  assumes "p_scopeGen p' = p_scopeGen p" and "p_appliedGen p' = p_appliedGen p"
    and "p_configIDs p' = p_configIDs p" and "p_configGens p' = p_configGens p"
    and "p_sawConfigPull p' = p_sawConfigPull p" and "p_toServer p' = p_toServer p"
    and "wf_map (p_scope p) \<Longrightarrow> wf_map (p_scope p')"
    and "\<And>u e'. gget (p_scope p') u = Some e' \<Longrightarrow> wf_map (p_scope p) \<Longrightarrow>
       e_gen e' = 0 \<or> (\<exists>e. gget (p_scope p) u = Some e \<and> e_gen e = e_gen e')"
    and "wf_map (p_scope p)"
  shows "quiet p p'"
proof -
  have "e_gen e' \<le> p_scopeGen p" if "gens_ok p" "gget (p_scope p') u = Some e'" for u e'
    using assms(8) [OF that(2) assms(9)] that(1) by (fastforce simp: gens_ok_def)
  then have "gens_ok p \<longrightarrow> gens_ok p'"
    using assms(1,2,7,9) unfolding gens_ok_def by simp
  moreover have "evolves p p'"
    using assms(1) assms(8) [OF _ assms(9)] unfolding evolves_def by fastforce
  ultimately show ?thesis
    using assms(1-6) by (simp add: quiet_def pulls_ok_def)
qed


lemma wf_map_single: "wf_map [(k, v)]"
  by (simp add: wf_map_def)

lemma quiet_open: "wf_map (p_scope p) \<Longrightarrow> quiet p (observeOpen en now params p)"
  by (rule quiet_scope)
    (auto simp: observeOpen_def wf_map_single freshEntry_def Let_def split: option.splits if_splits)

lemma quiet_close: "wf_map (p_scope p) \<Longrightarrow> quiet p (observeClose en now params p)"
  by (rule quiet_scope) (auto simp: observeClose_def Let_def split: option.splits if_splits)

lemma quiet_forward: "wf_map (p_scope p) \<Longrightarrow> sentFilters m = None \<Longrightarrow> quiet p (writeServer m p)"
  by (simp add: writeServer_def quiet_def evolves_def gens_ok_def pulls_ok_def)

lemma quiet_stamp: "gens_ok p \<Longrightarrow> quiet p (stampScopeGenLocked p)"
proof -
  assume ok: "gens_ok p"
  have "evolves p (stampScopeGenLocked p)"
    by (auto simp: evolves_def split: if_splits)
  moreover have "p_configIDs (stampScopeGenLocked p) = p_configIDs p"
    "p_configGens (stampScopeGenLocked p) = p_configGens p"
    "p_sawConfigPull (stampScopeGenLocked p) = p_sawConfigPull p"
    "p_toServer (stampScopeGenLocked p) = p_toServer p"
    by (simp_all add: stampScopeGenLocked_def Let_def)
  ultimately show ?thesis
    using gens_ok_stamp [OF ok] by (auto simp: quiet_def pulls_ok_def le_SucI)
qed

lemma sentFilters_note [simp]: "sentFilters didChangeConfiguration = None"
  by (simp add: sentFilters_def didChangeConfiguration_def)

lemma quiet_push: "gens_ok p \<Longrightarrow> quiet p (snd (pushScope p))"
proof -
  assume ok: "gens_ok p"
  then have "wf_map (p_scope (stampScopeGenLocked p))" by (simp add: gens_ok_def)
  then show ?thesis
    unfolding pushScope_def Let_def
    using quiet_trans [OF quiet_stamp [OF ok] quiet_forward] by simp
qed

lemma quiet_rescope: "gens_ok p \<Longrightarrow> quiet p (rescopeFires p)"
proof -
  assume ok: "gens_ok p"
  have "quiet p (p\<lparr>p_rescopeTimer := False\<rparr>)"
    using ok by (intro quiet_scope) (auto simp: gens_ok_def)
  moreover have "gens_ok (p\<lparr>p_rescopeTimer := False\<rparr>)" using ok by (simp add: gens_ok_def)
  ultimately show ?thesis
    unfolding rescopeFires_def using quiet_push quiet_trans by blast
qed

lemma quiet_diag: "wf_map (p_scope p) \<Longrightarrow> quiet p (diagArrived uri p)"
  by (rule quiet_scope; cases "uri \<in> p_pendingDiag p") (auto simp: diagArrived_def)

lemma quiet_server: "wf_map (p_scope p) \<Longrightarrow> quiet p (handleServerNotification m p)"
proof (cases "m_method m = ''workspace/configuration''")
  case True
  then show ?thesis
    by (auto simp: handleServerNotification_def quiet_def evolves_def gens_ok_def pulls_ok_def
        split: option.split)
next
  case False
  assume wf: "wf_map (p_scope p)"
  from quiet_diag [OF wf] show ?thesis
    using False by (simp add: handleServerNotification_def onDiagnostics_def
        split: option.split json.split)
qed

lemma quiet_evict: "gens_ok p \<Longrightarrow> quiet p (evictIdleUnits ttl now p)"
proof -
  assume ok: "gens_ok p"
  let ?keep = "\<lambda>u e. \<not> (e_open e = {} \<and> now - e_lastActive e > ttl)"
  let ?q = "p\<lparr>p_scope := filter (\<lambda>(u, e). ?keep u e) (p_scope p)\<rparr>"
  have wf: "wf_map (p_scope p)" using ok by (simp add: gens_ok_def)
  then have q: "quiet p ?q"
    by (intro quiet_scope) (auto simp: gget_filter wf_map_filter split: option.splits if_splits)
  then have "gens_ok ?q" using ok by (simp add: quiet_def)
  then have push: "quiet p (snd (pushScope ?q))" by (rule quiet_trans [OF q quiet_push])
  have "evictIdleUnits ttl now p = (if list_ex (\<lambda>(u, e). \<not> ?keep u e) (p_scope p)
      then snd (pushScope ?q) else ?q)"
    unfolding evictIdleUnits_def Let_def case_prod_unfold by (simp only: not_not)
  then show ?thesis using q push by simp
qed

lemma quiet_ensure: "gens_ok p \<Longrightarrow> quiet p (snd (ensureUnitsLocked now us p))"
proof -
  assume ok: "gens_ok p"
  have more: "p_configIDs (snd (ensureUnitsLocked now us p)) = p_configIDs p"
    "p_configGens (snd (ensureUnitsLocked now us p)) = p_configGens p"
    "p_sawConfigPull (snd (ensureUnitsLocked now us p)) = p_sawConfigPull p"
    "p_toServer (snd (ensureUnitsLocked now us p)) = p_toServer p"
    by (simp_all add: ensureUnitsLocked_def split: prod.split)
  show ?thesis
    using ok more
    by (intro quiet_scope) (auto simp: gens_ok_def freshEntry_def split: option.splits if_splits)
qed

lemma quiet_wait: "wf_map (p_scope p) \<Longrightarrow> quiet p (snd (appliedChLocked p))"
  by (rule quiet_scope) (auto simp: appliedChLocked_def split: option.splits)

lemma quiet_store: "wf_map (p_scope p) \<Longrightarrow> quiet p (storeWorkerConfig m p)"
  by (rule quiet_scope) (auto simp: storeWorkerConfig_def split: option.splits)

lemma quiet_take:
  "wf_map (p_scope p) \<Longrightarrow> takeConfigID i p = (r, p') \<Longrightarrow> quiet p p'"
  by (auto simp: takeConfigID_def quiet_def evolves_def gens_ok_def pulls_ok_def split: if_splits)

lemma fallback_cases:
  "snd (fallbackTick g d r p) = p \<or> snd (fallbackTick g d r p) = advanceAppliedLocked g p"
  by (simp add: fallbackTick_def)


lemma writeServer_frame [simp]:
  "p_scope (writeServer m p) = p_scope p" "p_scopeGen (writeServer m p) = p_scopeGen p"
  "p_appliedGen (writeServer m p) = p_appliedGen p" "p_root (writeServer m p) = p_root p"
  "p_configIDs (writeServer m p) = p_configIDs p" "p_configGens (writeServer m p) = p_configGens p"
  "p_sawConfigPull (writeServer m p) = p_sawConfigPull p"
  "p_toServer (writeServer m p) = p_toServer p @ [m]"
  by (simp_all add: writeServer_def)

lemma advance_proxy_frame [simp]:
  "p_configIDs (advanceAppliedLocked g p) = p_configIDs p"
  "p_configGens (advanceAppliedLocked g p) = p_configGens p"
  "p_sawConfigPull (advanceAppliedLocked g p) = p_sawConfigPull p"
  "p_toServer (advanceAppliedLocked g p) = p_toServer p"
  by (simp_all add: advanceAppliedLocked_def Let_def split: option.split)

lemma covered_scope: "p_scope p = p_scope q \<Longrightarrow> covered fs g p \<longleftrightarrow> covered fs g q"
  by (simp add: covered_def)

fun pc_ok :: "bool \<Rightarrow> proxyState \<Rightarrow> clientPc \<Rightarrow> bool" where
  "pc_ok strict p PcIdle = True"
| "pc_ok strict p (PcTaken m g) = (g \<le> p_scopeGen p \<and> (strict \<longrightarrow> answersPull m))"
| "pc_ok strict p (PcStored m g) = (g \<le> p_scopeGen p \<and> (strict \<longrightarrow> answersPull m))"
| "pc_ok strict p (PcPatched m g) =
     (g \<le> p_scopeGen p \<and>
      (strict \<longrightarrow> (\<exists>fs. sentFilters m = Some fs \<and> covered fs (max g (p_appliedGen p)) p)))"
| "pc_ok strict p (PcWritten g) =
     (g \<le> p_scopeGen p \<and>
      (strict \<longrightarrow> covered (lastFilters (p_toServer p)) (max g (p_appliedGen p)) p))"

definition sys_inv :: "bool \<Rightarrow> sys \<Rightarrow> bool" where
  "sys_inv strict s \<longleftrightarrow>
     (case s of (p, pc) \<Rightarrow>
        gens_ok p \<and> pulls_ok p \<and> pc_ok strict p pc \<and>
        (strict \<longrightarrow> covered (lastFilters (p_toServer p)) (p_appliedGen p) p))"

lemma pc_ok_quiet:
  assumes "pc_ok strict p pc" and "quiet p p'" and "gens_ok p"
  shows "pc_ok strict p' pc"
proof -
  have "p_scopeGen p \<le> p_scopeGen p'" and ev: "evolves p p'"
    and "p_appliedGen p' = p_appliedGen p" "lastFilters (p_toServer p') = lastFilters (p_toServer p)"
    using assms(2) by (auto simp: quiet_def evolves_def)
  moreover have "covered fs (max g (p_appliedGen p)) p'"
    if "covered fs (max g (p_appliedGen p)) p" and "g \<le> p_scopeGen p" for fs g
    using covered_evolves [OF that(1) ev] that(2) assms(3) by (simp add: gens_ok_def)
  ultimately show ?thesis using assms(1) by (cases pc) auto
qed

lemma sys_inv_quiet: "sys_inv strict (p, pc) \<Longrightarrow> quiet p p' \<Longrightarrow> sys_inv strict (p', pc)"
  using pc_ok_quiet [of strict p pc p'] covered_evolves [of _ "p_appliedGen p" p p']
  by (auto simp: sys_inv_def quiet_def gens_ok_def)

lemma sys_inv_gens: "sys_inv strict (p, pc) \<Longrightarrow> gens_ok p \<and> wf_map (p_scope p)"
  by (simp add: sys_inv_def gens_ok_def)

lemma sentFilters_patched: "answersPull m \<Longrightarrow> sentFilters (patchedResponse fs m) = Some fs"
  by (auto simp: answersPull_def patchedResponse_def configItems_def sentFilters_def)

lemma takeConfigID_gen:
  "takeConfigID i p = ((b, g), p') \<Longrightarrow> pulls_ok p \<Longrightarrow> g \<le> p_scopeGen p \<and> p_scopeGen p' = p_scopeGen p"
  by (auto simp: takeConfigID_def pulls_ok_def split: option.splits)

lemma sys_inv_advance:
  assumes "gens_ok p" and "pulls_ok p" and "g \<le> p_scopeGen p" and "pc_ok strict p pc"
    and "strict \<longrightarrow> covered (lastFilters (p_toServer p)) (max g (p_appliedGen p)) p"
    and "strict \<longrightarrow> pc = PcIdle"
  shows "sys_inv strict (advanceAppliedLocked g p, pc)"
  using assms by (cases pc) (auto simp: sys_inv_def pulls_ok_def covered_def)

lemma sys_inv_step:
  assumes "step en strict s s'" and "sys_inv strict s"
  shows "sys_inv strict s'"
  using assms
proof (induction rule: step.induct)
  case (s_take m i p g p')
  then have ok: "gens_ok p" "pulls_ok p" and wf: "wf_map (p_scope p)"
    by (auto simp: sys_inv_def gens_ok_def)
  have "sys_inv strict (p', PcIdle)"
    using sys_inv_quiet [OF s_take.prems quiet_take [OF wf s_take.hyps(2)]] .
  then show ?case
    using takeConfigID_gen [OF s_take.hyps(2) ok(2)] s_take.hyps(3) by (simp add: sys_inv_def)
next
  case (s_other m i p g p')
  then show ?case
    using sys_inv_quiet [OF s_other.prems quiet_take [OF _ s_other.hyps(2)]]
      sys_inv_gens [OF s_other.prems] by blast
next
  case (s_store p m g)
  then have "sys_inv strict (storeWorkerConfig m p, PcTaken m g)"
    using sys_inv_quiet [OF s_store.prems quiet_store] sys_inv_gens by blast
  then show ?case by (simp add: sys_inv_def)
next
  case (s_patch p m g)
  then show ?case
    using covered_filtersLocked sentFilters_patched [of m "filtersLocked p"]
    by (auto simp: sys_inv_def)
next
  case (s_write p m g)
  then show ?case
    by (auto simp: sys_inv_def gens_ok_def pulls_ok_def
        covered_scope [of "writeServer m p" p] intro: covered_mono)
next
  case (s_advance p g)
  then show ?case by (intro sys_inv_advance) (auto simp: sys_inv_def)
next
  case (s_fallback g p d r pc)
  then have inv: "gens_ok p" "pulls_ok p" "pc_ok strict p pc" by (auto simp: sys_inv_def)
  from fallback_cases [of g d r p] show ?case
  proof
    assume adv: "snd (fallbackTick g d r p) = advanceAppliedLocked g p"
    show ?thesis
    proof (cases strict)
      case True
      then have "advanceAppliedLocked g p = p"
      proof -
        have "p_appliedGen (advanceAppliedLocked g p) = p_appliedGen p"
          using True s_fallback.hyps(2) adv by metis
        then have "g \<le> p_appliedGen p" unfolding appliedGen_advance by linarith
        then show ?thesis by (simp add: advanceAppliedLocked_def)
      qed
      then show ?thesis using s_fallback.prems adv by simp
    next
      case False
      then show ?thesis using inv s_fallback.hyps(1) adv by (simp add: sys_inv_advance)
    qed
  qed (use s_fallback.prems in simp)
qed (blast intro: sys_inv_quiet [OF _ quiet_open] sys_inv_quiet [OF _ quiet_close]
      sys_inv_quiet [OF _ quiet_forward] sys_inv_quiet [OF _ quiet_server]
      sys_inv_quiet [OF _ quiet_rescope] sys_inv_quiet [OF _ quiet_diag]
      sys_inv_quiet [OF _ quiet_evict] sys_inv_quiet [OF _ quiet_ensure]
      sys_inv_quiet [OF _ quiet_push] sys_inv_quiet [OF _ quiet_wait] dest: sys_inv_gens)+


lemma stamp_proxy_frame [simp]:
  "p_configIDs (stampScopeGenLocked p) = p_configIDs p"
  "p_configGens (stampScopeGenLocked p) = p_configGens p"
  "p_sawConfigPull (stampScopeGenLocked p) = p_sawConfigPull p"
  "p_toServer (stampScopeGenLocked p) = p_toServer p"
  by (simp_all add: stampScopeGenLocked_def Let_def)

lemma restore_proxy_frame [simp]:
  "p_configIDs (restoreScope stat now root saved p) = p_configIDs p"
  "p_configGens (restoreScope stat now root saved p) = p_configGens p"
  "p_sawConfigPull (restoreScope stat now root saved p) = p_sawConfigPull p"
  "p_toServer (restoreScope stat now root saved p) = p_toServer p"
  by (simp_all add: restoreScope_def split: option.split)

lemma patchInitialize_proxy_frame:
  assumes "patchInitialize hostOk stat now saved m st = Some (m', p)"
  shows "p_configIDs p = p_configIDs st \<and> p_configGens p = p_configGens st \<and>
    p_sawConfigPull p = p_sawConfigPull st \<and> p_toServer p = p_toServer st"
  using assms
  by (cases "m_params m"; cases "the (m_params m)")
    (auto simp: patchInitialize_def Let_def if_distrib [of p_configIDs] if_distrib [of p_configGens]
      if_distrib [of p_sawConfigPull] if_distrib [of p_toServer] cong: if_cong)

lemma sentFilters_initialize:
  assumes "m_method m = ''initialize''" and "m_params m = Some (JObj ps)"
    and "gget ps ''initializationOptions'' = Some (JObj (setFilters opts fs))"
  shows "sentFilters m = Some fs"
  using assms by (simp add: sentFilters_def jfield_def)

lemma sys_inv_start:
  assumes "m_method m = ''initialize''" and "m_params m = Some (JObj params)"
    and "patchInitialize hostOk stat now saved m freshProxy = Some (m', p)"
  shows "sys_inv strict (writeServer m' p, PcIdle)"
proof -
  have "gens_ok freshProxy" by (simp add: gens_ok_def freshProxy_def)
  from patchInitialize_obj [OF assms(2) this, of hostOk stat now saved] assms(3)
  obtain opts ps where m': "m_params m' = Some (JObj ps)" "m_method m' = m_method m"
      "gget ps ''initializationOptions'' =
         Some (JObj (setFilters (stripUserFilters opts) (filtersLocked p)))"
    and ok: "gens_ok p"
    by auto
  have "sentFilters m' = Some (filtersLocked p)"
    by (rule sentFilters_initialize) (use m' assms(1) in auto)
  then show ?thesis
    using ok patchInitialize_proxy_frame [OF assms(3)]
    using lastFilters_snoc [of "[]" m']
    by (simp add: sys_inv_def gens_ok_def pulls_ok_def freshProxy_def
        covered_scope [of "writeServer m' p" p] covered_filtersLocked)
qed

lemma reachable_inv: "sessionReachable en strict s \<Longrightarrow> sys_inv strict s"
proof (induction rule: sessionReachable.induct)
  case (start m params stat now saved m' p)
  then show ?case using sys_inv_start by blast
next
  case (later s s')
  then show ?case using sys_inv_step by blast
qed

section \<open>Properties of the barrier\<close>

text \<open>C6: the barrier is sound. In every interleaving of the editor's events, of gopls's pulls,
  of the timers and of the waiting goroutines in which the editor answers every pull with
  settings and no fallback assumes an unconfirmed generation, a unit that
  \<open>awaitUnitApplied\<close> reports as done is admitted by the filters that gopls received last: a
  request released by the barrier never meets a view that lacks its unit.\<close>

theorem barrier_sound:
  assumes "sessionReachable en True (p, pc)" and "unitDone u p"
  shows "admits (lastFilters (p_toServer p)) u"
  using reachable_inv [OF assms(1)] assms(2)
  by (auto simp: sys_inv_def covered_def unitDone_def split: option.splits)

text \<open>An editor that opens a file in a restored unit.\<close>

definition exampleEnv :: proxyEnv where
  "exampleEnv = \<lparr>env_hostOk = (\<lambda>h. False), env_rootFor = (\<lambda>d r. ''''), env_granularity = 3\<rparr>"

definition exampleInit :: message where
  "exampleInit =
     \<lparr>m_id = Some (JNum ''1''), m_method = ''initialize'',
      m_params = Some (JObj [(''rootUri'', JStr ''file:///ws'')]), m_result = None, m_error = None\<rparr>"

definition exampleStart :: "message \<times> proxyState" where
  "exampleStart =
     the (patchInitialize (\<lambda>h. False) (\<lambda>path. Some Directory) 0 (\<lambda>r. Some [''pkg'']) exampleInit freshProxy)"

lemma exampleStart_ok:
  "patchInitialize (\<lambda>h. False) (\<lambda>path. Some Directory) 0 (\<lambda>r. Some [''pkg'']) exampleInit freshProxy =
     Some exampleStart"
  by (simp add: exampleStart_def patchInitialize_def exampleInit_def Let_def)

lemma exampleReachable: "sessionReachable exampleEnv strict (writeServer (fst exampleStart) (snd exampleStart), PcIdle)"
  by (rule sessionReachable.start [where m = exampleInit and params = "[(''rootUri'', JStr ''file:///ws'')]"
        and stat = "\<lambda>path. Some Directory" and now = 0 and saved = "\<lambda>r. Some [''pkg'']"])
    (simp_all add: exampleInit_def [THEN arg_cong [where f = m_method]] exampleStart_ok exampleEnv_def
      exampleInit_def [THEN arg_cong [where f = m_params]])


theorem barrier_sound_witness:
  "admits (lastFilters (p_toServer (writeServer (fst exampleStart) (snd exampleStart)))) ''pkg''"
proof (rule barrier_sound [OF exampleReachable [where strict = True]])
  have "unitDone ''pkg'' (snd exampleStart)" by code_simp
  then show "unitDone ''pkg'' (writeServer (fst exampleStart) (snd exampleStart))"
    by (simp add: unitDone_def split: option.splits)
qed

lemma quiet_gens:
  "quiet p p' \<Longrightarrow> p_scopeGen p \<le> p_scopeGen p' \<and> p_appliedGen p \<le> p_appliedGen p'"
  by (simp add: quiet_def evolves_def)

lemma step_monotone:
  assumes "step en strict s s'" and "sys_inv strict s"
  shows "p_scopeGen (fst s) \<le> p_scopeGen (fst s') \<and> p_appliedGen (fst s) \<le> p_appliedGen (fst s')"
  using assms
proof (induction rule: step.induct)
  case (s_fallback g p d r pc)
  then show ?case using fallback_cases [of g d r p] by auto
next
  case (s_take m i p g p')
  then show ?case using quiet_gens [OF quiet_take [OF _ s_take.hyps(2)]] sys_inv_gens by auto
next
  case (s_other m i p g p')
  then show ?case using quiet_gens [OF quiet_take [OF _ s_other.hyps(2)]] sys_inv_gens by auto
qed (auto simp: quiet_open quiet_close quiet_forward quiet_server quiet_rescope quiet_diag quiet_evict
      quiet_ensure quiet_push quiet_wait quiet_store intro!: quiet_gens dest!: sys_inv_gens)

text \<open>generations only grow, in every interleaving: no step lowers the scope generation
  or the applied generation, no scope entry and no outstanding pull carries a generation that
  was not yet given out, and nothing counts as applied that was not published.\<close>

theorem generations_monotone:
  assumes "sessionReachable en strict (p, pc)" and "step en strict (p, pc) (p', pc')"
  shows "p_scopeGen p \<le> p_scopeGen p' \<and> p_appliedGen p \<le> p_appliedGen p' \<and>
    p_appliedGen p' \<le> p_scopeGen p' \<and>
    (\<forall>u e. gget (p_scope p') u = Some e \<longrightarrow> e_gen e \<le> p_scopeGen p') \<and>
    (\<forall>i g. gget (p_configGens p') i = Some g \<longrightarrow> g \<le> p_scopeGen p')"
  using step_monotone [OF assms(2) reachable_inv [OF assms(1)]]
    sys_inv_step [OF assms(2) reachable_inv [OF assms(1)]]
  by (auto simp: sys_inv_def gens_ok_def pulls_ok_def)

theorem generations_monotone_witness:
  "p_appliedGen (snd (pushScope (writeServer (fst exampleStart) (snd exampleStart)))) \<le>
     p_scopeGen (snd (pushScope (writeServer (fst exampleStart) (snd exampleStart))))"
  using generations_monotone [OF exampleReachable [of True] s_push] by simp

text \<open>the fallback does not overtake the editor. While a pull is outstanding and the
  absolute deadline has not passed, a tick of the fallback leaves the applied generation where
  it is, and re-arms itself unless the generation it waits for is applied.\<close>

theorem fallback_waits_for_pull:
  assumes "sessionReachable en strict (p, pc)" and "p_configIDs p \<noteq> {}" and "0 < remaining"
  shows "snd (fallbackTick g d remaining p) = p \<and>
    (fst (fallbackTick g d remaining p) = None \<longleftrightarrow> g \<le> p_appliedGen p)"
proof -
  have "p_sawConfigPull p"
    using reachable_inv [OF assms(1)] assms(2) by (simp add: sys_inv_def pulls_ok_def)
  then show ?thesis using assms(3) by (simp add: fallbackTick_def)
qed

definition examplePull :: message where
  "examplePull =
     \<lparr>m_id = Some (JNum ''7''), m_method = ''workspace/configuration'', m_params = None,
      m_result = None, m_error = None\<rparr>"

theorem fallback_waits_for_pull_witness:
  "snd (fallbackTick 2 10 50 (handleServerNotification examplePull
     (writeServer (fst exampleStart) (snd exampleStart)))) =
   handleServerNotification examplePull (writeServer (fst exampleStart) (snd exampleStart))"
  using fallback_waits_for_pull [OF sessionReachable.later [OF exampleReachable [of False]
      s_server [where m = examplePull]], where remaining = 50 and g = 2 and d = 10]
  by (simp add: handleServerNotification_def examplePull_def)

text \<open>an answer settles its pull. The answer to an outstanding pull is swallowed, what it
  gives gopls are the filters of the current scope, and from then on every unit published up
  to the generation of the pull counts as applied.\<close>

theorem handleClientResponse_correct:
  assumes "m_id m = Some i" and "i \<in> p_configIDs p" and "gget (p_configGens p) i = Some g"
    and "answersPull m"
  shows "fst (handleClientResponse m p) \<and>
    lastFilters (p_toServer (snd (handleClientResponse m p))) = filtersLocked p \<and>
    p_appliedGen (snd (handleClientResponse m p)) = max g (p_appliedGen p) \<and>
    p_scope (snd (handleClientResponse m p)) = p_scope p \<and>
    i \<notin> p_configIDs (snd (handleClientResponse m p))"
  using assms sentFilters_patched [OF assms(4)]
  by (simp add: handleClientResponse_def takeConfigID_def patchConfigResponse_def Let_def
      storeWorkerConfig_def filtersLocked_def split: option.split)

theorem handleClientResponse_correct_witness:
  "fst (handleClientResponse exampleAnswer
     (handleServerNotification examplePull (writeServer (fst exampleStart) (snd exampleStart))))"
  using handleClientResponse_correct [of exampleAnswer "JNum ''7''"
      "handleServerNotification examplePull (writeServer (fst exampleStart) (snd exampleStart))"]
  by (simp add: handleServerNotification_def examplePull_def exampleAnswer_def answersPull_def)


section \<open>Waking the waiters\<close>

definition sameCh :: "proxyState \<Rightarrow> proxyState \<Rightarrow> bool" where
  "sameCh p p' \<longleftrightarrow>
     p_appliedCh p' = p_appliedCh p \<and> p_closedChs p' = p_closedChs p \<and>
     p_appliedGen p' = p_appliedGen p"

text \<open>A waiter that holds channel \<open>c\<close> since the applied generation was \<open>a\<close>.\<close>

definition watching :: "nat \<Rightarrow> nat \<Rightarrow> proxyState \<Rightarrow> bool" where
  "watching c a p \<longleftrightarrow> c \<in> p_closedChs p \<or> (p_appliedCh p = Some c \<and> p_appliedGen p = a)"

lemma watching_same: "watching c a p \<Longrightarrow> sameCh p p' \<Longrightarrow> watching c a p'"
  by (simp add: watching_def sameCh_def)

lemma watching_advance: "watching c a p \<Longrightarrow> watching c a (advanceAppliedLocked g p)"
  by (auto simp: watching_def advanceAppliedLocked_def Let_def split: option.split)

lemma watching_wait: "watching c a p \<Longrightarrow> watching c a (snd (appliedChLocked p))"
  by (auto simp: watching_def appliedChLocked_def split: option.split)

lemma sameCh_push: "sameCh p (snd (pushScope p))"
  by (simp add: sameCh_def pushScope_def stampScopeGenLocked_def writeServer_def Let_def)

lemma sameCh_ops:
  "sameCh p (observeOpen en now params p)" "sameCh p (observeClose en now params p)"
  "sameCh p (writeServer m p)" "sameCh p (diagArrived uri p)"
  "sameCh p (storeWorkerConfig m p)" "sameCh p (handleServerNotification m p)"
  "sameCh p (snd (ensureUnitsLocked now us p))"
  by (simp_all add: sameCh_def observeOpen_def observeClose_def writeServer_def diagArrived_def
      storeWorkerConfig_def handleServerNotification_def onDiagnostics_def ensureUnitsLocked_def
      Let_def split: option.split json.split prod.split)

lemma sameCh_take: "takeConfigID i p = (r, p') \<Longrightarrow> sameCh p p'"
  by (auto simp: takeConfigID_def sameCh_def)

lemma sameCh_rescope: "sameCh p (rescopeFires p)"
  using sameCh_push [of "p\<lparr>p_rescopeTimer := False\<rparr>"] by (simp add: sameCh_def rescopeFires_def)

lemma sameCh_evict: "sameCh p (evictIdleUnits ttl now p)"
  using sameCh_push [of "p\<lparr>p_scope := s\<rparr>" for s]
  by (simp add: sameCh_def evictIdleUnits_def Let_def)

lemma watching_step:
  assumes "step en strict s s'" and "watching c a (fst s)"
  shows "watching c a (fst s')"
  using assms
proof (induction rule: step.induct)
  case (s_fallback g p d r pc)
  then show ?case using fallback_cases [of g d r p] watching_advance by auto
qed (auto intro: watching_same sameCh_ops sameCh_rescope sameCh_evict sameCh_push sameCh_take
      watching_advance watching_wait)

text \<open>C29: no wake-up is lost. A waiter that took its channel under the mutex, at the moment
  it saw the applied generation, finds that channel closed as soon as the applied generation has
  moved, in every interleaving that follows.\<close>

theorem no_lost_wakeup:
  assumes "appliedChLocked p = (c, p1)" and "(step en strict)\<^sup>*\<^sup>* (p1, pc) (p2, pc2)"
    and "p_appliedGen p2 \<noteq> p_appliedGen p"
  shows "c \<in> p_closedChs p2"
proof -
  have "watching c (p_appliedGen p) p1"
    using assms(1) by (auto simp: appliedChLocked_def watching_def split: option.splits)
  with assms(2) have "watching c (p_appliedGen p) p2"
    by (induction rule: rtranclp_induct2) (use watching_step in fastforce)+
  then show ?thesis using assms(3) by (simp add: watching_def)
qed

theorem no_lost_wakeup_witness:
  "0 \<in> p_closedChs (advanceAppliedLocked 1 (snd (appliedChLocked freshProxy)))"
proof (rule no_lost_wakeup)
  show "appliedChLocked freshProxy = (0, snd (appliedChLocked freshProxy))"
    by (simp add: appliedChLocked_def freshProxy_def)
  show "(step exampleEnv False)\<^sup>*\<^sup>* (snd (appliedChLocked freshProxy), PcWritten 1)
      (advanceAppliedLocked 1 (snd (appliedChLocked freshProxy)), PcIdle)"
    by (rule r_into_rtranclp) (rule s_advance)
qed (simp add: freshProxy_def)

section \<open>Where the barrier gives way\<close>

definition errorAnswer :: message where
  "errorAnswer =
     \<lparr>m_id = Some (JNum ''7''), m_method = '''', m_params = None, m_result = None,
      m_error = Some (JObj [(''code'', JNum ''-32603'')])\<rparr>"

text \<open>an error answer opens the barrier. There is a run in which the editor answers the
  pull with an error, the applied generation advances all the same, and a request waiting for
  its unit is released although the filters gopls holds still exclude the unit.\<close>

theorem error_answer_opens_barrier:
  "\<exists>p u. sessionReachable exampleEnv False (p, PcIdle) \<and> unitDone u p \<and>
     \<not> admits (lastFilters (p_toServer p)) u"
proof -
  let ?p0 = "writeServer (fst exampleStart) (snd exampleStart)"
  let ?p1 = "snd (ensureUnitsLocked 0 [''new''] ?p0)"
  let ?p2 = "snd (pushScope ?p1)"
  let ?p3 = "handleServerNotification examplePull ?p2"
  let ?p4 = "snd (takeConfigID (JNum ''7'') ?p3)"
  let ?p5 = "storeWorkerConfig errorAnswer ?p4"
  let ?p6 = "writeServer (patchedResponse (filtersLocked ?p5) errorAnswer) ?p5"
  let ?p7 = "advanceAppliedLocked 2 ?p6"
  have r3: "sessionReachable exampleEnv False (?p3, PcIdle)"
    by (rule sessionReachable.later [OF sessionReachable.later [OF sessionReachable.later [OF exampleReachable s_ensure]
          s_push] s_server])
  have taken: "takeConfigID (JNum ''7'') ?p3 = ((True, 2), ?p4)" by code_simp
  have r4: "sessionReachable exampleEnv False (?p4, PcTaken errorAnswer 2)"
    by (rule sessionReachable.later [OF r3 s_take [OF _ taken]]) (simp_all add: errorAnswer_def)
  have "sessionReachable exampleEnv False (?p7, PcIdle)"
    by (rule sessionReachable.later [OF sessionReachable.later [OF sessionReachable.later [OF sessionReachable.later [OF r4
          s_store] s_patch] s_write] s_advance])
  moreover have "unitDone ''new'' ?p7 \<and> \<not> admits (lastFilters (p_toServer ?p7)) ''new''"
    by code_simp
  ultimately show ?thesis by blast
qed

section \<open>Opening and evicting\<close>

lemma freshEntry_simps [simp]:
  "e_open (freshEntry now) = {}" "e_gen (freshEntry now) = 0" "e_lastActive (freshEntry now) = now"
  by (simp_all add: freshEntry_def)

text \<open>opening a Go file brings its unit into scope, with the file recorded as open; the
  other units keep their entries. A unit that was not in scope is on its way to being published:
  at once when it is the first, after the diagnostics of the file (or the timer that stands in
  for them) otherwise.\<close>

theorem observeOpen_correct:
  assumes "unitForURI en (docURI params) p = Some u"
    and "hasSuffix (uriToPath (env_hostOk en) (docURI params)) ''.go''"
  shows "(\<exists>e. gget (p_scope (observeOpen en now params p)) u = Some e \<and>
      docURI params \<in> e_open e \<and> e_lastActive e = now \<and> e_gen e = unitGen (p_scope p) u) \<and>
    (\<forall>v. v \<noteq> u \<longrightarrow> gget (p_scope (observeOpen en now params p)) v = gget (p_scope p) v) \<and>
    (gget (p_scope p) u = None \<longrightarrow>
      (if p_scope p = [] then p_rescopeTimer (observeOpen en now params p)
       else p_rescopeTimer (diagArrived (docURI params) (observeOpen en now params p))))"
  using assms by (auto simp: observeOpen_def unitGen_def diagArrived_def Let_def split: option.split)

theorem observeOpen_correct_witness:
  "p_rescopeTimer (observeOpen exampleEnv 5
     (Some (JObj [(''textDocument'', JObj [(''uri'', JStr ''file:///ws/a/x.go'')])]))
     (freshProxy\<lparr>p_root := ''/ws''\<rparr>))"
proof -
  let ?params = "Some (JObj [(''textDocument'', JObj [(''uri'', JStr ''file:///ws/a/x.go'')])])"
  have u: "unitForURI exampleEnv (docURI ?params) (freshProxy\<lparr>p_root := ''/ws''\<rparr>) = Some ''a''"
    and go: "hasSuffix (uriToPath (env_hostOk exampleEnv) (docURI ?params)) ''.go''"
    by code_simp+
  show ?thesis
    using observeOpen_correct [OF u go, of 5] by (simp add: freshProxy_def)
qed

text \<open>eviction drops exactly the idle units: those without an open document whose last
  activity lies more than the TTL back. Units with an open document stay, and a changed scope
  is published.\<close>

theorem evictIdleUnits_correct:
  assumes "gens_ok p"
  shows "(gget (p_scope (evictIdleUnits ttl now p)) u \<noteq> None \<longleftrightarrow>
      (\<exists>e. gget (p_scope p) u = Some e \<and> (e_open e \<noteq> {} \<or> now - e_lastActive e \<le> ttl))) \<and>
    (if \<exists>v. gget (p_scope p) v \<noteq> None \<and> gget (p_scope (evictIdleUnits ttl now p)) v = None
     then p_toServer (evictIdleUnits ttl now p) = p_toServer p @ [didChangeConfiguration]
     else evictIdleUnits ttl now p = p)"
proof -
  have wf: "wf_map (p_scope p)" using assms by (simp add: gens_ok_def)
  let ?keep = "\<lambda>u e. \<not> (e_open e = {} \<and> now - e_lastActive e > ttl)"
  let ?q = "p\<lparr>p_scope := filter (\<lambda>(u, e). ?keep u e) (p_scope p)\<rparr>"
  have eq: "evictIdleUnits ttl now p = (if list_ex (\<lambda>(u, e). \<not> ?keep u e) (p_scope p)
      then snd (pushScope ?q) else ?q)"
    unfolding evictIdleUnits_def Let_def case_prod_unfold by (simp only: not_not)
  have keys: "gget (p_scope (evictIdleUnits ttl now p)) v = None \<longleftrightarrow>
      gget (p_scope ?q) v = None" for v
    by (simp add: eq pushScope_def Let_def)
  have q: "gget (p_scope ?q) v = (case gget (p_scope p) v of None \<Rightarrow> None
      | Some e \<Rightarrow> if ?keep v e then Some e else None)" for v
    using gget_filter [OF wf, of ?keep v] by simp
  have idle: "list_ex (\<lambda>(u, e). \<not> ?keep u e) (p_scope p) \<longleftrightarrow>
      (\<exists>v. gget (p_scope p) v \<noteq> None \<and> gget (p_scope ?q) v = None)"
  proof -
    have "list_ex (\<lambda>(u, e). \<not> ?keep u e) (p_scope p) \<longleftrightarrow>
        (\<exists>v e. gget (p_scope p) v = Some e \<and> \<not> ?keep v e)"
      using wf by (force simp: list_ex_iff wf_map_def map_of_eq_Some_iff)
    moreover have "(gget (p_scope p) v \<noteq> None \<and> gget (p_scope ?q) v = None) \<longleftrightarrow>
        (\<exists>e. gget (p_scope p) v = Some e \<and> \<not> ?keep v e)" for v
      unfolding q by (auto split: option.split)
    ultimately show ?thesis by (simp only:)
  qed
  have "?q = p" if "\<not> list_ex (\<lambda>(u, e). \<not> ?keep u e) (p_scope p)"
    using that by (simp add: list_ex_iff filter_id_conv case_prod_unfold)
  moreover have "p_toServer (snd (pushScope ?q)) = p_toServer p @ [didChangeConfiguration]"
    by (simp add: pushScope_def Let_def)
  ultimately have "if list_ex (\<lambda>(u, e). \<not> ?keep u e) (p_scope p)
     then p_toServer (evictIdleUnits ttl now p) = p_toServer p @ [didChangeConfiguration]
     else evictIdleUnits ttl now p = p"
    unfolding eq by simp
  moreover have "(gget (p_scope ?q) u \<noteq> None) \<longleftrightarrow>
      (\<exists>e. gget (p_scope p) u = Some e \<and> (e_open e \<noteq> {} \<or> now - e_lastActive e \<le> ttl))"
    unfolding q by (auto split: option.split)
  ultimately show ?thesis unfolding keys idle by blast
qed

theorem evictIdleUnits_correct_witness:
  "gget (p_scope (evictIdleUnits 10 100 (freshProxy\<lparr>p_scope := [(''a'', freshEntry 0)]\<rparr>))) ''a'' = None"
proof -
  have ok: "gens_ok (freshProxy\<lparr>p_scope := [(''a'', freshEntry 0)]\<rparr>)"
    by (simp add: gens_ok_def freshProxy_def wf_map_single)
  show ?thesis
    using conjunct1 [OF evictIdleUnits_correct [OF ok, of 10 100 "''a''"]] by (simp add: freshEntry_def)
qed

end
