(* ===== verification/Fallback.thy ===== *)
theory Fallback
  imports Barrier
begin

text \<open>
  The fallback timer of a published generation over time (\<open>scope.go\<close>:
  \<open>scheduleAppliedFallback\<close>, \<open>armAppliedFallback\<close>): a tick may arm the next one, so the chain of
  ticks is a loop through the timer queue. Here it is shown to end, after how many ticks, and what
  holds then. Times are in the unit of the delays.
\<close>

section \<open>Chains of ticks\<close>

text \<open>
  A timer armed at time \<open>t\<close> with delay \<open>d\<close> fires at some \<open>t' \<ge> t + d\<close>, with the proxy in any
  state; it is re-armed there when the tick asks for it. \<open>reArmed g deadline t d n\<close>: the chain that
  starts with this timer can be re-armed \<open>n\<close> times.
\<close>

inductive reArmed :: "nat \<Rightarrow> int \<Rightarrow> int \<Rightarrow> int \<Rightarrow> nat \<Rightarrow> bool" for g deadline where
  re_none: "reArmed g deadline t d 0"
| re_tick: "t + d \<le> t' \<Longrightarrow> fst (fallbackTick g d (deadline - t') (p :: proxyState)) = Some d' \<Longrightarrow>
    reArmed g deadline t' d' n \<Longrightarrow> reArmed g deadline t d (Suc n)"

inductive_cases reArmed_SucE: "reArmed g deadline t d (Suc n)"

lemma fallbackTick_again:
  "fst (fallbackTick g d r p) = Some d' \<longleftrightarrow>
     p_appliedGen p < g \<and> p_sawConfigPull p \<and> 0 < r \<and> d' = min d r"
  by (auto simp: fallbackTick_def)

lemma fallbackTick_ends:
  "fst (fallbackTick g d r p) = None \<Longrightarrow> g \<le> p_appliedGen (snd (fallbackTick g d r p))"
  by (auto simp: fallbackTick_def split: if_splits)

text \<open>Once the delay was cut to what is left, the next tick fires at the deadline or later.\<close>

lemma reArmed_cut: "reArmed g deadline t d n \<Longrightarrow> deadline \<le> t + d \<Longrightarrow> n = 0"
  by (induction rule: reArmed.induct) (auto simp: fallbackTick_again)

lemma reArmed_bound:
  "reArmed g deadline t d n \<Longrightarrow> 0 < n \<Longrightarrow> t + int n * d < deadline"
proof (induction rule: reArmed.induct)
  case (re_tick t d t' p d' n)
  have t': "t' < deadline" "d' = min d (deadline - t')"
    using re_tick.hyps(2) by (auto simp: fallbackTick_again)
  show ?case
  proof (cases n)
    case 0
    then show ?thesis using re_tick.hyps(1) t'(1) by simp
  next
    case (Suc k)
    then have "d' = d"
      using reArmed_cut [OF re_tick.hyps(3)] t'(2) by (cases "d \<le> deadline - t'") auto
    then have "t' + int n * d < deadline" using re_tick.IH Suc by simp
    then show ?thesis using re_tick.hyps(1) by (simp add: algebra_simps)
  qed
qed simp

section \<open>Properties\<close>

text \<open>C16: the fallback ends. Whatever the proxy does between its ticks and however late they fire, the
  chain of ticks armed for a generation with the delay \<open>d\<close> and the cap \<open>c\<close> is re-armed fewer than
  \<open>c / d\<close> times (five times with the default values); the tick that does not re-arm leaves the
  generation applied, so a request that waits for it is released in any case.\<close>

theorem fallback_ends:
  assumes "armAppliedFallback delay cap = (d, c)" and "0 < d"
    and "reArmed g (now + c) now d n"
  shows "(n = 0 \<or> int n * d < c) \<and>
    (delay = 0 \<and> cap = 0 \<longrightarrow> n \<le> 5) \<and>
    (\<forall>r (p :: proxyState). fst (fallbackTick g d r p) = None \<longrightarrow>
       g \<le> p_appliedGen (snd (fallbackTick g d r p)))"
proof -
  have "n = 0 \<or> int n * d < c" using reArmed_bound [OF assms(3)] by auto
  moreover have "n \<le> 5" if "delay = 0 \<and> cap = 0"
  proof -
    have "d = 10" "c = 60" using that assms(1) by (simp_all add: armAppliedFallback_def)
    with calculation show ?thesis by auto
  qed
  ultimately show ?thesis using fallbackTick_ends by blast
qed

text \<open>A chain that is re-armed once: the editor has pulled and is slow.\<close>

theorem fallback_ends_witness:
  "reArmed 1 60 0 10 1 \<and> int 1 * 10 < (60 :: int)"
proof
  show r: "reArmed 1 60 0 10 1"
    unfolding One_nat_def
    by (rule re_tick [where t' = 12 and p = "freshProxy\<lparr>p_sawConfigPull := True\<rparr>" and d' = 10, OF _ _ re_none])
      (simp_all add: fallbackTick_again freshProxy_def)
  have "armAppliedFallback 0 0 = (10, 60)" by (simp add: armAppliedFallback_def)
  from fallback_ends [OF this, of 1 0 1] r show "int 1 * 10 < (60 :: int)" by simp
qed

end
