(* ===== verification/HeldReqs.thy ===== *)
theory HeldReqs
  imports Barrier
begin

text \<open>
  Requests the proxy holds back (\<open>proxy.go\<close>): which requests are intercepted, when a request
  is held for the unit of its document, and the two ways a held request is forwarded, by the
  goroutine that waits for the unit and by the next \<open>didChange\<close> of the document.
\<close>

section \<open>Dispatch\<close>

definition isCrossRef :: "string \<Rightarrow> bool" where
  "isCrossRef method \<longleftrightarrow>
     method \<in> {''textDocument/rename'', ''textDocument/references'', ''textDocument/implementation''}"

text \<open>\<open>interceptClientRequest\<close>: who takes a request; the numbers are the timeouts in seconds.\<close>

datatype interception = ToSymbols | ToHold int | ToCrossRef | NotTaken

definition interceptClientRequest :: "string \<Rightarrow> interception" where
  "interceptClientRequest method =
     (if method = ''workspace/symbol'' then ToSymbols
      else if method = ''textDocument/definition'' then ToHold 15
      else if method = ''textDocument/prepareRename'' then ToHold 5
      else if method = ''textDocument/inlayHint'' \<or> method = ''textDocument/hover'' then ToHold 15
      else if isCrossRef method then ToCrossRef
      else NotTaken)"

section \<open>State\<close>

text \<open>
  A \<open>heldReq\<close> is an object shared by the map, the waiter and the release, so it lives in
  a store and is named by its index. \<open>hr_once\<close> is the state of its \<open>sync.Once\<close>,
  \<open>hr_uri\<close> the document it was registered for. \<open>hs_log\<close> is what was written to gopls: a
  held request by its name, any other message as it is.
\<close>

record heldReq =
  hr_raw :: message
  hr_once :: bool
  hr_uri :: string

datatype sent = SentHeld nat | SentMsg message

record heldState =
  hs_reqs :: "heldReq list"
  hs_defs :: "(string, nat list) gomap"
  hs_log :: "sent list"

definition forward :: "nat \<Rightarrow> heldState \<Rightarrow> heldState" where
  "forward h hs =
     (if hr_once (hs_reqs hs ! h) then hs
      else hs\<lparr>hs_reqs := (hs_reqs hs)[h := (hs_reqs hs ! h)\<lparr>hr_once := True\<rparr>],
              hs_log := hs_log hs @ [SentHeld h]\<rparr>)"

definition heldFor :: "string \<Rightarrow> heldState \<Rightarrow> nat list" where
  "heldFor uri hs = (case gget (hs_defs hs) uri of None \<Rightarrow> [] | Some s \<Rightarrow> s)"

definition registerHeldDef :: "string \<Rightarrow> nat \<Rightarrow> heldState \<Rightarrow> heldState" where
  "registerHeldDef uri h hs = hs\<lparr>hs_defs := gput uri (heldFor uri hs @ [h]) (hs_defs hs)\<rparr>"

definition unregisterHeldDef :: "string \<Rightarrow> nat \<Rightarrow> heldState \<Rightarrow> heldState" where
  "unregisterHeldDef uri h hs =
     (let s = heldFor uri hs;
          defs = (if h \<in> set s then gput uri (remove1 h s) (hs_defs hs) else hs_defs hs);
          left = (case gget defs uri of None \<Rightarrow> [] | Some s' \<Rightarrow> s')
      in hs\<lparr>hs_defs := (if left = [] then gdel uri defs else defs)\<rparr>)"

definition releaseHeldDefs :: "string \<Rightarrow> heldState \<Rightarrow> heldState" where
  "releaseHeldDefs uri hs =
     foldl (\<lambda>hs h. forward h hs) (hs\<lparr>hs_defs := gdel uri (hs_defs hs)\<rparr>) (heldFor uri hs)"

text \<open>
  \<open>holdForRequestUnit\<close>: the decision, then the new object. The waiter started here is the
  pair of steps \<open>h_waiter\<close>, \<open>h_unregister\<close> below.
\<close>

definition unitPending :: "string \<Rightarrow> 'a scopeState_scheme \<Rightarrow> bool" where
  "unitPending unit p =
     (case gget (p_scope p) unit of
        None \<Rightarrow> False | Some e \<Rightarrow> e_gen e = 0 \<or> e_gen e > p_appliedGen p)"

definition holdForRequestUnit ::
  "proxyEnv \<Rightarrow> proxyState \<Rightarrow> message \<Rightarrow> heldState \<Rightarrow> bool \<times> heldState" where
  "holdForRequestUnit en p m hs =
     (let uri = docURI (m_params m)
      in case unitForURI en uri p of
           None \<Rightarrow> (False, hs)
         | Some unit \<Rightarrow>
             if \<not> unitPending unit p then (False, hs)
             else (True, registerHeldDef uri (length (hs_reqs hs))
                     (hs\<lparr>hs_reqs := hs_reqs hs @ [\<lparr>hr_raw = m, hr_once = False, hr_uri = uri\<rparr>]\<rparr>)))"

text \<open>
  What \<open>pumpClient\<close> does with a \<open>didChange\<close>, as far as gopls is concerned: release, then
  forward the message.
\<close>

definition forwardDidChange :: "message \<Rightarrow> heldState \<Rightarrow> heldState" where
  "forwardDidChange m hs =
     (let hs' = releaseHeldDefs (docURI (m_params m)) hs
      in hs'\<lparr>hs_log := hs_log hs' @ [SentMsg m]\<rparr>)"

section \<open>The interleaving\<close>

text \<open>The scope changes meanwhile in any way, so the proxy state of each step is arbitrary.\<close>

inductive hstep :: "proxyEnv \<Rightarrow> heldState \<Rightarrow> heldState \<Rightarrow> bool" for en where
  h_hold: "hstep en hs (snd (holdForRequestUnit en p m hs))"
| h_waiter: "h < length (hs_reqs hs) \<Longrightarrow> hstep en hs (forward h hs)"
| h_unregister: "h < length (hs_reqs hs) \<Longrightarrow> hr_once (hs_reqs hs ! h) \<Longrightarrow>
    hstep en hs (unregisterHeldDef (hr_uri (hs_reqs hs ! h)) h hs)"
| h_change: "hstep en hs (forwardDidChange m hs)"
| h_other: "hstep en hs (hs\<lparr>hs_log := hs_log hs @ [SentMsg m]\<rparr>)"

definition noHeld :: heldState where
  "noHeld = \<lparr>hs_reqs = [], hs_defs = [], hs_log = []\<rparr>"

definition logCount :: "nat \<Rightarrow> sent list \<Rightarrow> nat" where
  "logCount h l = length (filter (\<lambda>x. x = SentHeld h) l)"

text \<open>
  The invariant: the log holds a request once if its \<open>Once\<close> has fired and not at all
  otherwise, and a request that was not forwarded can be found under its document.
\<close>

definition held_ok :: "heldState \<Rightarrow> bool" where
  "held_ok hs \<longleftrightarrow>
     (\<forall>h. logCount h (hs_log hs) =
        (if h < length (hs_reqs hs) \<and> hr_once (hs_reqs hs ! h) then 1 else 0)) \<and>
     (\<forall>h < length (hs_reqs hs). \<not> hr_once (hs_reqs hs ! h) \<longrightarrow>
        h \<in> set (heldFor (hr_uri (hs_reqs hs ! h)) hs)) \<and>
     (\<forall>uri. \<forall>h \<in> set (heldFor uri hs). h < length (hs_reqs hs))"

lemma logCount_snoc [simp]:
  "logCount h (l @ [SentHeld k]) = logCount h l + (if k = h then 1 else 0)"
  "logCount h (l @ [SentMsg m]) = logCount h l"
  by (simp_all add: logCount_def)

lemma heldFor_simps [simp]:
  "heldFor uri (hs\<lparr>hs_log := l\<rparr>) = heldFor uri hs"
  "heldFor uri (hs\<lparr>hs_reqs := r\<rparr>) = heldFor uri hs"
  "heldFor uri (hs\<lparr>hs_defs := gdel u (hs_defs hs)\<rparr>) = (if uri = u then [] else heldFor uri hs)"
  by (simp_all add: heldFor_def)

lemma forward_frame [simp]:
  "length (hs_reqs (forward h hs)) = length (hs_reqs hs)"
  "hs_defs (forward h hs) = hs_defs hs"
  "heldFor uri (forward h hs) = heldFor uri hs"
  by (simp_all add: forward_def heldFor_def)

lemma forward_req:
  "k < length (hs_reqs hs) \<Longrightarrow>
     hr_once (hs_reqs (forward h hs) ! k) = (hr_once (hs_reqs hs ! k) \<or> k = h) \<and>
     hr_uri (hs_reqs (forward h hs) ! k) = hr_uri (hs_reqs hs ! k) \<and>
     hr_raw (hs_reqs (forward h hs) ! k) = hr_raw (hs_reqs hs ! k)"
  by (cases "k = h") (auto simp: forward_def)

lemma forward_count:
  "h < length (hs_reqs hs) \<Longrightarrow>
     logCount k (hs_log (forward h hs)) =
       logCount k (hs_log hs) + (if k = h \<and> \<not> hr_once (hs_reqs hs ! h) then 1 else 0)"
  by (simp add: forward_def)


section \<open>The invariant is kept\<close>

lemma held_ok_forward: "held_ok hs \<Longrightarrow> h < length (hs_reqs hs) \<Longrightarrow> held_ok (forward h hs)"
  unfolding held_ok_def by (auto simp: forward_count forward_req)

text \<open>Forwarding a list of requests fires all of them and nothing else.\<close>

lemma forwards:
  fixes hs :: heldState and s :: "nat list"
  assumes "\<forall>h \<in> set s. h < length (hs_reqs hs)"
  defines "hs' \<equiv> foldl (\<lambda>hs h. forward h hs) hs s"
  shows "length (hs_reqs hs') = length (hs_reqs hs) \<and> hs_defs hs' = hs_defs hs \<and>
    (\<forall>k < length (hs_reqs hs).
       hr_once (hs_reqs hs' ! k) = (hr_once (hs_reqs hs ! k) \<or> k \<in> set s) \<and>
       hr_uri (hs_reqs hs' ! k) = hr_uri (hs_reqs hs ! k)) \<and>
    (\<forall>k. logCount k (hs_log hs') =
       logCount k (hs_log hs) +
         (if k \<in> set s \<and> \<not> hr_once (hs_reqs hs ! k) then 1 else 0))"
  using assms(1) unfolding hs'_def
proof (induction s arbitrary: hs)
  case (Cons h s)
  then have h: "h < length (hs_reqs hs)" and s: "\<forall>h \<in> set s. h < length (hs_reqs (forward h' hs))" for h'
    by auto
  show ?case
    using Cons.IH [of "forward h hs"] s h forward_req [of _ hs h] forward_count [OF h]
    by (simp split: if_splits) blast
qed simp

lemma heldFor_eq: "hs_defs hs' = hs_defs hs \<Longrightarrow> heldFor uri hs' = heldFor uri hs"
  by (simp add: heldFor_def)

lemma release_facts:
  fixes uri :: string and hs :: heldState
  assumes "held_ok hs"
  defines "hs' \<equiv> releaseHeldDefs uri hs"
  shows "held_ok hs' \<and> length (hs_reqs hs') = length (hs_reqs hs) \<and>
    (\<forall>k < length (hs_reqs hs). hr_uri (hs_reqs hs' ! k) = hr_uri (hs_reqs hs ! k) \<and>
       (hr_uri (hs_reqs hs ! k) = uri \<longrightarrow> hr_once (hs_reqs hs' ! k)))"
proof -
  let ?hs0 = "hs\<lparr>hs_defs := gdel uri (hs_defs hs)\<rparr>"
  have "\<forall>h \<in> set (heldFor uri hs). h < length (hs_reqs ?hs0)"
    using assms(1) by (simp add: held_ok_def)
  note f = forwards [OF this]
  then have for': "heldFor v hs' = (if v = uri then [] else heldFor v hs)" for v
    using heldFor_eq [of hs' ?hs0 v] unfolding hs'_def releaseHeldDefs_def by simp
  have len: "length (hs_reqs hs') = length (hs_reqs hs)"
    and defs: "k < length (hs_reqs hs) \<Longrightarrow>
      hr_once (hs_reqs hs' ! k) = (hr_once (hs_reqs hs ! k) \<or> k \<in> set (heldFor uri hs)) \<and>
      hr_uri (hs_reqs hs' ! k) = hr_uri (hs_reqs hs ! k)"
    and cnt: "logCount k (hs_log hs') = logCount k (hs_log hs) +
      (if k \<in> set (heldFor uri hs) \<and> \<not> hr_once (hs_reqs hs ! k) then 1 else 0)" for k
    using f unfolding hs'_def releaseHeldDefs_def by simp_all
  have inv: "logCount k (hs_log hs) = (if k < length (hs_reqs hs) \<and> hr_once (hs_reqs hs ! k) then 1 else 0)"
    "k < length (hs_reqs hs) \<Longrightarrow> \<not> hr_once (hs_reqs hs ! k) \<Longrightarrow>
       k \<in> set (heldFor (hr_uri (hs_reqs hs ! k)) hs)"
    "k \<in> set (heldFor v hs) \<Longrightarrow> k < length (hs_reqs hs)" for k v
    using assms(1) by (auto simp: held_ok_def)
  have "held_ok hs'"
    unfolding held_ok_def len for' cnt using defs inv by (auto split: if_splits)
  then show ?thesis using len defs inv by blast
qed

lemma held_ok_hold: "held_ok hs \<Longrightarrow> held_ok (snd (holdForRequestUnit en p m hs))"
proof -
  assume ok: "held_ok hs"
  let ?uri = "docURI (m_params m)"
  let ?hs = "registerHeldDef ?uri (length (hs_reqs hs))
      (hs\<lparr>hs_reqs := hs_reqs hs @ [\<lparr>hr_raw = m, hr_once = False, hr_uri = ?uri\<rparr>]\<rparr>)"
  have for': "heldFor v ?hs = (if v = ?uri then heldFor v hs @ [length (hs_reqs hs)] else heldFor v hs)" for v
    by (simp add: registerHeldDef_def heldFor_def Let_def)
  have "logCount k (hs_log ?hs) = logCount k (hs_log hs)" for k by (simp add: registerHeldDef_def)
  moreover have "hs_reqs ?hs = hs_reqs hs @ [\<lparr>hr_raw = m, hr_once = False, hr_uri = ?uri\<rparr>]"
    by (simp add: registerHeldDef_def)
  ultimately have "held_ok ?hs"
    using ok unfolding held_ok_def for' by (auto simp: nth_append less_Suc_eq)
  then show ?thesis
    using ok by (simp add: holdForRequestUnit_def Let_def split: option.split)
qed

lemma held_ok_unregister:
  assumes "held_ok hs" and "hr_once (hs_reqs hs ! h)"
  shows "held_ok (unregisterHeldDef uri h hs)"
proof -
  let ?hs = "unregisterHeldDef uri h hs"
  have same: "hs_reqs ?hs = hs_reqs hs" "hs_log ?hs = hs_log hs"
    by (simp_all add: unregisterHeldDef_def Let_def)
  have for': "heldFor v ?hs = (if v = uri then remove1 h (heldFor v hs) else heldFor v hs)" for v
    by (auto simp: unregisterHeldDef_def heldFor_def Let_def remove1_idem split: option.split)
  have keep: "k \<in> set (heldFor v ?hs)" if "k \<in> set (heldFor v hs)" and "k \<noteq> h" for k v
    unfolding for' using that by auto
  have sub: "set (heldFor v ?hs) \<subseteq> set (heldFor v hs)" for v
    unfolding for' by (simp add: set_remove1_subset)
  show ?thesis
    unfolding held_ok_def same
  proof (intro conjI)
    show "\<forall>k. logCount k (hs_log hs) =
        (if k < length (hs_reqs hs) \<and> hr_once (hs_reqs hs ! k) then 1 else 0)"
      using assms(1) by (simp add: held_ok_def)
    show "\<forall>k < length (hs_reqs hs). \<not> hr_once (hs_reqs hs ! k) \<longrightarrow>
        k \<in> set (heldFor (hr_uri (hs_reqs hs ! k)) ?hs)"
      using assms keep unfolding held_ok_def by blast
    show "\<forall>v. \<forall>k \<in> set (heldFor v ?hs). k < length (hs_reqs hs)"
      using assms(1) sub unfolding held_ok_def by blast
  qed
qed

lemma held_ok_log: "held_ok hs \<Longrightarrow> held_ok (hs\<lparr>hs_log := hs_log hs @ [SentMsg m]\<rparr>)"
  by (simp add: held_ok_def)

lemma held_ok_step: "hstep en hs hs' \<Longrightarrow> held_ok hs \<Longrightarrow> held_ok hs'"
proof (induction rule: hstep.induct)
  case (h_change hs m)
  then show ?case
    using release_facts [of hs] by (simp add: forwardDidChange_def Let_def held_ok_log)
qed (simp_all add: held_ok_hold held_ok_forward held_ok_unregister held_ok_log)

lemma held_ok_reachable: "(hstep en)\<^sup>*\<^sup>* noHeld hs \<Longrightarrow> held_ok hs"
  by (induction rule: rtranclp_induct)
    (auto simp: held_ok_step, simp add: held_ok_def noHeld_def logCount_def heldFor_def)

section \<open>Properties\<close>

text \<open>C15: a held request reaches gopls once. In every interleaving of the waiters, of the
  edits and of new requests, a held request is in the stream to gopls at most once, however many
  of its two forwarders run, and it is there from the moment one of them has run.\<close>

theorem held_forwarded_once:
  assumes "(hstep en)\<^sup>*\<^sup>* noHeld hs" and "h < length (hs_reqs hs)"
  shows "logCount h (hs_log hs) = (if hr_once (hs_reqs hs ! h) then 1 else 0) \<and>
    logCount h (hs_log (forward h hs)) = 1"
  using held_ok_reachable [OF assms(1)] assms(2) by (simp add: held_ok_def forward_count)

text \<open>A hover request held while the unit of its document is not yet published.\<close>

definition exampleHover :: message where
  "exampleHover =
     \<lparr>m_id = Some (JNum ''3''), m_method = ''textDocument/hover'',
      m_params = Some (JObj [(''textDocument'', JObj [(''uri'', JStr ''file:///ws/a/x.go'')])]),
      m_result = None, m_error = None\<rparr>"

definition exampleHeld :: heldState where
  "exampleHeld = \<lparr>hs_reqs = [\<lparr>hr_raw = exampleHover, hr_once = False, hr_uri = ''file:///ws/a/x.go''\<rparr>],
     hs_defs = [(''file:///ws/a/x.go'', [0])], hs_log = []\<rparr>"

lemma exampleHeld_reachable: "(hstep exampleEnv)\<^sup>*\<^sup>* noHeld exampleHeld"
proof -
  let ?p = "freshProxy\<lparr>p_root := ''/ws'', p_scope := [(''a'', freshEntry 0)]\<rparr>"
  have "unitForURI exampleEnv ''file:///ws/a/x.go'' ?p = Some ''a''" by code_simp
  moreover have "docURI (m_params exampleHover) = ''file:///ws/a/x.go''"
    by (simp add: exampleHover_def docURI_def jfield_def)
  moreover have "unitPending ''a'' ?p" by (simp add: unitPending_def freshEntry_def)
  ultimately have "snd (holdForRequestUnit exampleEnv ?p exampleHover noHeld) = exampleHeld"
    by (simp add: holdForRequestUnit_def noHeld_def exampleHeld_def registerHeldDef_def heldFor_def Let_def)
  then show ?thesis using h_hold [of exampleEnv noHeld ?p exampleHover] by auto
qed

theorem held_forwarded_once_witness:
  "logCount 0 (hs_log (forward 0 exampleHeld)) = 1"
  using held_forwarded_once [OF exampleHeld_reachable, of 0] by (simp add: exampleHeld_def)

text \<open>C14: no held request is overtaken by an edit. When a \<open>didChange\<close> of a document goes out,
  every request ever held for that document has been forwarded before it.\<close>

theorem released_before_change:
  assumes "(hstep en)\<^sup>*\<^sup>* noHeld hs" and "h < length (hs_reqs hs)"
    and "hr_uri (hs_reqs hs ! h) = docURI (m_params m)"
  shows "\<exists>before. hs_log (forwardDidChange m hs) = before @ [SentMsg m] \<and> logCount h before = 1"
proof -
  let ?uri = "docURI (m_params m)"
  have facts: "held_ok (releaseHeldDefs ?uri hs)"
    "length (hs_reqs (releaseHeldDefs ?uri hs)) = length (hs_reqs hs)"
    "hr_once (hs_reqs (releaseHeldDefs ?uri hs) ! h)"
    using release_facts [OF held_ok_reachable [OF assms(1)], of ?uri] assms(2,3) by auto
  then have "logCount h (hs_log (releaseHeldDefs ?uri hs)) = 1"
    using assms(2) by (simp add: held_ok_def)
  then show ?thesis by (auto simp: forwardDidChange_def Let_def)
qed

theorem released_before_change_witness:
  "\<exists>before. hs_log (forwardDidChange (exampleHover\<lparr>m_method := ''textDocument/didChange''\<rparr>) exampleHeld) =
     before @ [SentMsg (exampleHover\<lparr>m_method := ''textDocument/didChange''\<rparr>)] \<and> logCount 0 before = 1"
  by (rule released_before_change [OF exampleHeld_reachable])
    (simp_all add: exampleHeld_def exampleHover_def docURI_def jfield_def)

text \<open>what is held. A request is forwarded at once if its document has no unit, if the
  unit is not in scope, or if it is already applied; otherwise it is held, and then the waiter's
  condition does not hold yet.\<close>

theorem holdForRequestUnit_correct:
  "fst (holdForRequestUnit en p m hs) \<longleftrightarrow>
     (\<exists>u e. unitForURI en (docURI (m_params m)) p = Some u \<and> gget (p_scope p) u = Some e \<and>
        \<not> unitDone u p)"
  by (auto simp: holdForRequestUnit_def unitPending_def unitDone_def Let_def split: option.splits)

end
