(* ===== verification/GraphKeys.thy ===== *)
theory GraphKeys
  imports RevIndex
begin

text \<open>
  The pure parts of the package-graph cache (\<open>graph.go\<close>): cache keys, the test whether a
  query fits a cached graph, the rewriting of a saved graph for another checkout, the
  \<open>//go:embed\<close> footprint and the freshness of the cache file.
\<close>

section \<open>Keys\<close>

definition NUL :: char where "NUL = CHR 0x00"

definition buildFlagsSuffix :: "string list \<Rightarrow> string" where
  "buildFlagsSuffix buildFlags =
     (if buildFlags = [] then ''''
      else [NUL, NUL] @ ''flags'' @ [NUL] @ joinWith [NUL] buildFlags)"

definition canonicalKey :: "string list \<Rightarrow> string list \<Rightarrow> string" where
  "canonicalKey patterns buildFlags = joinWith [NUL] patterns @ buildFlagsSuffix buildFlags"

definition nestedModuleCacheKeyBase :: string where
  "nestedModuleCacheKeyBase = ''nested:all''"

definition nestedModuleCacheKey :: "string list \<Rightarrow> string" where
  "nestedModuleCacheKey buildFlags = nestedModuleCacheKeyBase @ buildFlagsSuffix buildFlags"

definition nestedModuleLoadPattern :: "string list" where
  "nestedModuleLoadPattern = [''all'']"

section \<open>Queries\<close>

definition isWorkspaceQuery :: "string list \<Rightarrow> bool" where
  "isWorkspaceQuery patterns \<longleftrightarrow> list_ex (\<lambda>p. hasSuffix p ''/...'') patterns"

fun queryFileTargets :: "string list \<Rightarrow> string list" where
  "queryFileTargets [] = []"
| "queryFileTargets (p # ps) =
     (case cutPrefix p ''file='' of Some f \<Rightarrow> f # queryFileTargets ps | None \<Rightarrow> queryFileTargets ps)"

definition dirCompatible :: "string \<Rightarrow> string \<Rightarrow> bool" where
  "dirCompatible dir cachedDir \<longleftrightarrow>
     (if dir = '''' \<or> cachedDir = '''' \<or> dir = cachedDir then True
      else hasPrefix dir (cachedDir @ ''/''))"

section \<open>Retargeting a saved graph\<close>

record savedGraph =
  sg_resp :: string
  sg_patternsKey :: string
  sg_patterns :: "string list"
  sg_buildFlags :: "string list"
  sg_dir :: string
  sg_root :: string

text \<open>\<open>bytes.ReplaceAll\<close> for a non-empty pattern: from left to right, without overlap.\<close>

function replaceAll :: "string \<Rightarrow> string \<Rightarrow> string \<Rightarrow> string" where
  "replaceAll old new s =
     (if s = [] then []
      else if old \<noteq> [] \<and> hasPrefix s old then new @ replaceAll old new (drop (length old) s)
      else hd s # replaceAll old new (tl s))"
  by pat_completeness auto
termination
  by (relation "measure (\<lambda>(old, new, s). length s)") auto

declare replaceAll.simps [simp del]

definition quoteChar :: char where "quoteChar = CHR 0x22"

definition rewriteRoot :: "string \<Rightarrow> string \<Rightarrow> string \<Rightarrow> string" where
  "rewriteRoot resp oldRoot newRoot =
     (let resp' = replaceAll (quoteChar # oldRoot @ ''/'') (quoteChar # newRoot @ ''/'') resp
      in replaceAll (quoteChar # oldRoot @ [quoteChar]) (quoteChar # newRoot @ [quoteChar]) resp')"

definition retargetGraph :: "savedGraph \<Rightarrow> string \<Rightarrow> (string \<times> string) option" where
  "retargetGraph saved root =
     (let oldRoot = (if sg_root saved = '''' then sg_dir saved else sg_root saved)
      in if root = '''' \<or> oldRoot = root then Some (sg_resp saved, sg_dir saved)
         else if sg_dir saved = oldRoot then Some (rewriteRoot (sg_resp saved) oldRoot root, root)
         else if hasPrefix (sg_dir saved) (oldRoot @ ''/'')
         then Some (rewriteRoot (sg_resp saved) oldRoot root,
                    root @ drop (length oldRoot) (sg_dir saved))
         else None)"

section \<open>The embed footprint\<close>

text \<open>\<open>embedLiteralRoot\<close>: the position of the first wildcard cuts the pattern at the slash before it.\<close>

definition isWild :: "char \<Rightarrow> bool" where
  "isWild c \<longleftrightarrow> c \<in> {CHR ''*'', CHR ''?'', CHR ''[''}"

definition trimRightSlash :: "string \<Rightarrow> string" where
  "trimRightSlash s = rev (dropWhile (\<lambda>c. c = CHR ''/'') (rev s))"

definition embedLiteralRoot :: "string \<Rightarrow> string \<Rightarrow> string" where
  "embedLiteralRoot pattern dir =
     (let p = trimPrefix pattern ''all:'';
          p = (if filepathIsAbs p then p else filepathJoin dir p);
          lit = takeWhile (\<lambda>c. \<not> isWild c) p
      in if length lit < length p
         then (if CHR ''/'' \<notin> set lit then '''' else trimRightSlash (butlast (uptoSlash lit)))
         else trimRightSlash p)"

text \<open>A package as far as the footprint goes, and \<open>addEmbed\<close> over the accumulating sets.\<close>

record embedPkg =
  ep_goFiles :: "string list"
  ep_embedFiles :: "string list"
  ep_embedPatterns :: "string list"

definition addEmbed :: "embedPkg \<Rightarrow> string set \<times> string set \<Rightarrow> string set \<times> string set" where
  "addEmbed pkg acc =
     (let (files, prefixes) = acc;
          files' = files \<union> set (ep_embedFiles pkg)
      in if ep_embedPatterns pkg = [] \<or> ep_goFiles pkg = [] then (files', prefixes)
         else
           let dir = filepathDir (hd (ep_goFiles pkg))
           in (files', prefixes \<union>
                 set (filter (\<lambda>r. r \<noteq> '''') (map (\<lambda>pat. embedLiteralRoot pat dir) (ep_embedPatterns pkg)))))"

definition embedFootprint :: "embedPkg list \<Rightarrow> string set \<times> string set" where
  "embedFootprint pkgs = foldl (\<lambda>acc p. addEmbed p acc) ({}, {}) pkgs"

section \<open>Freshness of the cache file\<close>

text \<open>\<open>graphFresh\<close>: \<open>mtime\<close> is the modification time of a file that exists.\<close>

definition graphFresh :: "(string \<Rightarrow> int option) \<Rightarrow> string list \<Rightarrow> string \<Rightarrow> string \<Rightarrow> bool" where
  "graphFresh mtime moduleFiles cacheFile root =
     (if root = '''' then False
      else (case mtime cacheFile of
              None \<Rightarrow> False
            | Some cacheT \<Rightarrow>
                list_all (\<lambda>f. case mtime f of None \<Rightarrow> True | Some t \<Rightarrow> t < cacheT) moduleFiles))"

text \<open>\<open>moduleFiles\<close>: \<open>uses\<close> are the \<open>use\<close> paths of a \<open>go.work\<close> that can be read and parsed.\<close>

definition moduleFiles :: "string list option \<Rightarrow> string \<Rightarrow> string list" where
  "moduleFiles uses root =
     (let files = [filepathJoin root ''go.mod'', filepathJoin root ''go.sum'',
                   filepathJoin root ''go.work'', filepathJoin root ''go.work.sum'']
      in case uses of
           None \<Rightarrow> files
         | Some us \<Rightarrow> files @ concat (map (\<lambda>u.
             let dir = (if filepathIsAbs u then u else filepathJoin root u)
             in [filepathJoin dir ''go.mod'', filepathJoin dir ''go.sum'']) us))"

section \<open>Keys are faithful\<close>

definition nulFree :: "string list \<Rightarrow> bool" where
  "nulFree ss \<longleftrightarrow> list_all (\<lambda>s. NUL \<notin> set s) ss"

lemma split_key:
  assumes "nulFree patterns" and "patterns \<noteq> []" and "nulFree buildFlags"
  shows "splitOn NUL (canonicalKey patterns buildFlags) =
    patterns @ (if buildFlags = [] then [] else ['''', ''flags''] @ buildFlags)"
proof -
  have p: "splitOn NUL (joinWith [NUL] patterns) = patterns"
    using assms(1,2) by (intro splitOn_joinWith) (auto simp: nulFree_def list_all_iff)
  show ?thesis
  proof (cases "buildFlags = []")
    case True
    then show ?thesis using p by (simp add: canonicalKey_def buildFlagsSuffix_def)
  next
    case False
    have f: "splitOn NUL (joinWith [NUL] buildFlags) = buildFlags"
      using False assms(3) by (intro splitOn_joinWith) (auto simp: nulFree_def list_all_iff)
    have flags: "splitOn NUL ''flags'' = [''flags'']" by (simp add: NUL_def)
    have "canonicalKey patterns buildFlags =
        joinWith [NUL] patterns @ NUL # ('''' @ NUL # (''flags'' @ NUL # joinWith [NUL] buildFlags))"
      using False by (simp add: canonicalKey_def buildFlagsSuffix_def)
    then show ?thesis using False p f flags by (simp only: splitOn_sep) simp
  qed
qed

lemma takeWhile_patterns:
  "list_all (\<lambda>p. p \<noteq> '''') ps \<Longrightarrow>
     takeWhile (\<lambda>s. s \<noteq> '''') (ps @ (if fs = [] then [] else ['''', ''flags''] @ fs)) = ps \<and>
     drop (length ps + 2) (ps @ (if fs = [] then [] else ['''', ''flags''] @ fs)) = fs"
  by (induction ps) auto

text \<open>The arguments of queries with pairwise different keys.\<close>

definition queryOk :: "string list \<Rightarrow> string list \<Rightarrow> bool" where
  "queryOk ps fs \<longleftrightarrow> nulFree ps \<and> nulFree fs \<and> ps \<noteq> [] \<and> '''' \<notin> set ps"

lemma canonicalKey_inj:
  assumes "queryOk ps fs" and "queryOk qs gs" and "canonicalKey ps fs = canonicalKey qs gs"
  shows "ps = qs \<and> fs = gs"
proof -
  have "ps @ (if fs = [] then [] else ['''', ''flags''] @ fs) =
      qs @ (if gs = [] then [] else ['''', ''flags''] @ gs)"
    using split_key [of ps fs] split_key [of qs gs] assms by (metis queryOk_def)
  moreover have "list_all (\<lambda>p. p \<noteq> '''') ps" "list_all (\<lambda>p. p \<noteq> '''') qs"
    using assms(1,2) by (auto simp: list_all_iff queryOk_def)
  ultimately show ?thesis using takeWhile_patterns by metis
qed

text \<open>C34: cache keys do not collide. Two driver queries with non-empty patterns, none of them
  the empty string, and NUL-free arguments share a key only if they have the same patterns and the
  same build flags, in the same order.\<close>

theorem canonicalKey_injective:
  assumes "nulFree ps" and "nulFree qs" and "nulFree fs" and "nulFree gs"
    and "ps \<noteq> []" and "qs \<noteq> []" and "'''' \<notin> set ps" and "'''' \<notin> set qs"
    and "canonicalKey ps fs = canonicalKey qs gs"
  shows "ps = qs \<and> fs = gs"
  by (rule canonicalKey_inj) (use assms in \<open>simp_all add: queryOk_def\<close>)

theorem canonicalKey_injective_witness:
  "canonicalKey [''./...'', ''builtin''] [''-tags=x''] \<noteq> canonicalKey [''./...'', ''builtin''] []"
  using canonicalKey_injective [of "[''./...'', ''builtin'']" "[''./...'', ''builtin'']" "[''-tags=x'']" "[]"]
  by (auto simp: nulFree_def NUL_def)

text \<open>an empty pattern spoils the marker. The key of a query whose patterns contain the
  empty string can equal the key of another query with build flags, contrary to the comment of
  \<open>buildFlagsSuffix\<close>.\<close>

theorem canonicalKey_collision:
  "canonicalKey [''./...'', '''', ''flags'', ''-tags=x''] [] = canonicalKey [''./...''] [''-tags=x'']"
  by (simp add: canonicalKey_def buildFlagsSuffix_def)


section \<open>Rewriting a saved graph\<close>

text \<open>
  A marshaled response as \<open>rewriteRoot\<close> sees it: quoted strings between delimiters. A
  delimiter (a comma, a colon, a bracket, and so on) holds no quote and does not start
  with a slash, and the strings hold no quote.
\<close>

fun render :: "(string \<times> string) list \<Rightarrow> string \<Rightarrow> string" where
  "render [] t = t"
| "render ((d, s) # ts) t = d @ quoteChar # s @ quoteChar # render ts t"

definition delimOk :: "string \<Rightarrow> bool" where
  "delimOk d \<longleftrightarrow> d \<noteq> '''' \<and> quoteChar \<notin> set d \<and> hd d \<noteq> CHR ''/''"

definition docOk :: "(string \<times> string) list \<Rightarrow> string \<Rightarrow> bool" where
  "docOk ts t \<longleftrightarrow> list_all (\<lambda>(d, s). delimOk d \<and> quoteChar \<notin> set s) ts \<and> delimOk t"

definition movePath :: "string \<Rightarrow> string \<Rightarrow> string \<Rightarrow> string" where
  "movePath old new s =
     (if s = old then new
      else if hasPrefix s (old @ ''/'') then new @ drop (length old) s else s)"

lemma replaceAll_skip: "quoteChar \<notin> set t \<Longrightarrow> replaceAll (quoteChar # p) n (t @ r) = t @ replaceAll (quoteChar # p) n r"
  by (induction t) (simp_all add: replaceAll.simps [of _ _ "_ # _"])

lemma replaceAll_hit: "replaceAll (quoteChar # p) n (quoteChar # p @ r) = n @ replaceAll (quoteChar # p) n r"
  by (subst replaceAll.simps) simp

lemma replaceAll_miss:
  "\<not> hasPrefix r p \<Longrightarrow> replaceAll (quoteChar # p) n (quoteChar # r) = quoteChar # replaceAll (quoteChar # p) n r"
  by (subst replaceAll.simps) simp

lemma render_head: "docOk ts t \<Longrightarrow> \<exists>c r. render ts t = c # r \<and> c \<noteq> CHR ''/''"
  by (cases "(ts, t)" rule: render.cases)
    (auto simp: docOk_def delimOk_def neq_Nil_conv)

text \<open>The closing quote of a string never starts a match.\<close>

lemma replaceAll_close:
  assumes "docOk ts t"
  shows "replaceAll (quoteChar # CHR ''/'' # p) n (quoteChar # render ts t) =
    quoteChar # replaceAll (quoteChar # CHR ''/'' # p) n (render ts t)"
  using render_head [OF assms] by (auto intro: replaceAll_miss)

lemma prefix_to_quote:
  "quoteChar \<notin> set p \<Longrightarrow> quoteChar \<notin> set s \<Longrightarrow> hasPrefix (s @ quoteChar # r) p \<longleftrightarrow> hasPrefix s p"
proof (induction p arbitrary: s)
  case (Cons a p)
  then show ?case by (cases s) auto
qed simp

lemma prefix_whole_string:
  "quoteChar \<notin> set p \<Longrightarrow> quoteChar \<notin> set s \<Longrightarrow>
     hasPrefix (s @ quoteChar # r) (p @ [quoteChar]) \<longleftrightarrow> s = p"
proof (induction p arbitrary: s)
  case Nil
  then show ?case by (cases s) auto
next
  case (Cons a p)
  then show ?case by (cases s) auto
qed

text \<open>The first pass moves the strings below the root, the second the root itself.\<close>

definition moveBelow :: "string \<Rightarrow> string \<Rightarrow> string \<Rightarrow> string" where
  "moveBelow old new s = (if hasPrefix s (old @ ''/'') then new @ drop (length old) s else s)"

lemma first_pass:
  assumes "docOk ts t" and "hasPrefix old ''/''" and "quoteChar \<notin> set old"
  shows "replaceAll (quoteChar # old @ ''/'') (quoteChar # new @ ''/'') (render ts t) =
    render (map (apsnd (moveBelow old new)) ts) t"
  using assms(1)
proof (induction ts t rule: render.induct)
  case (1 t)
  then show ?case
    using replaceAll_skip [of t "old @ ''/''" "quoteChar # new @ ''/''" "[]"]
    by (simp add: docOk_def delimOk_def replaceAll.simps [of _ _ "[]"])
next
  case (2 d s ts t)
  let ?R = "replaceAll (quoteChar # old @ ''/'') (quoteChar # new @ ''/'')"
  have d: "quoteChar \<notin> set d" and s: "quoteChar \<notin> set s" and rest: "docOk ts t"
    using "2.prems" by (auto simp: docOk_def delimOk_def)
  have IH: "?R (render ts t) = render (map (apsnd (moveBelow old new)) ts) t"
    by (rule "2.IH" [OF rest])
  obtain old' where old: "old = CHR ''/'' # old'" using assms(2) by (cases old) auto
  have close: "?R (quoteChar # render ts t) = quoteChar # ?R (render ts t)"
    unfolding old append_Cons by (rule replaceAll_close [OF rest])
  have "?R (quoteChar # s @ quoteChar # render ts t) =
      quoteChar # moveBelow old new s @ quoteChar # ?R (render ts t)"
  proof (cases "hasPrefix s (old @ ''/'')")
    case True
    then obtain r where r: "s = old @ ''/'' @ r" by (auto simp: prefix_def)
    then have "quoteChar \<notin> set r" using s by simp
    then show ?thesis
      using replaceAll_hit [of "old @ ''/''" "quoteChar # new @ ''/''" "r @ quoteChar # render ts t"]
        replaceAll_skip [of r "old @ ''/''" "quoteChar # new @ ''/''" "quoteChar # render ts t"] close
      by (simp add: r moveBelow_def)
  next
    case False
    have "quoteChar \<notin> set (old @ ''/'')" using assms(3) by (simp add: quoteChar_def)
    then have "\<not> hasPrefix (s @ quoteChar # render ts t) (old @ ''/'')"
      using False s prefix_to_quote by blast
    then show ?thesis
      using False replaceAll_miss replaceAll_skip [OF s] close by (simp add: moveBelow_def)
  qed
  then show ?case using replaceAll_skip [OF d] IH by simp
qed

lemma second_pass:
  assumes "docOk ts t" and "hasPrefix old ''/''" and "quoteChar \<notin> set old"
  shows "replaceAll (quoteChar # old @ [quoteChar]) (quoteChar # new @ [quoteChar]) (render ts t) =
    render (map (apsnd (\<lambda>s. if s = old then new else s)) ts) t"
  using assms(1)
proof (induction ts t rule: render.induct)
  case (1 t)
  then show ?case
    using replaceAll_skip [of t "old @ [quoteChar]" "quoteChar # new @ [quoteChar]" "[]"]
    by (simp add: docOk_def delimOk_def replaceAll.simps [of _ _ "[]"])
next
  case (2 d s ts t)
  let ?R = "replaceAll (quoteChar # old @ [quoteChar]) (quoteChar # new @ [quoteChar])"
  have d: "quoteChar \<notin> set d" and s: "quoteChar \<notin> set s" and rest: "docOk ts t"
    using "2.prems" by (auto simp: docOk_def delimOk_def)
  obtain old' where old: "old = CHR ''/'' # old'" using assms(2) by (cases old) auto
  have close: "?R (quoteChar # render ts t) = quoteChar # ?R (render ts t)"
    unfolding old append_Cons by (rule replaceAll_close [OF rest])
  have "?R (quoteChar # s @ quoteChar # render ts t) =
      quoteChar # (if s = old then new else s) @ quoteChar # ?R (render ts t)"
  proof (cases "s = old")
    case True
    then show ?thesis
      using replaceAll_hit [of "old @ [quoteChar]" "quoteChar # new @ [quoteChar]" "render ts t"] by simp
  next
    case False
    then have "\<not> hasPrefix (s @ quoteChar # render ts t) (old @ [quoteChar])"
      using prefix_whole_string [OF assms(3) s] by blast
    then show ?thesis using False replaceAll_miss replaceAll_skip [OF s] close by simp
  qed
  then show ?case using replaceAll_skip [OF d] "2.IH" [OF rest] by simp
qed

lemma docOk_moveBelow:
  "docOk ts t \<Longrightarrow> quoteChar \<notin> set new \<Longrightarrow> docOk (map (apsnd (moveBelow old new)) ts) t"
  by (fastforce simp: docOk_def list_all_iff moveBelow_def dest: in_set_dropD split: if_splits)

text \<open>retargeting moves exactly the paths of the old checkout. In a marshaled response every
  string that is the old root or lies below it gets the new root in its place, and every other
  string, a sibling directory with the same prefix included, stays as it is; provided the new root
  does not enclose the old one.\<close>

theorem rewriteRoot_correct:
  assumes "docOk ts t" and "hasPrefix old ''/''" and "quoteChar \<notin> set old" and "quoteChar \<notin> set new"
    and "\<not> hasPrefix old (new @ ''/'')"
  shows "rewriteRoot (render ts t) old new = render (map (apsnd (movePath old new)) ts) t"
proof -
  have move: "(if moveBelow old new s = old then new else moveBelow old new s) = movePath old new s" for s
  proof -
    have "new @ drop (length old) s \<noteq> old" if "hasPrefix s (old @ ''/'')"
      using that assms(5) by (auto simp: prefix_def)
    moreover have "s \<noteq> old" if "hasPrefix s (old @ ''/'')" using that by (auto simp: prefix_def)
    ultimately show ?thesis by (auto simp: moveBelow_def movePath_def)
  qed
  have "rewriteRoot (render ts t) old new =
      render (map (apsnd (\<lambda>s. if s = old then new else s)) (map (apsnd (moveBelow old new)) ts)) t"
    unfolding rewriteRoot_def Let_def first_pass [OF assms(1-3)]
    by (rule second_pass [OF docOk_moveBelow [OF assms(1,4)] assms(2,3)])
  also have "\<dots> = render (map (apsnd (movePath old new)) ts) t"
    unfolding map_map by (intro arg_cong2 [where f = render] map_cong refl)
      (simp add: apsnd_def map_prod_def case_prod_unfold comp_def flip: move)
  finally show ?thesis .
qed

theorem rewriteRoot_correct_witness:
  "rewriteRoot (render [(''{'', ''GoFiles''), ('':['', ''/r/wt/a.go''), ('','', ''/r/wt-2/b.go'')] '']}'')
     ''/r/wt'' ''/s'' =
   render (map (apsnd (movePath ''/r/wt'' ''/s''))
     [(''{'', ''GoFiles''), ('':['', ''/r/wt/a.go''), ('','', ''/r/wt-2/b.go'')]) '']}''"
  by (rule rewriteRoot_correct) (simp_all add: docOk_def delimOk_def quoteChar_def)

text \<open>an enclosing root is not retargeted correctly. Moving a graph from the worktree
  \<open>/r/wt\<close> to the repository \<open>/r\<close> takes the directory \<open>/r/wt/wt\<close> to \<open>/r\<close> instead of
  \<open>/r/wt\<close>, since the result of the first pass is rewritten by the second.\<close>

theorem rewriteRoot_enclosing:
  "rewriteRoot ([quoteChar] @ ''/r/wt/wt'' @ [quoteChar]) ''/r/wt'' ''/r'' =
     [quoteChar] @ ''/r'' @ [quoteChar]"
  by code_simp


text \<open>the root of a wildcard pattern is the package directory. The comment of
  \<open>embedLiteralRoot\<close> promises the empty string when the first segment is a wildcard; the code
  resolves the pattern against the directory first, so the whole package directory counts as
  embedded.\<close>

theorem embedLiteralRoot_wildcard:
  "embedLiteralRoot ''*.txt'' ''/w/pkg'' = ''/w/pkg''"
  by code_simp

end
