(* ===== verification/GraphSlot.thy ===== *)
theory GraphSlot
  imports GraphKeys
begin

text \<open>
  One slot of the package-graph cache (\<open>graph.go\<close>, type \<open>graphSlot\<close>): serving driver
  queries from it, building it in the background or synchronously, and marking it
  stale. \<open>packages.Load\<close> is code outside the repository: the result of a build is an
  argument of the step that finishes it.
\<close>

section \<open>State\<close>

record graphSlot =
  sl_resp :: "string option"
  sl_patternsKey :: string
  sl_patterns :: "string list"
  sl_buildFlags :: "string list"
  sl_dir :: string
  sl_building :: bool
  sl_stale :: bool
  sl_timer :: bool
  sl_embedReady :: bool
  sl_embedFiles :: "string set"
  sl_embedPrefixes :: "string set"

definition emptySlot :: graphSlot where
  "emptySlot =
     \<lparr>sl_resp = None, sl_patternsKey = '''', sl_patterns = [], sl_buildFlags = [], sl_dir = '''',
      sl_building = False, sl_stale = False, sl_timer = False, sl_embedReady = False,
      sl_embedFiles = {}, sl_embedPrefixes = {}\<rparr>"

text \<open>The arguments a build is started with.\<close>

record buildJob =
  b_patterns :: "string list"
  b_dir :: string
  b_key :: string
  b_flags :: "string list"

text \<open>The driver query with the part of the request that is used.\<close>

record driverQuery =
  q_patterns :: "string list"
  q_dir :: string
  q_buildFlags :: "string list"
  q_overlay :: "(string \<times> string) list"

text \<open>The answer: delegated to \<open>go list\<close>, or a response.\<close>

datatype answer = NotHandled | Served string

section \<open>Builds\<close>

text \<open>
  The end of \<open>buildSlot\<close>: a failed load only clears the flag; otherwise the response and what
  it was built from are published in one critical section, and the embed footprint in
  the next (\<open>storeEmbedSlot\<close>).
\<close>

definition finishBuild :: "buildJob \<Rightarrow> string option \<Rightarrow> graphSlot \<Rightarrow> graphSlot" where
  "finishBuild job result slot =
     (case result of
        None \<Rightarrow> slot\<lparr>sl_building := False\<rparr>
      | Some b \<Rightarrow>
          slot\<lparr>sl_resp := Some b, sl_patterns := b_patterns job, sl_patternsKey := b_key job,
               sl_buildFlags := b_flags job, sl_dir := b_dir job, sl_stale := False,
               sl_building := False\<rparr>)"

definition storeEmbedSlot :: "string set \<Rightarrow> string set \<Rightarrow> graphSlot \<Rightarrow> graphSlot" where
  "storeEmbedSlot files prefixSet slot =
     slot\<lparr>sl_embedFiles := files, sl_embedPrefixes := prefixSet, sl_embedReady := True\<rparr>"

section \<open>Serving from the main slot\<close>

text \<open>
  \<open>overlayDirty\<close>: \<open>sameImports\<close> is the check of the index, absent when there is none.
\<close>

fun overlayDirty :: "(string \<Rightarrow> string \<Rightarrow> bool) option \<Rightarrow> (string \<times> string) list \<Rightarrow> bool" where
  "overlayDirty sameImports [] = False"
| "overlayDirty sameImports ((path, content) # ov) =
     (if \<not> hasSuffix path ''.go'' then True
      else (case sameImports of
              None \<Rightarrow> True
            | Some same \<Rightarrow> if \<not> same path content then True else overlayDirty sameImports ov))"

text \<open>
  \<open>answerSlot\<close>: the answer, the job started in the background, if any, and the slot.
\<close>

definition answerSlot ::
  "(string \<Rightarrow> string \<Rightarrow> bool) option \<Rightarrow> driverQuery \<Rightarrow> string \<Rightarrow> graphSlot
   \<Rightarrow> answer \<times> buildJob option \<times> graphSlot" where
  "answerSlot sameImports q key slot =
     (let startQuery = (if isWorkspaceQuery (q_patterns q) \<and> \<not> sl_building slot
            then (Some \<lparr>b_patterns = q_patterns q, b_dir = q_dir q, b_key = key,
                        b_flags = q_buildFlags q\<rparr>, slot\<lparr>sl_building := True\<rparr>)
            else (None, slot))
      in case sl_resp slot of
           None \<Rightarrow> (NotHandled, startQuery)
         | Some resp \<Rightarrow>
             if key \<noteq> sl_patternsKey slot then (NotHandled, startQuery)
             else if \<not> dirCompatible (q_dir q) (sl_dir slot) then (NotHandled, startQuery)
             else
               let refresh = (if sl_stale slot \<and> \<not> sl_building slot
                     then (Some \<lparr>b_patterns = sl_patterns slot, b_dir = sl_dir slot, b_key = key,
                                 b_flags = sl_buildFlags slot\<rparr>, slot\<lparr>sl_building := True\<rparr>)
                     else (None, slot))
               in if overlayDirty sameImports (q_overlay q) then (NotHandled, refresh)
                  else (Served resp, refresh))"

section \<open>Serving from a nested slot\<close>

definition nestedJob :: "string \<Rightarrow> string list \<Rightarrow> buildJob" where
  "nestedJob modRoot flags =
     \<lparr>b_patterns = nestedModuleLoadPattern, b_dir = modRoot, b_key = nestedModuleCacheKey flags,
      b_flags = flags\<rparr>"

definition answerNestedSlotFromCache ::
  "(string \<Rightarrow> string \<Rightarrow> bool) option \<Rightarrow> string \<Rightarrow> driverQuery \<Rightarrow> string \<Rightarrow> bool \<Rightarrow> graphSlot
   \<Rightarrow> answer \<times> buildJob option \<times> graphSlot" where
  "answerNestedSlotFromCache sameImports modRoot q resp stale slot =
     (if overlayDirty sameImports (q_overlay q) then (NotHandled, None, slot)
      else if \<not> stale then (Served resp, None, slot)
      else if \<not> sl_building slot
      then (Served resp, Some (nestedJob modRoot (q_buildFlags q)), slot\<lparr>sl_building := True\<rparr>)
      else (Served resp, None, slot))"

text \<open>
  \<open>answerNestedSlot\<close> up to the point where it answers or has to build synchronously;
  \<open>nestedAfterBuild\<close> is what it answers after that build.
\<close>

datatype nestedOutcome =
    Answered answer "buildJob option"
  | MustBuild buildJob

definition answerNestedSlot ::
  "(string \<Rightarrow> string \<Rightarrow> bool) option \<Rightarrow> string \<Rightarrow> driverQuery \<Rightarrow> graphSlot \<Rightarrow> nestedOutcome \<times> graphSlot" where
  "answerNestedSlot sameImports modRoot q slot =
     (let wantKey = nestedModuleCacheKey (q_buildFlags q);
          miss = (if sl_building slot then (Answered NotHandled None, slot)
                  else (MustBuild (nestedJob modRoot (q_buildFlags q)), slot\<lparr>sl_building := True\<rparr>))
      in case sl_resp slot of
           None \<Rightarrow> miss
         | Some resp \<Rightarrow>
             if sl_patternsKey slot \<noteq> wantKey then miss
             else
               let (a, job, slot') =
                 answerNestedSlotFromCache sameImports modRoot q resp (sl_stale slot) slot
               in (Answered a job, slot'))"

definition nestedAfterBuild :: "graphSlot \<Rightarrow> answer" where
  "nestedAfterBuild slot = (case sl_resp slot of None \<Rightarrow> NotHandled | Some resp \<Rightarrow> Served resp)"

section \<open>Staleness\<close>

text \<open>\<open>markSlotStale\<close> arms the timer; \<open>staleTimer\<close> is what the timer does when it fires.\<close>

definition markSlotStale :: "graphSlot \<Rightarrow> graphSlot" where
  "markSlotStale slot =
     (if sl_patternsKey slot = '''' then slot else slot\<lparr>sl_stale := True, sl_timer := True\<rparr>)"

definition staleTimer :: "graphSlot \<Rightarrow> buildJob option \<times> graphSlot" where
  "staleTimer slot =
     (let slot' = slot\<lparr>sl_timer := False\<rparr>
      in if sl_building slot then (None, slot')
         else (Some \<lparr>b_patterns = sl_patterns slot, b_dir = sl_dir slot, b_key = sl_patternsKey slot,
                     b_flags = sl_buildFlags slot\<rparr>, slot'\<lparr>sl_building := True\<rparr>))"

section \<open>The disk cache\<close>

text \<open>
  \<open>loadDiskCache\<close>: what a readable cache file gives the main slot, and the deferred
  revalidation, which runs with the saved patterns and the retargeted directory.
\<close>

definition loadDiskCache :: "savedGraph \<Rightarrow> string \<Rightarrow> graphSlot \<Rightarrow> (graphSlot \<times> buildJob) option" where
  "loadDiskCache saved root slot =
     (if sg_resp saved = '''' \<or> sg_patternsKey saved = '''' \<or> sg_dir saved = '''' then None
      else
        (case retargetGraph saved root of
           None \<Rightarrow> None
         | Some (resp, dir) \<Rightarrow>
             Some (slot\<lparr>sl_resp := Some resp, sl_patternsKey := sg_patternsKey saved,
                        sl_patterns := sg_patterns saved, sl_buildFlags := sg_buildFlags saved,
                        sl_dir := dir, sl_stale := False\<rparr>,
                   \<lparr>b_patterns = sg_patterns saved, b_dir = dir, b_key = sg_patternsKey saved,
                    b_flags = sg_buildFlags saved\<rparr>)))"

definition revalidate :: "buildJob \<Rightarrow> graphSlot \<Rightarrow> buildJob option \<times> graphSlot" where
  "revalidate job slot =
     (if sl_building slot then (None, slot) else (Some job, slot\<lparr>sl_building := True\<rparr>))"

text \<open>\<open>saveDiskCache\<close>: what is written after a build of the main slot.\<close>

definition saveDiskCache :: "string \<Rightarrow> buildJob \<Rightarrow> string \<Rightarrow> savedGraph" where
  "saveDiskCache b job root =
     \<lparr>sg_resp = b, sg_patternsKey = b_key job, sg_patterns = b_patterns job,
      sg_buildFlags = b_flags job, sg_dir = b_dir job, sg_root = root\<rparr>"


section \<open>The life of the main slot\<close>

text \<open>
  The main slot with the builds that run. \<open>loaded\<close> tells what \<open>go list\<close> may return at some
  time for patterns, directory and build flags; the queries are well-formed in the sense of
  \<open>queryOk\<close>.
\<close>

type_synonym loads = "string list \<Rightarrow> string \<Rightarrow> string list \<Rightarrow> string \<Rightarrow> bool"

definition optJob :: "buildJob option \<Rightarrow> buildJob list" where
  "optJob j = (case j of None \<Rightarrow> [] | Some job \<Rightarrow> [job])"

inductive gstep :: "loads \<Rightarrow> graphSlot \<times> buildJob list \<Rightarrow> graphSlot \<times> buildJob list \<Rightarrow> bool"
  for loaded where
  g_query: "queryOk (q_patterns q) (q_buildFlags q) \<Longrightarrow>
    answerSlot si q (canonicalKey (q_patterns q) (q_buildFlags q)) slot = (a, j, slot') \<Longrightarrow>
    gstep loaded (slot, jobs) (slot', jobs @ optJob j)"
| g_mark: "gstep loaded (slot, jobs) (markSlotStale slot, jobs)"
| g_timer: "sl_timer slot \<Longrightarrow> staleTimer slot = (j, slot') \<Longrightarrow>
    gstep loaded (slot, jobs) (slot', jobs @ optJob j)"
| g_revalidate: "queryOk (b_patterns job) (b_flags job) \<Longrightarrow>
    b_key job = canonicalKey (b_patterns job) (b_flags job) \<Longrightarrow> revalidate job slot = (j, slot') \<Longrightarrow>
    gstep loaded (slot, jobs) (slot', jobs @ optJob j)"
| g_finish: "job \<in> set jobs \<Longrightarrow>
    (\<And>b. result = Some b \<Longrightarrow> loaded (b_patterns job) (b_dir job) (b_flags job) b) \<Longrightarrow>
    gstep loaded (slot, jobs) (finishBuild job result slot, remove1 job jobs)"
| g_embed: "gstep loaded (slot, jobs) (storeEmbedSlot files prefixSet slot, jobs)"

inductive_cases gstepE: "gstep loaded (slot, jobs) s'"

text \<open>The slot starts empty, or with a disk cache that an earlier session saved.\<close>

inductive slotReachable :: "loads \<Rightarrow> graphSlot \<times> buildJob list \<Rightarrow> bool" for loaded where
  sr_empty: "slotReachable loaded (emptySlot, [])"
| sr_disk: "queryOk (sg_patterns saved) (sg_buildFlags saved) \<Longrightarrow>
    sg_patternsKey saved = canonicalKey (sg_patterns saved) (sg_buildFlags saved) \<Longrightarrow>
    loadDiskCache saved root emptySlot = Some (slot, job) \<Longrightarrow>
    loaded (sl_patterns slot) (sl_dir slot) (sl_buildFlags slot) (the (sl_resp slot)) \<Longrightarrow>
    slotReachable loaded (slot, [])"
| sr_step: "slotReachable loaded s \<Longrightarrow> gstep loaded s s' \<Longrightarrow> slotReachable loaded s'"

definition job_ok :: "buildJob \<Rightarrow> bool" where
  "job_ok job \<longleftrightarrow> queryOk (b_patterns job) (b_flags job) \<and>
     b_key job = canonicalKey (b_patterns job) (b_flags job)"

definition slot_ok :: "loads \<Rightarrow> graphSlot \<times> buildJob list \<Rightarrow> bool" where
  "slot_ok loaded s \<longleftrightarrow>
     (case s of (slot, jobs) \<Rightarrow>
        length jobs = (if sl_building slot then 1 else 0) \<and>
        list_all job_ok jobs \<and>
        (sl_timer slot \<longrightarrow> sl_resp slot \<noteq> None) \<and>
        (sl_resp slot = None \<longrightarrow> sl_patternsKey slot = '''') \<and>
        (\<forall>b. sl_resp slot = Some b \<longrightarrow>
           queryOk (sl_patterns slot) (sl_buildFlags slot) \<and>
           sl_patternsKey slot = canonicalKey (sl_patterns slot) (sl_buildFlags slot) \<and>
           loaded (sl_patterns slot) (sl_dir slot) (sl_buildFlags slot) b))"

text \<open>What a query does to the slot: nothing, or it starts one well-formed build.\<close>

lemma answerSlot_cases:
  assumes "answerSlot si q key slot = (a, j, slot')"
  shows "(j = None \<and> slot' = slot) \<or>
    (\<not> sl_building slot \<and> slot' = slot\<lparr>sl_building := True\<rparr> \<and>
      (j = Some \<lparr>b_patterns = q_patterns q, b_dir = q_dir q, b_key = key, b_flags = q_buildFlags q\<rparr> \<or>
       (sl_resp slot \<noteq> None \<and> key = sl_patternsKey slot \<and>
        j = Some \<lparr>b_patterns = sl_patterns slot, b_dir = sl_dir slot, b_key = key,
                  b_flags = sl_buildFlags slot\<rparr>)))"
  using assms by (auto simp: answerSlot_def Let_def split: option.splits if_splits)

lemma slot_ok_start:
  assumes "slot_ok loaded (slot, jobs)" and "\<not> sl_building slot" and "job_ok job"
  shows "slot_ok loaded (slot\<lparr>sl_building := True\<rparr>, jobs @ [job])"
    and "slot_ok loaded (slot\<lparr>sl_timer := False, sl_building := True\<rparr>, jobs @ [job])"
  using assms by (auto simp: slot_ok_def)

lemma slot_ok_step: "gstep loaded s s' \<Longrightarrow> slot_ok loaded s \<Longrightarrow> slot_ok loaded s'"
proof (induction rule: gstep.induct)
  case (g_query q si slot a j slot' jobs)
  from answerSlot_cases [OF g_query.hyps(2)] g_query.prems g_query.hyps(1) show ?case
    by (auto simp: optJob_def job_ok_def slot_ok_def)
next
  case (g_mark slot jobs)
  then show ?case by (auto simp: slot_ok_def markSlotStale_def)
next
  case (g_timer slot j slot' jobs)
  then show ?case
    by (auto simp: slot_ok_def staleTimer_def optJob_def job_ok_def Let_def split: if_splits)
next
  case (g_revalidate job slot j slot' jobs)
  then show ?case
    by (auto simp: slot_ok_def revalidate_def optJob_def job_ok_def split: if_splits)
next
  case (g_finish job jobs result slot)
  from g_finish.prems have "length jobs \<le> 1" by (simp add: slot_ok_def)
  with g_finish.hyps(1) have "jobs = [job]" by (cases jobs) auto
  with g_finish show ?case
    by (auto simp: slot_ok_def finishBuild_def job_ok_def split: option.splits)
next
  case (g_embed slot jobs files prefixSet)
  then show ?case by (simp add: slot_ok_def storeEmbedSlot_def)
qed

lemma slot_ok_reachable: "slotReachable loaded s \<Longrightarrow> slot_ok loaded s"
proof (induction rule: slotReachable.induct)
  case sr_empty
  then show ?case by (simp add: slot_ok_def emptySlot_def)
next
  case (sr_disk saved root slot job)
  then show ?case
    by (auto simp: slot_ok_def loadDiskCache_def emptySlot_def split: if_splits option.splits)
next
  case (sr_step s s')
  then show ?case by (blast intro: slot_ok_step)
qed

text \<open>What a served response was loaded for.\<close>

lemma served_slot:
  assumes "slotReachable loaded (slot, jobs)" and "queryOk (q_patterns q) (q_buildFlags q)"
    and "answerSlot si q (canonicalKey (q_patterns q) (q_buildFlags q)) slot = (Served b, j, slot')"
  shows "\<exists>dir. loaded (q_patterns q) dir (q_buildFlags q) b \<and> dirCompatible (q_dir q) dir \<and>
    \<not> overlayDirty si (q_overlay q)"
proof -
  have resp: "sl_resp slot = Some b"
    and key: "canonicalKey (q_patterns q) (q_buildFlags q) = sl_patternsKey slot"
    and rest: "dirCompatible (q_dir q) (sl_dir slot)" "\<not> overlayDirty si (q_overlay q)"
    using assms(3) by (auto simp: answerSlot_def Let_def split: option.splits if_splits)
  have ok: "queryOk (sl_patterns slot) (sl_buildFlags slot)"
    "sl_patternsKey slot = canonicalKey (sl_patterns slot) (sl_buildFlags slot)"
    "loaded (sl_patterns slot) (sl_dir slot) (sl_buildFlags slot) b"
    using slot_ok_reachable [OF assms(1)] resp by (auto simp: slot_ok_def)
  have "q_patterns q = sl_patterns slot \<and> q_buildFlags q = sl_buildFlags slot"
    by (rule canonicalKey_inj) (use assms(2) ok key in simp_all)
  then show ?thesis using ok(3) rest by auto
qed

section \<open>Properties\<close>

text \<open>a served graph is the right graph. In every interleaving of queries, builds, timers
  and invalidations, when the main slot serves a response, then \<open>go list\<close> returned it for the very
  patterns and build flags of the query, in a directory that contains the query's, and no overlay
  of the query changes the imports of a file.\<close>

theorem served_graph_matches:
  assumes "slotReachable loaded (slot, jobs)" and "queryOk (q_patterns q) (q_buildFlags q)"
    and "answerSlot si q (canonicalKey (q_patterns q) (q_buildFlags q)) slot = (Served b, j, slot')"
  shows "\<exists>dir. loaded (q_patterns q) dir (q_buildFlags q) b \<and> dirCompatible (q_dir q) dir \<and>
    \<not> overlayDirty si (q_overlay q)"
  by (rule served_slot [OF assms])

text \<open>A slot loaded from disk.\<close>

definition exampleSaved :: savedGraph where
  "exampleSaved = \<lparr>sg_resp = ''G'', sg_patternsKey = canonicalKey [''./...''] [], sg_patterns = [''./...''],
     sg_buildFlags = [], sg_dir = ''/w'', sg_root = ''/w''\<rparr>"

definition exampleSlot :: graphSlot where
  "exampleSlot = emptySlot\<lparr>sl_resp := Some ''G'', sl_patternsKey := canonicalKey [''./...''] [],
     sl_patterns := [''./...''], sl_dir := ''/w''\<rparr>"

definition exampleQuery :: driverQuery where
  "exampleQuery = \<lparr>q_patterns = [''./...''], q_dir = ''/w/pkg'', q_buildFlags = [], q_overlay = []\<rparr>"

lemma exampleQuery_ok: "queryOk [''./...''] []"
  by (simp add: queryOk_def nulFree_def NUL_def)

lemma exampleSlot_reachable: "slotReachable (\<lambda>ps d fs b. b = ''G'') (exampleSlot, [])"
proof (rule sr_disk)
  show "loadDiskCache exampleSaved ''/w'' emptySlot = Some (exampleSlot,
      \<lparr>b_patterns = [''./...''], b_dir = ''/w'', b_key = canonicalKey [''./...''] [], b_flags = []\<rparr>)"
    by (simp add: loadDiskCache_def exampleSaved_def exampleSlot_def emptySlot_def retargetGraph_def
        canonicalKey_def)
qed (simp_all add: exampleSaved_def exampleSlot_def exampleQuery_ok)

lemma exampleSlot_serves:
  "answerSlot None exampleQuery (canonicalKey (q_patterns exampleQuery) (q_buildFlags exampleQuery))
     exampleSlot = (Served ''G'', None, exampleSlot)"
  by (simp add: answerSlot_def exampleSlot_def exampleQuery_def emptySlot_def dirCompatible_def)

theorem served_graph_matches_witness:
  "\<exists>dir. ''G'' = (''G'' :: string) \<and> dirCompatible (q_dir exampleQuery) dir \<and>
    \<not> overlayDirty None (q_overlay exampleQuery)"
  by (rule served_graph_matches [OF exampleSlot_reachable _ exampleSlot_serves])
    (simp add: exampleQuery_def exampleQuery_ok)

text \<open>one build at a time. However queries, timers and revalidation interleave, a slot never
  has more than one build running, and the flag \<open>building\<close> is set exactly while one runs.\<close>

theorem one_build_at_a_time:
  assumes "slotReachable loaded (slot, jobs)"
  shows "length jobs = (if sl_building slot then 1 else 0)"
  using slot_ok_reachable [OF assms] by (simp add: slot_ok_def)

theorem one_build_at_a_time_witness:
  "length ([] :: buildJob list) = (if sl_building exampleSlot then 1 else 0)"
  by (rule one_build_at_a_time [OF exampleSlot_reachable])

text \<open>an invalidation can be lost. When a slot is marked stale again while the build that
  the first mark started is running, the second timer finds the build running and does nothing, and
  the end of the build clears the mark: no rebuild is pending although the second change may
  have come after the build read the files.\<close>

theorem invalidation_lost:
  assumes "sl_patternsKey slot \<noteq> ''''" and "\<not> sl_building slot"
    and "staleTimer (markSlotStale slot) = (Some job, s1)"
    and "staleTimer (markSlotStale s1) = (j2, s2)"
  shows "j2 = None \<and> \<not> sl_stale (finishBuild job (Some b) s2) \<and>
    \<not> sl_timer (finishBuild job (Some b) s2) \<and> \<not> sl_building (finishBuild job (Some b) s2)"
  using assms by (auto simp: staleTimer_def markSlotStale_def finishBuild_def Let_def split: if_splits)

theorem invalidation_lost_witness:
  "\<not> sl_stale (finishBuild (the (fst (staleTimer (markSlotStale exampleSlot)))) (Some ''G'')
     (snd (staleTimer (markSlotStale (snd (staleTimer (markSlotStale exampleSlot)))))))"
  using invalidation_lost [of exampleSlot "the (fst (staleTimer (markSlotStale exampleSlot)))"
      "snd (staleTimer (markSlotStale exampleSlot))"
      "fst (staleTimer (markSlotStale (snd (staleTimer (markSlotStale exampleSlot)))))"
      "snd (staleTimer (markSlotStale (snd (staleTimer (markSlotStale exampleSlot)))))" "''G''"]
  by (simp add: exampleSlot_def emptySlot_def canonicalKey_def staleTimer_def markSlotStale_def Let_def)

text \<open>a failed nested build answers for the wrong flags. A nested slot that holds a graph for
  other build flags answers a query, when the build for it fails, with that graph.\<close>

theorem nested_failure_serves_old_flags:
  assumes "sl_resp slot = Some old" and "sl_patternsKey slot = nestedModuleCacheKey flags"
    and "nestedModuleCacheKey (q_buildFlags q) \<noteq> nestedModuleCacheKey flags" and "\<not> sl_building slot"
  shows "\<exists>job slot'. answerNestedSlot si modRoot q slot = (MustBuild job, slot') \<and>
    nestedAfterBuild (finishBuild job None slot') = Served old"
  using assms by (auto simp: answerNestedSlot_def nestedAfterBuild_def finishBuild_def Let_def)


theorem nested_failure_serves_old_flags_witness:
  "\<exists>job slot'. answerNestedSlot None ''/w/wt'' (exampleQuery\<lparr>q_buildFlags := [''-tags=x'']\<rparr>)
      (emptySlot\<lparr>sl_resp := Some ''G'', sl_patternsKey := nestedModuleCacheKey []\<rparr>) = (MustBuild job, slot') \<and>
    nestedAfterBuild (finishBuild job None slot') = Served ''G''"
  by (rule nested_failure_serves_old_flags [where flags = "[]"])
    (simp_all add: exampleQuery_def emptySlot_def nestedModuleCacheKey_def buildFlagsSuffix_def)

end
