(* ===== verification/Modules.thy ===== *)
theory Modules
  imports GraphSlot Barrier
begin

text \<open>
  Nested modules: how driver queries are routed to the slot of their module (\<open>graph.go\<close>), the
  index of each module (\<open>indexFor\<close>, \<open>revindex.go\<close>), what changes of files do to both
  and when idle modules are dropped (\<open>proxy.go\<close>).
\<close>

section \<open>The graph server\<close>

record graphServer =
  gs_root :: string
  gs_main :: graphSlot
  gs_subslots :: "(string, graphSlot) gomap"

text \<open>\<open>resolveModRoot\<close>; the first argument is the module detection, absent when it is not wired.\<close>

definition resolveModRoot ::
  "(string \<Rightarrow> string \<Rightarrow> string) option \<Rightarrow> graphServer \<Rightarrow> string \<Rightarrow> string" where
  "resolveModRoot modRoots g dir =
     (case modRoots of
        None \<Rightarrow> ''''
      | Some rootFor \<Rightarrow>
          if dir = '''' then '''' else if gs_root g = '''' then '''' else rootFor dir (gs_root g))"

fun firstModRoot ::
  "(string \<Rightarrow> string \<Rightarrow> string) option \<Rightarrow> graphServer \<Rightarrow> string list \<Rightarrow> string" where
  "firstModRoot modRoots g [] = ''''"
| "firstModRoot modRoots g (f # fs) =
     (let modRoot = resolveModRoot modRoots g (filepathDir f)
      in if modRoot \<noteq> '''' then modRoot else firstModRoot modRoots g fs)"

definition resolveModRootForQuery ::
  "(string \<Rightarrow> string \<Rightarrow> string) option \<Rightarrow> graphServer \<Rightarrow> driverQuery \<Rightarrow> string" where
  "resolveModRootForQuery modRoots g q =
     (let modRoot = resolveModRoot modRoots g (q_dir q)
      in if modRoot \<noteq> '''' then modRoot
         else firstModRoot modRoots g (queryFileTargets (q_patterns q)))"

definition subslotRoots :: "graphServer \<Rightarrow> string list" where
  "subslotRoots g = gkeys (gs_subslots g)"

definition RemoveSlot :: "string \<Rightarrow> graphServer \<Rightarrow> graphServer" where
  "RemoveSlot modRoot g = g\<lparr>gs_subslots := gdel modRoot (gs_subslots g)\<rparr>"

definition subslotFor :: "string \<Rightarrow> graphServer \<Rightarrow> graphSlot \<times> graphServer" where
  "subslotFor modRoot g =
     (case gget (gs_subslots g) modRoot of
        Some slot \<Rightarrow> (slot, g)
      | None \<Rightarrow> (emptySlot, g\<lparr>gs_subslots := gput modRoot emptySlot (gs_subslots g)\<rparr>))"

text \<open>
  \<open>answer\<close>: the slot a query is dispatched to and what it does there. \<open>idxOf\<close> gives the check
  for overlays of the index of a module (the empty string is the main one). A query that does
  not parse is \<open>None\<close>.
\<close>

datatype dispatched = FromMain answer "buildJob option" | FromNested string nestedOutcome

definition answerQuery ::
  "(string \<Rightarrow> string \<Rightarrow> string) option \<Rightarrow> (string \<Rightarrow> (string \<Rightarrow> string \<Rightarrow> bool) option)
   \<Rightarrow> driverQuery option \<Rightarrow> graphServer \<Rightarrow> dispatched \<times> graphServer" where
  "answerQuery modRoots idxOf query g =
     (case query of
        None \<Rightarrow> (FromMain NotHandled None, g)
      | Some q \<Rightarrow>
          let key = canonicalKey (q_patterns q) (q_buildFlags q);
              modRoot = resolveModRootForQuery modRoots g q
          in if modRoot = '''' then
               (let (a, job, slot) = answerSlot (idxOf '''') q key (gs_main g)
                in (FromMain a job, g\<lparr>gs_main := slot\<rparr>))
             else
               (let (slot, g1) = subslotFor modRoot g;
                    (r, slot') = answerNestedSlot (idxOf modRoot) modRoot q slot
                in (FromNested modRoot r, g1\<lparr>gs_subslots := gput modRoot slot' (gs_subslots g1)\<rparr>)))"

text \<open>\<open>IsEmbedFile\<close> and \<open>MarkStaleFor\<close>.\<close>

definition IsEmbedFile :: "graphServer \<Rightarrow> string \<Rightarrow> bool" where
  "IsEmbedFile g p =
     (if \<not> sl_embedReady (gs_main g) then True
      else if p \<in> sl_embedFiles (gs_main g) then True
      else \<exists>root \<in> sl_embedPrefixes (gs_main g). p = root \<or> hasPrefix p (root @ ''/''))"

definition MarkStale :: "graphServer \<Rightarrow> graphServer" where
  "MarkStale g = g\<lparr>gs_main := markSlotStale (gs_main g)\<rparr>"

definition MarkStaleFor ::
  "(string \<Rightarrow> string \<Rightarrow> string) option \<Rightarrow> string \<Rightarrow> graphServer \<Rightarrow> graphServer" where
  "MarkStaleFor modRoots path g =
     (let modRoot = resolveModRoot modRoots g (filepathDir path)
      in if modRoot = '''' then MarkStale g
         else (case gget (gs_subslots g) modRoot of
                 None \<Rightarrow> g
               | Some slot \<Rightarrow>
                   g\<lparr>gs_subslots := gput modRoot (markSlotStale slot) (gs_subslots g)\<rparr>))"

section \<open>The modules of the proxy\<close>

text \<open>
  What the proxy keeps per module: the main index, the indexes of the nested modules, the graph server (absent
  without the driver) and the module-root cache (absent without nested modules). \<open>md_started\<close>
  records the indexes whose building was started.
\<close>

record modState =
  md_root :: string
  md_idx :: revIndex
  md_subIdx :: "(string, revIndex) gomap"
  md_started :: "string list"
  md_graph :: "graphServer option"
  md_modRoots :: "moduleRootCache option"

definition indexFor :: "string \<Rightarrow> modState \<Rightarrow> revIndex \<times> modState" where
  "indexFor modRoot md =
     (if modRoot = '''' then (md_idx md, md)
      else (case gget (md_subIdx md) modRoot of
              Some ri \<Rightarrow> (ri, md)
            | None \<Rightarrow> (newRevIndex,
                md\<lparr>md_subIdx := gput modRoot newRevIndex (md_subIdx md),
                   md_started := md_started md @ [modRoot]\<rparr>)))"

text \<open>The detection as the graph uses it: the cache in front of the walk is invisible.\<close>

definition rootForOf :: "fileSystem \<Rightarrow> modState \<Rightarrow> (string \<Rightarrow> string \<Rightarrow> string) option" where
  "rootForOf stat md =
     map_option (\<lambda>c dir root. fst (RootFor stat c dir root)) (md_modRoots md)"

definition invalidateModuleBoundary :: "string \<Rightarrow> modState \<Rightarrow> modState" where
  "invalidateModuleBoundary gomodPath md =
     md\<lparr>md_modRoots := map_option Invalidate (md_modRoots md),
        md_subIdx := gdel (filepathDir gomodPath) (md_subIdx md)\<rparr>"

definition markGraph :: "fileSystem \<Rightarrow> string \<Rightarrow> modState \<Rightarrow> modState" where
  "markGraph stat path md =
     md\<lparr>md_graph := map_option (MarkStaleFor (rootForOf stat md) path) (md_graph md)\<rparr>"

definition handleModuleFileEvent :: "fileSystem \<Rightarrow> string \<Rightarrow> string \<Rightarrow> modState \<Rightarrow> bool \<times> modState" where
  "handleModuleFileEvent stat path base md =
     (if base \<noteq> ''go.mod'' \<and> base \<noteq> ''go.sum'' \<and> base \<noteq> ''go.work'' \<and> base \<noteq> ''go.work.sum''
      then (False, md)
      else
        let md1 = (if base = ''go.mod'' then invalidateModuleBoundary path md else md)
        in (True, markGraph stat path md1))"

text \<open>
  \<open>observeFileEvent\<close> for a path that the URI gave: what it does at once, and whether it starts
  \<open>updateFileInIndex\<close>.
\<close>

definition observeFileEvent :: "fileSystem \<Rightarrow> string \<Rightarrow> modState \<Rightarrow> bool \<times> modState" where
  "observeFileEvent stat path md =
     (if path = '''' \<or> md_root md = '''' \<or> \<not> hasPrefix path (md_root md @ ''/'') then (False, md)
      else
        let base = filepathBase path; (handled, md1) = handleModuleFileEvent stat path base md
        in if handled then (False, md1)
           else if \<not> hasSuffix path ''.go'' then
             (case md_graph md1 of
                None \<Rightarrow> (False, md1)
              | Some g \<Rightarrow> if IsEmbedFile g path then (False, markGraph stat path md1) else (False, md1))
           else (True, md1))"

text \<open>
  \<open>updateFileInIndex\<close>; \<open>content\<close> is what reading the file gives. The index that is updated is
  an object shared with the map, so the update is stored back.
\<close>

definition storeIndex :: "string \<Rightarrow> revIndex \<Rightarrow> modState \<Rightarrow> modState" where
  "storeIndex modRoot ri md =
     (if modRoot = '''' then md\<lparr>md_idx := ri\<rparr>
      else md\<lparr>md_subIdx := gput modRoot ri (md_subIdx md)\<rparr>)"

definition updateFileInIndex ::
  "fileSystem \<Rightarrow> parser \<Rightarrow> string \<Rightarrow> string option \<Rightarrow> modState \<Rightarrow> modState" where
  "updateFileInIndex stat parseFull path content md =
     (let modRoot = (case rootForOf stat md of
            None \<Rightarrow> '''' | Some rootFor \<Rightarrow> rootFor (filepathDir path) (md_root md));
          (ri, md1) = indexFor modRoot md;
          (changed, ri') = UpdateFile parseFull path content ri;
          md2 = storeIndex modRoot ri' md1
      in if changed then markGraph stat path md2 else md2)"

section \<open>Dropping idle modules\<close>

definition moduleUnitPrefix :: "string \<Rightarrow> string \<Rightarrow> string" where
  "moduleUnitPrefix root modRoot =
     (case filepathRel root modRoot of
        None \<Rightarrow> ''''
      | Some rel \<Rightarrow> if rel = ''.'' \<or> hasPrefix rel ''..'' then '''' else rel)"

definition unitUnderModule :: "string list \<Rightarrow> string \<Rightarrow> bool" where
  "unitUnderModule units pre \<longleftrightarrow> list_ex (\<lambda>u. u = pre \<or> hasPrefix u (pre @ ''/'')) units"

definition docUnderModule :: "string list \<Rightarrow> string \<Rightarrow> bool" where
  "docUnderModule docPaths modRoot \<longleftrightarrow>
     list_ex (\<lambda>path. path = modRoot \<or> hasPrefix path (modRoot @ ''/'')) docPaths"

text \<open>The body of the loop over the module roots, and \<open>evictIdleModules\<close>.\<close>

definition evictModule :: "string list \<Rightarrow> string list \<Rightarrow> modState \<Rightarrow> string \<Rightarrow> modState" where
  "evictModule units docPaths md modRoot =
     (if docUnderModule docPaths modRoot then md
      else
        let pre = moduleUnitPrefix (md_root md) modRoot
        in if pre = '''' \<or> unitUnderModule units pre then md
           else md\<lparr>md_subIdx := gdel modRoot (md_subIdx md),
                   md_graph := map_option (RemoveSlot modRoot) (md_graph md)\<rparr>)"

definition evictIdleModules :: "string list \<Rightarrow> string list \<Rightarrow> modState \<Rightarrow> modState" where
  "evictIdleModules units docPaths md =
     (if md_root md = '''' then md
      else
        let roots = remdups (gkeys (md_subIdx md) @
              (case md_graph md of None \<Rightarrow> [] | Some g \<Rightarrow> subslotRoots g))
        in foldl (evictModule units docPaths) md roots)"

section \<open>Lemmas\<close>

definition idleModule :: "string \<Rightarrow> string list \<Rightarrow> string list \<Rightarrow> string \<Rightarrow> bool" where
  "idleModule root units docPaths modRoot \<longleftrightarrow>
     \<not> docUnderModule docPaths modRoot \<and> moduleUnitPrefix root modRoot \<noteq> '''' \<and>
     \<not> unitUnderModule units (moduleUnitPrefix root modRoot)"

lemma evictModule_gget:
  "gget (md_subIdx (evictModule units docPaths md r)) m =
     (if m = r \<and> idleModule (md_root md) units docPaths r then None else gget (md_subIdx md) m)"
  "map_option gs_subslots (md_graph (evictModule units docPaths md r)) =
     (if idleModule (md_root md) units docPaths r
      then map_option (\<lambda>g. gdel r (gs_subslots g)) (md_graph md)
      else map_option gs_subslots (md_graph md))"
  "md_root (evictModule units docPaths md r) = md_root md"
  by (auto simp: evictModule_def idleModule_def RemoveSlot_def Let_def option.map_comp comp_def)

lemma evict_fold:
  "gget (md_subIdx (foldl (evictModule units docPaths) md rs)) m =
     (if m \<in> set rs \<and> idleModule (md_root md) units docPaths m then None else gget (md_subIdx md) m) \<and>
   (case md_graph (foldl (evictModule units docPaths) md rs) of
      None \<Rightarrow> md_graph md = None
    | Some g' \<Rightarrow> \<exists>g. md_graph md = Some g \<and>
        gget (gs_subslots g') m =
          (if m \<in> set rs \<and> idleModule (md_root md) units docPaths m then None
           else gget (gs_subslots g) m))"
proof (induction rs arbitrary: md)
  case Nil
  then show ?case by (simp split: option.split)
next
  case (Cons r rs)
  have "md_graph (evictModule units docPaths md r) =
      map_option (if idleModule (md_root md) units docPaths r then RemoveSlot r else id) (md_graph md)"
    by (cases "md_graph md") (auto simp: evictModule_def idleModule_def Let_def)
  then show ?case
    using Cons.IH [of "evictModule units docPaths md r"]
    by (cases "md_graph md")
      (auto simp: evictModule_gget RemoveSlot_def split: option.splits if_splits)
qed


lemma nestedRoot_root: "nestedModuleRoot stat root root = ''''"
  by (simp add: nestedModuleRoot.simps)

section \<open>Properties\<close>

text \<open>C35: a query finds its module. A driver query issued from the workspace root for one file is
  dispatched by the module of that file: to the main slot when no directory between the root and
  the file has a \<open>go.mod\<close>, otherwise to the slot of the innermost such directory.\<close>

theorem file_query_routing:
  assumes "okSegs r" and "r \<noteq> []" and "okSegs d" and "okSeg f" and "gs_root g = absPath r"
    and "q_dir q = absPath r" and "q_patterns q = [''file='' @ absPath (r @ d @ [f])]"
  shows "resolveModRootForQuery (Some (nestedModuleRoot stat)) g q =
    (case innermostModule stat r d of None \<Rightarrow> '''' | Some m \<Rightarrow> absPath (r @ m))"
proof -
  have ne: "absPath (r @ s) \<noteq> ''''" for s using assms(2) by (simp add: absPath_def)
  have dir: "filepathDir (absPath (r @ d @ [f])) = absPath (r @ d)"
    using dir_of_file assms by simp
  have "queryFileTargets (q_patterns q) = [absPath (r @ d @ [f])]"
    by (simp add: assms(7) cutPrefix_def)
  then show ?thesis
    using ne [of d] ne [of "[]"] dir nestedModuleRoot_spec [OF assms(1,3), of stat]
    by (simp add: resolveModRootForQuery_def resolveModRoot_def assms(5,6) nestedRoot_root Let_def)
qed

theorem file_query_routing_witness:
  "resolveModRootForQuery (Some (nestedModuleRoot worktreeFs))
     \<lparr>gs_root = absPath [''ws''], gs_main = emptySlot, gs_subslots = []\<rparr>
     \<lparr>q_patterns = [''file='' @ absPath ([''ws''] @ [''wt'', ''pkg''] @ [''a.go''])],
      q_dir = absPath [''ws''], q_buildFlags = [], q_overlay = []\<rparr> = ''/ws/wt''"
proof -
  have m: "innermostModule worktreeFs [''ws''] [''wt'', ''pkg''] = Some [''wt'']" by code_simp
  show ?thesis
    using file_query_routing [of "[''ws'']" "[''wt'', ''pkg'']" "''a.go''"
        "\<lparr>gs_root = absPath [''ws''], gs_main = emptySlot, gs_subslots = []\<rparr>"
        "\<lparr>q_patterns = [''file='' @ absPath ([''ws''] @ [''wt'', ''pkg''] @ [''a.go''])],
          q_dir = absPath [''ws''], q_buildFlags = [], q_overlay = []\<rparr>" worktreeFs]
    by (simp add: m okSeg_def absPath_def)
qed

text \<open>idle modules are dropped, and only they. A sweep removes the index and the graph slot of
  exactly the modules below the root with no open document at or under their root and no scope unit
  of theirs; every other module keeps both.\<close>

theorem evictIdleModules_correct:
  assumes "md_root md \<noteq> ''''"
  shows "gget (md_subIdx (evictIdleModules units docPaths md)) m =
      (if idleModule (md_root md) units docPaths m then None else gget (md_subIdx md) m) \<and>
    (case md_graph (evictIdleModules units docPaths md) of
       None \<Rightarrow> md_graph md = None
     | Some g' \<Rightarrow> \<exists>g. md_graph md = Some g \<and> gget (gs_subslots g') m =
         (if idleModule (md_root md) units docPaths m then None else gget (gs_subslots g) m))"
proof -
  let ?roots = "remdups (gkeys (md_subIdx md) @
      (case md_graph md of None \<Rightarrow> [] | Some g \<Rightarrow> subslotRoots g))"
  have out: "gget (md_subIdx md) m = None \<and>
      (\<forall>g. md_graph md = Some g \<longrightarrow> gget (gs_subslots g) m = None)" if "m \<notin> set ?roots"
    using that by (auto simp: subslotRoots_def map_of_eq_None_iff split: option.splits)
  show ?thesis
    using evict_fold [of units docPaths md ?roots m] out assms
    unfolding evictIdleModules_def Let_def
    by (cases "m \<in> set ?roots") (auto split: option.splits)
qed

theorem evictIdleModules_correct_witness:
  "gget (md_subIdx (evictIdleModules [''go/a''] [''/ws/main.go'']
      \<lparr>md_root = ''/ws'', md_idx = newRevIndex, md_subIdx = [(''/ws/wt'', newRevIndex)],
       md_started = [''/ws/wt''], md_graph = None, md_modRoots = None\<rparr>)) ''/ws/wt'' = None"
proof -
  have "idleModule ''/ws'' [''go/a''] [''/ws/main.go''] ''/ws/wt''" by code_simp
  then show ?thesis
    using conjunct1 [OF evictIdleModules_correct [of
        "\<lparr>md_root = ''/ws'', md_idx = newRevIndex, md_subIdx = [(''/ws/wt'', newRevIndex)],
          md_started = [''/ws/wt''], md_graph = None, md_modRoots = None\<rparr>"
        "[''go/a'']" "[''/ws/main.go'']" "''/ws/wt''"]]
    by simp
qed

text \<open>a new module leaves the main graph as it is. When a \<open>go.mod\<close> appears below the root,
  the directory leaves the main module, but the invalidation goes to the new module, which
  has no slot yet: the main graph, which still lists the packages of the directory, is not
  marked stale.\<close>

theorem new_module_main_graph_unmarked:
  assumes "okSegs r" and "r \<noteq> []" and "okSegs d" and "d \<noteq> []" and "hasGoMod stat (absPath (r @ d))"
    and "md_modRoots md = Some c" and "md_graph md = Some g" and "gs_root g = absPath r"
    and "gget (gs_subslots g) (absPath (r @ d)) = None"
  shows "md_graph (snd (handleModuleFileEvent stat (absPath (r @ d @ [''go.mod''])) ''go.mod'' md)) =
    Some g"
proof -
  have ok: "okSeg ''go.mod''" by (simp add: okSeg_def)
  have dir: "filepathDir (absPath (r @ d @ [''go.mod''])) = absPath (r @ d)"
    using dir_of_file assms(1,3) ok by simp
  have "innermostModule stat r d = Some d"
    using assms(4,5) by (cases d rule: rev_cases) (simp_all add: innermostModule_snoc)
  then have "nestedModuleRoot stat (absPath (r @ d)) (absPath r) = absPath (r @ d)"
    using nestedModuleRoot_spec [OF assms(1,3), of stat] by simp
  then show ?thesis
    using assms dir absPath_def
    by (simp add: handleModuleFileEvent_def invalidateModuleBoundary_def markGraph_def MarkStaleFor_def
        resolveModRoot_def rootForOf_def RootFor_def Invalidate_def Let_def)
qed

definition exampleServer :: graphServer where
  "exampleServer = \<lparr>gs_root = absPath [''ws''],
     gs_main = emptySlot\<lparr>sl_resp := Some ''G'', sl_patternsKey := ''./...'', sl_embedReady := True\<rparr>,
     gs_subslots = [(''/ws/x'', emptySlot\<lparr>sl_embedReady := True, sl_embedFiles := {''/ws/x/a.txt''}\<rparr>)]\<rparr>"

definition exampleModules :: modState where
  "exampleModules = \<lparr>md_root = ''/ws'', md_idx = newRevIndex, md_subIdx = [], md_started = [],
     md_graph = Some exampleServer, md_modRoots = Some emptyCache\<rparr>"

theorem new_module_main_graph_unmarked_witness:
  "md_graph (snd (handleModuleFileEvent worktreeFs (absPath ([''ws''] @ [''wt''] @ [''go.mod'']))
     ''go.mod'' exampleModules)) = Some exampleServer"
proof (rule new_module_main_graph_unmarked)
  show "hasGoMod worktreeFs (absPath ([''ws''] @ [''wt'']))" by code_simp
  show "gget (gs_subslots exampleServer) (absPath ([''ws''] @ [''wt''])) = None"
    by (simp add: exampleServer_def absPath_def)
  show "md_modRoots exampleModules = Some emptyCache" "md_graph exampleModules = Some exampleServer"
    by (simp_all add: exampleModules_def)
qed (simp_all add: okSeg_def exampleServer_def)

text \<open>an asset embedded only in a nested module is overlooked. The footprint of a nested slot
  is recorded but never consulted: once the main footprint is known and does not cover the path,
  a change of the asset leaves every slot as it is.\<close>

theorem nested_embed_overlooked:
  assumes "md_graph md = Some g" and "gget (gs_subslots g) m = Some slot"
    and "path \<in> sl_embedFiles slot" and "sl_embedReady slot"
    and "sl_embedReady (gs_main g)" and "path \<notin> sl_embedFiles (gs_main g)"
    and "\<not> (\<exists>root \<in> sl_embedPrefixes (gs_main g). path = root \<or> hasPrefix path (root @ ''/''))"
    and "\<not> hasSuffix path ''.go''"
    and "filepathBase path \<notin> {''go.mod'', ''go.sum'', ''go.work'', ''go.work.sum''}"
  shows "snd (observeFileEvent stat path md) = md"
  using assms
  by (auto simp: observeFileEvent_def handleModuleFileEvent_def IsEmbedFile_def Let_def)


theorem nested_embed_overlooked_witness:
  "snd (observeFileEvent worktreeFs ''/ws/x/a.txt'' exampleModules) = exampleModules"
proof (rule nested_embed_overlooked)
  show "md_graph exampleModules = Some exampleServer" by (simp add: exampleModules_def)
  show "gget (gs_subslots exampleServer) ''/ws/x'' =
      Some (emptySlot\<lparr>sl_embedReady := True, sl_embedFiles := {''/ws/x/a.txt''}\<rparr>)"
    by (simp add: exampleServer_def)
  show "filepathBase ''/ws/x/a.txt'' \<notin> {''go.mod'', ''go.sum'', ''go.work'', ''go.work.sum''}"
    by code_simp
qed (simp_all add: exampleServer_def emptySlot_def suffix_def)

end
