(* ===== verification/Resolve.thy ===== *)
theory Resolve
  imports HeldReqs Modules
begin

text \<open>
  Cross references (\<open>resolve.go\<close>): finding the definition of the symbol, deciding how far the
  scope must be widened or whether the isolated worker answers, and publishing the
  reverse-import closure before the request goes to gopls.
\<close>

section \<open>The definition of the symbol\<close>

text \<open>
  \<open>parseDefinition\<close>: a list of locations, of which the first counts, or a single location; each
  a \<open>Location\<close> or a \<open>LocationLink\<close>.
\<close>

text \<open>The line of a range, \<open>None\<close> when the value does not unmarshal into the struct.\<close>

definition rangeLine :: "(string \<Rightarrow> int option) \<Rightarrow> json option \<Rightarrow> int option" where
  "rangeLine readInt j =
     (case objOf j of None \<Rightarrow> None
      | Some r \<Rightarrow> (case objOf (gget r ''start'') of None \<Rightarrow> None
                  | Some s \<Rightarrow> jint readInt (gget s ''line'')))"

record location =
  lo_uri :: string
  lo_line :: int
  lo_targetUri :: string
  lo_targetLine :: int

definition readLocation :: "(string \<Rightarrow> int option) \<Rightarrow> json \<Rightarrow> location option" where
  "readLocation readInt j =
     (case objOf (Some j) of
        None \<Rightarrow> None
      | Some ms \<Rightarrow>
          (case (jstr (gget ms ''uri''), rangeLine readInt (gget ms ''range''),
                 jstr (gget ms ''targetUri''), rangeLine readInt (gget ms ''targetRange'')) of
             (Some u, Some l, Some tu, Some tln) \<Rightarrow>
               Some \<lparr>lo_uri = u, lo_line = l, lo_targetUri = tu, lo_targetLine = tln\<rparr>
           | _ \<Rightarrow> None))"

fun readLocations :: "(string \<Rightarrow> int option) \<Rightarrow> json list \<Rightarrow> location list option" where
  "readLocations readInt [] = Some []"
| "readLocations readInt (j # js) =
     (case (readLocation readInt j, readLocations readInt js) of
        (Some l, Some ls) \<Rightarrow> Some (l # ls) | _ \<Rightarrow> None)"

definition parseDefinition ::
  "(string \<Rightarrow> bool) \<Rightarrow> (string \<Rightarrow> int option) \<Rightarrow> json option \<Rightarrow> (string \<times> int) option" where
  "parseDefinition hostOk readInt result =
     (let many = (case result of
            Some (JArr js) \<Rightarrow> readLocations readInt js
          | Some JNull \<Rightarrow> Some []
          | Some j \<Rightarrow> map_option (\<lambda>l. [l]) (readLocation readInt j)
          | None \<Rightarrow> None)
      in case many of
           None \<Rightarrow> None
         | Some [] \<Rightarrow> None
         | Some (l # ls) \<Rightarrow>
             if lo_targetUri l \<noteq> '''' then Some (uriToPath hostOk (lo_targetUri l), lo_targetLine l)
             else if lo_uri l = '''' then None
             else Some (uriToPath hostOk (lo_uri l), lo_line l))"

text \<open>
  \<open>isMethodDecl\<close>: a syntax tree as far as \<open>ast.Inspect\<close> looks at it, by lines: a function
  declaration with the line of its name and whether it has a receiver, an interface type with
  the lines of its method names, and any other node. \<open>None\<close> is a file that cannot be read or
  parsed.
\<close>

datatype astNode =
    FuncDeclNode bool int "astNode list"
  | InterfaceNode "int list" "astNode list"
  | OtherNode "astNode list"

fun methodAt :: "int \<Rightarrow> astNode \<Rightarrow> bool" where
  "methodAt line (FuncDeclNode recv l cs) = (if recv \<and> l = line then True else list_ex (methodAt line) cs)"
| "methodAt line (InterfaceNode names cs) = (if line \<in> set names then True else list_ex (methodAt line) cs)"
| "methodAt line (OtherNode cs) = list_ex (methodAt line) cs"

definition isMethodDecl :: "(string \<Rightarrow> astNode option) \<Rightarrow> string \<Rightarrow> int \<Rightarrow> bool" where
  "isMethodDecl parse path line = (case parse path of None \<Rightarrow> False | Some f \<Rightarrow> methodAt line f)"

section \<open>The closure to publish\<close>

definition closureUnitsForModule ::
  "nat \<Rightarrow> revIndex \<Rightarrow> string \<Rightarrow> string \<Rightarrow> string \<Rightarrow> (string list \<times> string) option" where
  "closureUnitsForModule granularity idx root defPath defModRoot =
     (let base = (if defModRoot \<noteq> '''' then defModRoot else root)
      in case filepathRel base (filepathDir defPath) of
           None \<Rightarrow> None
         | Some relDir \<Rightarrow>
             if hasPrefix relDir ''..'' then None
             else
               let units = ClosureUnits idx relDir granularity
               in if defModRoot = '''' then Some (units, relDir)
                  else (case filepathRel root defModRoot of
                          None \<Rightarrow> None
                        | Some pre \<Rightarrow> Some (map (prefixUnit pre) units, relDir)))"

text \<open>
  \<open>publishUnitsAndForward\<close> before it waits: the generation to wait for and the state. It then
  waits with \<open>awaitApplied\<close> and writes the held request.
\<close>

definition publishUnits :: "int \<Rightarrow> string list \<Rightarrow> proxyState \<Rightarrow> nat \<times> proxyState" where
  "publishUnits now units p =
     (let ((needGen, needPush), p1) = ensureUnitsLocked now units p
      in if needPush then pushScope p1 else (needGen, p1))"

section \<open>The decision\<close>

text \<open>
  What becomes of the held request: forwarded as it is, answered by the worker of a module, or
  forwarded after the units are published and applied.
\<close>

datatype crossRef =
    ForwardAsIs
  | ServeViaWorker string
  | PublishAndForward "string list"

definition methodNeedsGlobalMethodRefs :: "string \<Rightarrow> bool" where
  "methodNeedsGlobalMethodRefs method \<longleftrightarrow>
     method \<in> {''textDocument/references'', ''textDocument/rename''}"

text \<open>\<open>awaitRequestUnit\<close>: whether it waits.\<close>

definition awaitsRequestUnit :: "string option \<Rightarrow> 'a scopeState_scheme \<Rightarrow> bool" where
  "awaitsRequestUnit unit p =
     (case unit of None \<Rightarrow> False
      | Some u \<Rightarrow> (case gget (p_scope p) u of None \<Rightarrow> False | Some e \<Rightarrow> \<not> unitDone u p))"

text \<open>The location: asked once, and again if the first answer is empty and the unit was waited for.\<close>

definition resolveLocation ::
  "bool \<Rightarrow> (string \<times> int) option \<Rightarrow> (string \<times> int) option \<Rightarrow> (string \<times> int) option" where
  "resolveLocation waited first second = (if first = None \<and> waited then second else first)"

text \<open>
  \<open>resolveAndExpand\<close> from the located definition on; \<open>idxOf\<close> is the index of a module,
  \<open>None\<close> when it is not ready in time.
\<close>

definition resolveAndExpand ::
  "(string \<Rightarrow> string \<Rightarrow> string) \<Rightarrow> nat \<Rightarrow> (string \<Rightarrow> astNode option) \<Rightarrow> (string \<Rightarrow> revIndex option)
   \<Rightarrow> string \<Rightarrow> string \<Rightarrow> string \<Rightarrow> int \<Rightarrow> (string \<times> int) option \<Rightarrow> crossRef" where
  "resolveAndExpand rootFor granularity parse idxOf root method reqPath line loc =
     (let (defPath, defLine) = (case loc of None \<Rightarrow> (reqPath, line) | Some l \<Rightarrow> l)
      in case filepathRel root (filepathDir defPath) of
           None \<Rightarrow> ForwardAsIs
         | Some rel \<Rightarrow>
             if hasPrefix rel ''..'' then ForwardAsIs
             else
               let reqModRoot = rootFor (filepathDir reqPath) root;
                   defModRoot = rootFor (filepathDir defPath) root;
                   wholeWorkspace = (method = ''textDocument/implementation'' \<or>
                     (methodNeedsGlobalMethodRefs method \<and> isMethodDecl parse defPath (defLine + 1)))
               in if wholeWorkspace then ServeViaWorker defModRoot
                  else if reqModRoot \<noteq> defModRoot then
                    (case unitFor rootFor granularity root reqPath of
                       None \<Rightarrow> ForwardAsIs | Some unit \<Rightarrow> PublishAndForward [unit])
                  else
                    (case idxOf defModRoot of
                       None \<Rightarrow> ForwardAsIs
                     | Some idx \<Rightarrow>
                         (case closureUnitsForModule granularity idx root defPath defModRoot of
                            None \<Rightarrow> ForwardAsIs
                          | Some (units, relDir) \<Rightarrow> PublishAndForward units)))"

text \<open>\<open>interceptCrossRef\<close>: a request is taken over if its document lies below the root.\<close>

definition positionOk :: "(string \<Rightarrow> int option) \<Rightarrow> json option \<Rightarrow> bool" where
  "positionOk readInt params =
     (case objOf params of None \<Rightarrow> False
      | Some ms \<Rightarrow> (case objOf (gget ms ''position'') of None \<Rightarrow> False
                   | Some pos \<Rightarrow> jint readInt (gget pos ''line'') \<noteq> None \<and>
                                jint readInt (gget pos ''character'') \<noteq> None))"

definition interceptCrossRef ::
  "(string \<Rightarrow> bool) \<Rightarrow> (string \<Rightarrow> int option) \<Rightarrow> string \<Rightarrow> json option \<Rightarrow> bool" where
  "interceptCrossRef hostOk readInt root params =
     (if params = None \<or> \<not> positionOk readInt params then False
      else
        let path = uriToPath hostOk (docURI params)
        in root \<noteq> '''' \<and> hasPrefix path (root @ ''/''))"

section \<open>Answers of the worker\<close>

text \<open>
  What the editor and gopls get for a request sent to the worker: \<open>WErr\<close> is a failed query,
  the other value a response with its error or result.
\<close>

datatype workerResult = WErr | WReply "json option" "json option"

datatype reaction = ReplyResult "json option" | ReplyError json | RetryLater | WarnAndForward | JustForward

definition handleWorkerError :: "string \<Rightarrow> reaction" where
  "handleWorkerError method = (if method = ''textDocument/rename'' then RetryLater else WarnAndForward)"

definition serveViaWorker :: "string \<Rightarrow> message option \<Rightarrow> workerResult \<Rightarrow> reaction" where
  "serveViaWorker method req result =
     (case req of
        None \<Rightarrow> JustForward
      | Some m \<Rightarrow>
          if m_id m = None then JustForward
          else (case result of
                  WErr \<Rightarrow> handleWorkerError method
                | WReply (Some err) r \<Rightarrow> ReplyError err
                | WReply None r \<Rightarrow> ReplyResult r))"


section \<open>Lemmas\<close>

lemma scopeUnit_dot: "0 < n \<Longrightarrow> scopeUnit ''.'' n = ''.''"
  by (cases n) (simp_all add: scopeUnit_def)

lemma foldl_max_init: "b \<le> foldl max b xs" for b :: nat
proof (induction xs arbitrary: b)
  case (Cons a xs)
  have "b \<le> foldl max (max b a) xs" by (rule order_trans [OF max.cobounded1 Cons.IH])
  then show ?case by simp
qed simp

lemma foldl_max_member: "x \<in> set xs \<Longrightarrow> x \<le> foldl max b xs" for b x :: nat
proof (induction xs arbitrary: b)
  case (Cons a xs)
  then show ?case using foldl_max_init [of "max b a" xs] by auto
qed simp

lemma publishUnits_gens:
  assumes "gens_ok p" and "publishUnits now units p = (g, p1)" and "u \<in> set units"
  shows "\<exists>e. gget (p_scope p1) u = Some e \<and> 0 < e_gen e \<and> e_gen e \<le> g"
proof -
  obtain gen push where r: "fst (ensureUnitsLocked now units p) = (gen, push)" by fastforce
  let ?p1 = "snd (ensureUnitsLocked now units p)"
  have ok: "gens_ok ?p1" using gens_ok_ensure [OF assms(1)] .
  have "gget (p_scope ?p1) u \<noteq> None" using assms(3) by (auto split: option.split)
  then obtain e where e: "gget (p_scope ?p1) u = Some e" by blast
  have res: "gen = foldl max 0 (map (unitGen (p_scope p)) units)"
    "push \<longleftrightarrow> (\<exists>u \<in> set units. unitGen (p_scope p) u = 0)"
    using ensureUnits_result [of now units p] r by auto
  show ?thesis
  proof (cases push)
    case True
    then have p1: "(g, p1) = pushScope ?p1"
      using assms(2) r by (simp add: publishUnits_def case_prod_unfold)
    then have "gget (p_scope p1) u = Some (stampEntry (Suc (p_scopeGen ?p1)) e)"
      "g = Suc (p_scopeGen ?p1)"
      using e by (simp_all add: pushScope_def Let_def)
    moreover have "e_gen e \<le> p_scopeGen ?p1" using ok e by (auto simp: gens_ok_def)
    ultimately show ?thesis by auto
  next
    case False
    then have p1: "g = gen" "p1 = ?p1"
      using assms(2) r by (auto simp: publishUnits_def case_prod_unfold)
    have pos: "unitGen (p_scope p) u \<noteq> 0"
    proof
      assume "unitGen (p_scope p) u = 0"
      then have push using res(2) assms(3) by auto
      with False show False by simp
    qed
    then have "gget (p_scope p) u \<noteq> None" by (auto simp: unitGen_def split: option.splits)
    then have "e_gen e = unitGen (p_scope p) u" using e by (auto simp: unitGen_def)
    moreover have "unitGen (p_scope p) u \<le> gen"
      unfolding res(1) by (rule foldl_max_member) (use assms(3) in simp)
    ultimately show ?thesis using e p1 pos by auto
  qed
qed

lemma publishUnits_reachable:
  assumes "sessionReachable en strict (p, pc)" and "publishUnits now units p = (g, p1)"
  shows "sessionReachable en strict (p1, pc)"
proof -
  have "sessionReachable en strict (snd (ensureUnitsLocked now units p), pc)"
    by (rule sessionReachable.later [OF assms(1) s_ensure])
  moreover have "p1 = snd (ensureUnitsLocked now units p) \<or>
      p1 = snd (pushScope (snd (ensureUnitsLocked now units p)))"
    using arg_cong [OF assms(2), of snd] by (auto simp: publishUnits_def case_prod_unfold Let_def split: if_splits)
  ultimately show ?thesis using sessionReachable.later [OF _ s_push] by blast
qed

lemma reachable_steps: "(step en strict)\<^sup>*\<^sup>* s s' \<Longrightarrow> sessionReachable en strict s \<Longrightarrow> sessionReachable en strict s'"
  by (induction rule: rtranclp_induct) (auto intro: sessionReachable.later)

text \<open>All nodes of a tree.\<close>

fun subtrees :: "astNode \<Rightarrow> astNode set" where
  "subtrees (FuncDeclNode recv l cs) = insert (FuncDeclNode recv l cs) (\<Union>c \<in> set cs. subtrees c)"
| "subtrees (InterfaceNode names cs) = insert (InterfaceNode names cs) (\<Union>c \<in> set cs. subtrees c)"
| "subtrees (OtherNode cs) = insert (OtherNode cs) (\<Union>c \<in> set cs. subtrees c)"

fun methodNode :: "int \<Rightarrow> astNode \<Rightarrow> bool" where
  "methodNode line (FuncDeclNode recv l cs) = (recv \<and> l = line)"
| "methodNode line (InterfaceNode names cs) = (line \<in> set names)"
| "methodNode line (OtherNode cs) = False"

lemma methodAt_methodNode: "methodAt line t \<longleftrightarrow> (\<exists>n \<in> subtrees t. methodNode line n)"
  by (induction line t rule: methodAt.induct) (auto simp: list_ex_iff)

lemma methodNode_iff:
  "methodNode line n \<longleftrightarrow> (\<exists>cs. n = FuncDeclNode True line cs) \<or>
     (\<exists>names cs. n = InterfaceNode names cs \<and> line \<in> set names)"
  by (cases n) auto

section \<open>Properties\<close>

text \<open>C25: the closure covers every importer. The units published for a definition contain the unit
  of every file of the same module whose directory reaches the definition's directory over the
  import edges of the index; closure and \<open>unitFor\<close> agree on the unit of a directory, in the
  main module and in a nested one.\<close>

theorem closure_covers_importers:
  assumes "closureUnitsForModule n idx root defPath m = Some (units, relDir)" and "0 < n"
    and "unitFor rootFor n root path = Some u" and "rootFor (filepathDir path) root = m"
    and "filepathRel (if m \<noteq> '''' then m else root) (filepathDir path) = Some d"
    and "(importedBy (ri_importers idx))\<^sup>*\<^sup>* relDir d"
  shows "u \<in> set units"
proof -
  let ?unit = "if d \<noteq> ''.'' then scopeUnit d n else ''.''"
  have "scopeUnit d n \<in> set (ClosureUnits idx relDir n)"
    using assms(6) by (auto simp: ClosureUnits_set reachable_def)
  then have inU: "?unit \<in> set (ClosureUnits idx relDir n)"
    using scopeUnit_dot [OF assms(2)] by auto
  show ?thesis
  proof (cases "m = ''''")
    case True
    then have "units = ClosureUnits idx relDir n"
      using assms(1) by (auto simp: closureUnitsForModule_def Let_def split: option.splits if_splits)
    moreover have "u = ?unit"
      using assms(3,4,5) True by (auto simp: unitFor_def Let_def split: option.splits if_splits)
    ultimately show ?thesis using inU by simp
  next
    case False
    then obtain pre where pre: "filepathRel root m = Some pre" "units = map (prefixUnit pre) (ClosureUnits idx relDir n)"
      using assms(1) by (auto simp: closureUnitsForModule_def Let_def split: option.splits if_splits)
    then have "u = prefixUnit pre ?unit"
      using assms(3,4,5) False by (auto simp: unitFor_def Let_def split: option.splits if_splits)
    then show ?thesis using inU pre(2) by simp
  qed
qed

theorem closure_covers_importers_witness:
  "''b'' \<in> set (ClosureUnits (newRevIndex\<lparr>ri_importers := [(''a'', [''b''])]\<rparr>) ''a'' 3)"
proof (rule closure_covers_importers [where root = "''/w''" and m = "''''" and relDir = "''a''"
      and rootFor = "\<lambda>d r. ''''" and path = "''/w/b/b.go''" and d = "''b''"])
  let ?idx = "newRevIndex\<lparr>ri_importers := [(''a'', [''b''])]\<rparr>"
  have "filepathRel ''/w'' (filepathDir ''/w/a/a.go'') = Some ''a''" by code_simp
  then show "closureUnitsForModule 3 ?idx ''/w'' ''/w/a/a.go'' '''' = Some (ClosureUnits ?idx ''a'' 3, ''a'')"
    by (simp add: closureUnitsForModule_def)
  show "unitFor (\<lambda>d r. '''') 3 ''/w'' ''/w/b/b.go'' = Some ''b''" by code_simp
  have "filepathRel ''/w'' (filepathDir ''/w/b/b.go'') = Some ''b''" by code_simp
  then show "filepathRel (if '''' \<noteq> ('''' :: string) then '''' else ''/w'') (filepathDir ''/w/b/b.go'') = Some ''b''"
    by simp
  have "importedBy (ri_importers ?idx) ''a'' ''b''" by (simp add: importedBy_def getList_def)
  then show "(importedBy (ri_importers ?idx))\<^sup>*\<^sup>* ''a'' ''b''" by blast
qed simp_all

text \<open>a released cross reference sees its closure. When the units of a request have been
  published and the wait for their generation has succeeded in a run where the editor answers its
  pulls, the filters gopls holds admit every one of these units that is still in scope since then;
  right after publishing all of them are in scope with a generation the wait covers.\<close>

theorem crossref_sees_closure:
  assumes "sessionReachable en True (p, pc)" and "publishUnits now units p = (g, p1)"
    and "(step en True)\<^sup>*\<^sup>* (p1, pc) (p2, pc2)" and "awaitApplied g [p2]"
  shows "(\<forall>u \<in> set units. \<exists>e. gget (p_scope p1) u = Some e \<and> 0 < e_gen e \<and> e_gen e \<le> g) \<and>
    (\<forall>u e. gget (p_scope p2) u = Some e \<longrightarrow> 0 < e_gen e \<longrightarrow> e_gen e \<le> g \<longrightarrow>
       admits (lastFilters (p_toServer p2)) u)"
proof -
  have "gens_ok p" using reachable_inv [OF assms(1)] by (simp add: sys_inv_def)
  moreover have "sessionReachable en True (p2, pc2)"
    using reachable_steps [OF assms(3) publishUnits_reachable [OF assms(1,2)]] .
  then have "covered (lastFilters (p_toServer p2)) (p_appliedGen p2) p2"
    using reachable_inv by (fastforce simp: sys_inv_def)
  then have "covered (lastFilters (p_toServer p2)) g p2"
    using covered_mono assms(4) by (fastforce split: if_splits)
  ultimately show ?thesis
    using publishUnits_gens [OF _ assms(2)] by (auto simp: covered_def)
qed

theorem crossref_sees_closure_witness:
  "admits (lastFilters (p_toServer (snd (publishUnits 0 [''pkg'']
     (writeServer (fst exampleStart) (snd exampleStart)))))) ''pkg''"
proof -
  let ?p = "writeServer (fst exampleStart) (snd exampleStart)"
  let ?r = "publishUnits 0 [''pkg''] ?p"
  have "awaitApplied (fst ?r) [snd ?r]" by code_simp
  moreover have ready: "unitDone ''pkg'' (snd ?r)" and "p_appliedGen (snd ?r) = fst ?r"
    by code_simp+
  then have "\<exists>e. gget (p_scope (snd ?r)) ''pkg'' = Some e \<and> 0 < e_gen e \<and> e_gen e \<le> fst ?r"
    by (auto simp: unitDone_def split: option.splits)
  ultimately show ?thesis
    using crossref_sees_closure [OF exampleReachable, of 0 "[''pkg'']" "fst ?r" "snd ?r" "snd ?r" PcIdle]
    by auto
qed

text \<open>no silent partial rename. Whatever the worker answers, a rename that was sent to it ends
  with the worker's own response or with a retryable error; it never goes to the narrow scope.\<close>

theorem rename_never_partial:
  assumes "m_id m \<noteq> None"
  shows "serveViaWorker ''textDocument/rename'' (Some m) r \<notin> {WarnAndForward, JustForward}"
  using assms by (cases r) (auto simp: serveViaWorker_def handleWorkerError_def split: option.split)

theorem rename_never_partial_witness:
  "serveViaWorker ''textDocument/rename'' (Some (exampleHover\<lparr>m_method := ''textDocument/rename''\<rparr>)) WErr
     \<notin> {WarnAndForward, JustForward}"
  by (rule rename_never_partial) (simp add: exampleHover_def)

text \<open>what counts as a method. \<open>isMethodDecl\<close> holds for a line exactly when some node of the
  file, at any depth, is a function declaration with a receiver whose name stands on that line, or
  an interface type with a method name on it.\<close>

theorem isMethodDecl_correct:
  "isMethodDecl parse path line \<longleftrightarrow>
     (\<exists>f. parse path = Some f \<and> (\<exists>n \<in> subtrees f. (\<exists>cs. n = FuncDeclNode True line cs) \<or>
        (\<exists>names cs. n = InterfaceNode names cs \<and> line \<in> set names)))"
  by (simp add: isMethodDecl_def methodAt_methodNode methodNode_iff split: option.split)

end
