(* ===== verification/Mirror.thy ===== *)
theory Mirror
  imports Documents Config
begin

text \<open>
  Editor notifications: how \<open>pumpClient\<close> tracks the open documents from their parameters
  (\<open>proxy.go\<close>, \<open>documents.go\<close>) and how one notification is mirrored onto a worker gopls
  (\<open>worker.go\<close>, \<open>mirror\<close>), with what the worker knows of each document after what it was sent.
\<close>

section \<open>Reading the parameters\<close>

definition jobj :: "(string, json) gomap option \<Rightarrow> string \<Rightarrow> (string, json) gomap option" where
  "jobj o' k = (case o' of None \<Rightarrow> None | Some ms \<Rightarrow> objOf (gget ms k))"

definition readOpen :: "(string \<Rightarrow> int option) \<Rightarrow> json option \<Rightarrow> openDoc option" where
  "readOpen readInt params =
     (case params of None \<Rightarrow> None
      | Some _ \<Rightarrow>
          (case jobj (objOf params) ''textDocument'' of
             None \<Rightarrow> None
           | Some td \<Rightarrow>
               (case (jstr (gget td ''uri''), jstr (gget td ''languageId''),
                      jint readInt (gget td ''version''), jstr (gget td ''text'')) of
                  (Some u, Some l, Some v, Some t) \<Rightarrow>
                    Some \<lparr>d_uri = u, d_languageId = l, d_version = v, d_text = t\<rparr>
                | _ \<Rightarrow> None)))"

definition readPosition :: "(string \<Rightarrow> int option) \<Rightarrow> json option \<Rightarrow> lspPosition option" where
  "readPosition readInt j =
     (case objOf j of None \<Rightarrow> None
      | Some ms \<Rightarrow> (case (jint readInt (gget ms ''line''), jint readInt (gget ms ''character'')) of
                     (Some l, Some c) \<Rightarrow> Some \<lparr>l_line = l, l_character = c\<rparr> | _ \<Rightarrow> None))"

text \<open>A range is a pointer: absent and \<open>null\<close> leave it nil (the inner \<open>None\<close>).\<close>

definition readRange :: "(string \<Rightarrow> int option) \<Rightarrow> json option \<Rightarrow> lspRange option option" where
  "readRange readInt j =
     (case j of None \<Rightarrow> Some None | Some JNull \<Rightarrow> Some None
      | Some (JObj ms) \<Rightarrow>
          (case (readPosition readInt (gget ms ''start''), readPosition readInt (gget ms ''end'')) of
             (Some s, Some e) \<Rightarrow> Some (Some \<lparr>r_start = s, r_end = e\<rparr>) | _ \<Rightarrow> None)
      | _ \<Rightarrow> None)"

definition readEdit :: "(string \<Rightarrow> int option) \<Rightarrow> json \<Rightarrow> contentChange option" where
  "readEdit readInt j =
     (case objOf (Some j) of None \<Rightarrow> None
      | Some ms \<Rightarrow> (case (readRange readInt (gget ms ''range''), jstr (gget ms ''text'')) of
                     (Some r, Some t) \<Rightarrow> Some \<lparr>c_range = r, c_text = t\<rparr> | _ \<Rightarrow> None))"

fun readEdits :: "(string \<Rightarrow> int option) \<Rightarrow> json list \<Rightarrow> contentChange list option" where
  "readEdits readInt [] = Some []"
| "readEdits readInt (j # js) =
     (case (readEdit readInt j, readEdits readInt js) of
        (Some c, Some cs) \<Rightarrow> Some (c # cs) | _ \<Rightarrow> None)"

definition editsOf :: "json option \<Rightarrow> json list option" where
  "editsOf j = (case j of None \<Rightarrow> Some [] | Some JNull \<Rightarrow> Some [] | Some (JArr js) \<Rightarrow> Some js | _ \<Rightarrow> None)"

definition readChange :: "(string \<Rightarrow> int option) \<Rightarrow> json option \<Rightarrow> changeParams option" where
  "readChange readInt params =
     (case params of None \<Rightarrow> None
      | Some _ \<Rightarrow>
          (case (jobj (objOf params) ''textDocument'', objOf params) of
             (Some td, Some ms) \<Rightarrow>
               (case (jstr (gget td ''uri''), jint readInt (gget td ''version''),
                      Option.bind (editsOf (gget ms ''contentChanges'')) (readEdits readInt)) of
                  (Some u, Some v, Some cs) \<Rightarrow> Some \<lparr>ch_uri = u, ch_version = v, ch_changes = cs\<rparr>
                | _ \<Rightarrow> None)
           | _ \<Rightarrow> None))"

text \<open>The URI that is read is the one \<open>docURI\<close> gives.\<close>

lemma docURI_jstr:
  "jobj (objOf (Some p)) ''textDocument'' = Some td \<Longrightarrow> jstr (gget td ''uri'') = Some u \<Longrightarrow>
     docURI (Some p) = u"
  by (auto simp: docURI_def jobj_def objOf_def jstr_def jfield_def
      split: option.splits json.splits)

lemma readOpen_uri: "readOpen readInt params = Some d \<Longrightarrow> docURI params = d_uri d"
  by (auto simp: readOpen_def docURI_jstr split: option.splits)

lemma readChange_uri: "readChange readInt params = Some d \<Longrightarrow> docURI params = ch_uri d"
  by (auto simp: readChange_def docURI_jstr split: option.splits)

section \<open>Tracking\<close>

text \<open>An editor notification, as \<open>observe\<close> buffers it.\<close>

record bufferedNote =
  n_method :: string
  n_params :: "json option"

definition noteURI :: "bufferedNote \<Rightarrow> string" where
  "noteURI n = docURI (n_params n)"

definition isOpen :: "bufferedNote \<Rightarrow> bool" where
  "isOpen n \<longleftrightarrow> n_method n = ''textDocument/didOpen''"

definition isChange :: "bufferedNote \<Rightarrow> bool" where
  "isChange n \<longleftrightarrow> n_method n = ''textDocument/didChange''"

definition isClose :: "bufferedNote \<Rightarrow> bool" where
  "isClose n \<longleftrightarrow> n_method n = ''textDocument/didClose''"

lemma note_kinds:
  "isOpen n \<Longrightarrow> \<not> isChange n" "isOpen n \<Longrightarrow> \<not> isClose n" "isChange n \<Longrightarrow> \<not> isClose n"
  by (simp_all add: isOpen_def isChange_def isClose_def)

text \<open>What the cases of \<open>pumpClient\<close> do to the open documents.\<close>

definition trackNote ::
  "(string \<Rightarrow> bool) \<Rightarrow> (string \<Rightarrow> int option) \<Rightarrow> bufferedNote \<Rightarrow> openDocs \<Rightarrow> openDocs" where
  "trackNote hostOk readInt n docs =
     (if isOpen n then trackDidOpen (uriToPath hostOk) (readOpen readInt (n_params n)) docs
      else if isChange n then trackDidChange (readChange readInt (n_params n)) docs
      else if isClose n then trackDidClose (noteURI n) docs
      else docs)"

section \<open>Mirroring\<close>

text \<open>
  The notifications written to a worker, by their typed parameters: \<open>didOpen\<close>,
  \<open>didChangeFull\<close>, \<open>didClose\<close> and the two workspace-level ones.
\<close>

datatype workerNote =
    DidOpen openDoc
  | DidChangeFull string int string
  | DidClose string
  | DidChangeWatchedFiles "json option"
  | DidChangeConfiguration

text \<open>\<open>mirror\<close>: what one notification makes the proxy write; \<open>doc\<close> is \<open>trackedDoc\<close>.\<close>

definition mirrorNotes :: "(string \<Rightarrow> openDoc option) \<Rightarrow> bufferedNote \<Rightarrow> workerNote list" where
  "mirrorNotes doc n =
     (if isOpen n then (case doc (noteURI n) of None \<Rightarrow> [] | Some d \<Rightarrow> [DidOpen d])
      else if isChange n then
        (case doc (noteURI n) of
           None \<Rightarrow> [] | Some d \<Rightarrow> [DidChangeFull (d_uri d) (d_version d) (d_text d)])
      else if isClose n then (if noteURI n = '''' then [] else [DidClose (noteURI n)])
      else if n_method n = ''workspace/didChangeWatchedFiles'' then [DidChangeWatchedFiles (n_params n)]
      else if n_method n = ''workspace/didChangeConfiguration'' then [DidChangeConfiguration]
      else [])"

text \<open>
  What the worker knows of the documents, after the protocol: an open document has the version
  and the text it was last sent; a change of a document that is not open has no effect.
\<close>

type_synonym view = "string \<Rightarrow> (int \<times> string) option"

fun applyNote :: "workerNote \<Rightarrow> view \<Rightarrow> view" where
  "applyNote (DidOpen d) v = v(d_uri d \<mapsto> (d_version d, d_text d))"
| "applyNote (DidChangeFull u n t) v = (if v u = None then v else v(u \<mapsto> (n, t)))"
| "applyNote (DidClose u) v = v(u := None)"
| "applyNote (DidChangeWatchedFiles j) v = v"
| "applyNote DidChangeConfiguration v = v"

definition applyNotes :: "workerNote list \<Rightarrow> view \<Rightarrow> view" where
  "applyNotes ns v = foldl (\<lambda>v n. applyNote n v) v ns"

lemma applyNotes_simps [simp]:
  "applyNotes [] v = v"
  "applyNotes (n # ns) v = applyNotes ns (applyNote n v)"
  "applyNotes (ns @ ms) v = applyNotes ms (applyNotes ns v)"
  by (simp_all add: applyNotes_def)

text \<open>What the editor has of a document.\<close>

definition editorHas :: "openDoc option \<Rightarrow> (int \<times> string) option" where
  "editorHas = map_option (\<lambda>d. (d_version d, d_text d))"

lemma editorHas_simps [simp]:
  "editorHas None = None" "editorHas (Some d) = Some (d_version d, d_text d)"
  "(editorHas x = None) = (x = None)" "(None = editorHas x) = (x = None)"
  by (simp_all add: editorHas_def eq_commute)

section \<open>The store of documents a mirror relies on\<close>

text \<open>
  The contract between the tracking of documents and their mirror: a notification changes
  at most its own document, an open does not lose it, a change neither opens nor closes it, a
  close removes it. \<open>good\<close> is what the store keeps of itself.
\<close>

locale doc_tracker =
  fixes track :: "bufferedNote \<Rightarrow> 'd \<Rightarrow> 'd"
    and doc :: "'d \<Rightarrow> string \<Rightarrow> openDoc option"
    and good :: "'d \<Rightarrow> bool"
  assumes good_track: "\<And>n s. good s \<Longrightarrow> good (track n s)"
    and good_uri: "\<And>s u d. good s \<Longrightarrow> doc s u = Some d \<Longrightarrow> d_uri d = u \<and> u \<noteq> ''''"
    and others: "\<And>n s u. good s \<Longrightarrow> u \<noteq> noteURI n \<Longrightarrow> doc (track n s) u = doc s u"
    and keep_open: "\<And>n s u. isOpen n \<Longrightarrow> doc s u \<noteq> None \<Longrightarrow> doc (track n s) u \<noteq> None"
    and keep_change: "\<And>n s u. good s \<Longrightarrow> isChange n \<Longrightarrow> (doc (track n s) u = None) = (doc s u = None)"
    and drop_closed: "\<And>n s. isClose n \<Longrightarrow> noteURI n \<noteq> '''' \<Longrightarrow> doc (track n s) (noteURI n) = None"
    and elsewhere: "\<And>n s. \<not> isOpen n \<Longrightarrow> \<not> isChange n \<Longrightarrow> \<not> isClose n \<Longrightarrow> track n s = s"
begin

text \<open>A mirrored notification touches only its own document.\<close>

lemma mirror_others:
  assumes "good s" and "u \<noteq> noteURI n"
  shows "applyNotes (mirrorNotes (doc s) n) v u = v u"
  using assms good_uri [OF assms(1), of "noteURI n"]
  by (auto simp: mirrorNotes_def split: option.split)

text \<open>A document that is not tracked is not opened by a mirrored notification.\<close>

lemma mirror_untracked:
  assumes "good s" and "doc s u = None" and "v u = None"
  shows "applyNotes (mirrorNotes (doc s) n) v u = None"
proof (cases "u = noteURI n")
  case True
  then show ?thesis using assms by (auto simp: mirrorNotes_def split: option.split)
qed (simp add: mirror_others [OF assms(1)] assms(3))

text \<open>Mirroring the notification that was just tracked brings the worker up to date.\<close>

lemma mirror_catches_up:
  assumes "good s" and "v (noteURI n) = editorHas (doc s (noteURI n))"
  shows "applyNotes (mirrorNotes (doc (track n s)) n) v (noteURI n) =
    editorHas (doc (track n s) (noteURI n))"
proof (cases "doc (track n s) (noteURI n)")
  case None
  have "doc s (noteURI n) = None \<or> isClose n \<and> noteURI n \<noteq> ''''"
    using None keep_open [of n s "noteURI n"] keep_change [OF assms(1), of n "noteURI n"]
      elsewhere [of n s] good_uri [OF assms(1), of "noteURI n"] by fastforce
  then show ?thesis
    using assms(2) None note_kinds [of n] by (auto simp: mirrorNotes_def)
next
  case (Some d)
  note d = good_uri [OF good_track [OF assms(1)] Some]
  have "\<not> isClose n" using d drop_closed [of n s] Some by auto
  moreover have "doc s (noteURI n) \<noteq> None" if "isChange n"
    using keep_change [OF assms(1) that, of "noteURI n"] Some by simp
  moreover have "doc s (noteURI n) = Some d" if "\<not> isOpen n" "\<not> isChange n" "\<not> isClose n"
    using elsewhere [OF that, of s] Some by simp
  ultimately show ?thesis
    using assms(2) Some d by (cases "isOpen n"; cases "isChange n") (auto simp: mirrorNotes_def)
qed

text \<open>A repeated notification leaves an up-to-date document as it is, unless it is a close.\<close>

lemma mirror_repeats:
  assumes "good s" and "doc s u = Some d" and "v u = editorHas (Some d)"
    and "\<not> (isClose n \<and> noteURI n = u)"
  shows "applyNotes (mirrorNotes (doc s) n) v u = editorHas (Some d)"
  using assms good_uri [OF assms(1,2)] mirror_others [OF assms(1), of u n v]
  by (cases "noteURI n = u") (auto simp: mirrorNotes_def)

lemma mirror_opens:
  "good s \<Longrightarrow> doc s u = Some d \<Longrightarrow> isOpen n \<Longrightarrow> noteURI n = u \<Longrightarrow>
     applyNotes (mirrorNotes (doc s) n) v u = editorHas (Some d)"
  using good_uri [of s u d] by (auto simp: mirrorNotes_def)

text \<open>
  The replay: an open of every document of a snapshot, then the buffered notifications. For a
  document whose last close in the buffer is followed by an open, or that has none, it ends
  with what the editor has.
\<close>

definition staysOpen :: "string \<Rightarrow> bufferedNote list \<Rightarrow> bool" where
  "staysOpen u ns =
     foldl (\<lambda>b n. if noteURI n \<noteq> u then b else if isOpen n then True
                  else if isClose n then False else b) True ns"

lemma staysOpen_snoc:
  "staysOpen u (ns @ [n]) =
     (if noteURI n \<noteq> u then staysOpen u ns else if isOpen n then True
      else if isClose n then False else staysOpen u ns)"
  by (simp add: staysOpen_def)

lemma staysOpen_Nil [simp]: "staysOpen u []"
  by (simp add: staysOpen_def)

definition replay :: "'d \<Rightarrow> bufferedNote list \<Rightarrow> workerNote list" where
  "replay s ns = concat (map (mirrorNotes (doc s)) ns)"

lemma replay_untracked:
  "good s \<Longrightarrow> doc s u = None \<Longrightarrow> v u = None \<Longrightarrow> applyNotes (replay s ns) v u = None"
proof (induction ns arbitrary: v)
  case (Cons n ns)
  then show ?case using mirror_untracked [of s u v n] by (simp add: replay_def)
qed (simp add: replay_def)

lemma replay_tracked:
  assumes "good s" and "doc s u = Some d" and "v u = editorHas (Some d)"
  shows "applyNotes (replay s ns) v u = (if staysOpen u ns then editorHas (Some d) else None)"
proof (induction ns rule: rev_induct)
  case (snoc n ns)
  let ?v = "applyNotes (replay s ns) v"
  have "applyNotes (replay s (ns @ [n])) v u = applyNotes (mirrorNotes (doc s) n) ?v u"
    by (simp add: replay_def)
  also have "\<dots> = (if noteURI n \<noteq> u then ?v u else if isOpen n then editorHas (Some d)
      else if isClose n then None else ?v u)"
    using good_uri [OF assms(1,2)] assms(2) snoc mirror_others [OF assms(1), of u n] note_kinds [of n]
    by (auto simp: mirrorNotes_def)
  finally show ?case by (auto simp: staysOpen_snoc snoc)
qed (simp add: replay_def assms(3))

end

section \<open>The tracking of the proxy keeps the contract\<close>

lemma track_others:
  assumes "docs_ok docs" and "u \<noteq> noteURI n"
  shows "gget (trackNote hostOk readInt n docs) u = gget docs u"
proof -
  have "gget (trackDidOpen f (readOpen readInt (n_params n)) docs) u = gget docs u" for f
  proof (cases "readOpen readInt (n_params n)")
    case (Some d)
    then have "u \<noteq> d_uri d" using readOpen_uri [OF Some] assms(2) by (simp add: noteURI_def)
    then show ?thesis by (simp add: trackDidOpen_def Some)
  qed (simp add: trackDidOpen_def)
  moreover have "gget (trackDidChange (readChange readInt (n_params n)) docs) u = gget docs u"
  proof (cases "readChange readInt (n_params n)")
    case (Some c)
    then have u: "u \<noteq> ch_uri c" using readChange_uri [OF Some] assms(2) by (simp add: noteURI_def)
    show ?thesis
    proof (cases "gget docs (ch_uri c)")
      case (Some d)
      then have "d_uri d = ch_uri c" using assms(1) unfolding docs_ok_def by blast
      then show ?thesis
        using u Some \<open>readChange readInt (n_params n) = Some c\<close>
        by (simp add: trackDidChange_def split: prod.split)
    qed (simp add: trackDidChange_def Some)
  qed (simp add: trackDidChange_def)
  ultimately show ?thesis using assms(2) by (simp add: trackNote_def trackDidClose_def)
qed

lemma track_open_keeps:
  "isOpen n \<Longrightarrow> gget docs u \<noteq> None \<Longrightarrow> gget (trackNote hostOk readInt n docs) u \<noteq> None"
  by (auto simp: trackNote_def trackDidOpen_def split: option.split)

lemma track_change_keeps:
  assumes "docs_ok docs" and "isChange n"
  shows "(gget (trackNote hostOk readInt n docs) u = None) = (gget docs u = None)"
proof -
  have "\<not> isOpen n" using assms(2) note_kinds(1) by blast
  moreover have "(gget (trackDidChange p docs) u = None) = (gget docs u = None)" for p
  proof (cases "Option.bind p (\<lambda>c. gget docs (ch_uri c))")
    case None
    then show ?thesis by (cases p) (simp_all add: trackDidChange_def)
  next
    case (Some d)
    then obtain c where c: "p = Some c" "gget docs (ch_uri c) = Some d" by (cases p) auto
    then have "d_uri d = ch_uri c" using assms(1) unfolding docs_ok_def by blast
    then show ?thesis using c by (auto simp: trackDidChange_def split: prod.split)
  qed
  ultimately show ?thesis using assms(2) by (simp add: trackNote_def)
qed

interpretation dt: doc_tracker "trackNote hostOk readInt" gget docs_ok for hostOk readInt
proof (unfold_locales, goal_cases)
  case (1 n s)
  then show ?case by (simp add: trackNote_def docs_ok_open docs_ok_change docs_ok_close)
next
  case (2 s u d)
  then show ?case by (simp add: docs_ok_def)
next
  case (3 n s u)
  then show ?case by (rule track_others)
next
  case (4 n s u)
  then show ?case by (rule track_open_keeps)
next
  case (5 n s u)
  then show ?case by (rule track_change_keeps)
next
  case (6 n s)
  then show ?case using note_kinds [of n] by (auto simp: trackNote_def trackDidClose_def)
next
  case (7 n s)
  then show ?case by (simp add: trackNote_def)
qed

end
