(* ===== verification/WorkerClient.thy ===== *)
theory WorkerClient
  imports Config
begin

text \<open>
  The connection to a worker gopls (\<open>worker.go\<close>, type \<open>workerClient\<close>): requests and the
  channels their answers arrive on, the end of the connection, and the answers to the requests
  of the worker itself.
\<close>

section \<open>Pending requests\<close>

text \<open>
  A waiter's channel is an object shared by the map of pending requests and the waiter, so the
  channels live in a store: \<open>cl_box\<close> holds what was sent on each. A channel has room for one
  value, \<open>Closed\<close> is the value without a message. \<open>cl_up\<close>: the read loop runs.
\<close>

datatype workerResponse = Closed | Response message

record workerClient =
  cl_seq :: nat
  cl_pending :: "(json, nat) gomap"
  cl_box :: "workerResponse list list"
  cl_up :: bool

definition freshClient :: workerClient where
  "freshClient = \<lparr>cl_seq = 0, cl_pending = [], cl_box = [], cl_up = True\<rparr>"

definition register :: "json \<Rightarrow> workerClient \<Rightarrow> nat \<times> workerClient" where
  "register i c =
     (let ch = length (cl_box c)
      in (ch, c\<lparr>cl_box := cl_box c @ [[]], cl_pending := gput i ch (cl_pending c)\<rparr>))"

definition unregister :: "json \<Rightarrow> workerClient \<Rightarrow> workerClient" where
  "unregister i c = c\<lparr>cl_pending := gdel i (cl_pending c)\<rparr>"

text \<open>\<open>call\<close> up to its wait; \<open>workerId\<close> renders the id.\<close>

definition callStart :: "(nat \<Rightarrow> json) \<Rightarrow> workerClient \<Rightarrow> nat \<times> workerClient" where
  "callStart workerId c =
     (let n = Suc (cl_seq c) in register (workerId n) (c\<lparr>cl_seq := n\<rparr>))"

definition sendTo :: "nat \<Rightarrow> workerResponse \<Rightarrow> workerClient \<Rightarrow> workerClient" where
  "sendTo ch r c = c\<lparr>cl_box := (cl_box c)[ch := cl_box c ! ch @ [r]]\<rparr>"

text \<open>
  One message in \<open>readLoop\<close>: an answer is taken out of the map and sent to its waiter, a
  request of the worker is to be answered (the second result).
\<close>

definition readMessage :: "message \<Rightarrow> workerClient \<Rightarrow> workerClient \<times> message option" where
  "readMessage m c =
     (case m_id m of
        None \<Rightarrow> (c, None)
      | Some i \<Rightarrow>
          if m_method m = '''' then
            (let c' = c\<lparr>cl_pending := gdel i (cl_pending c)\<rparr>
             in case gget (cl_pending c) i of
                  None \<Rightarrow> (c', None)
                | Some ch \<Rightarrow> (sendTo ch (Response m) c', None))
          else (c, Some m))"

text \<open>
  \<open>failPending\<close>: the sentinel goes to every waiter whose channel has room, and the map is
  emptied. \<open>connectionDown\<close> is the end of \<open>readLoop\<close>, which calls it.
\<close>

definition sendNonblocking :: "nat \<Rightarrow> workerClient \<Rightarrow> workerClient" where
  "sendNonblocking ch c = (if cl_box c ! ch = [] then sendTo ch Closed c else c)"

definition failPending :: "workerClient \<Rightarrow> workerClient" where
  "failPending c =
     (foldl (\<lambda>c' (i, ch). sendNonblocking ch c') c (cl_pending c))\<lparr>cl_pending := []\<rparr>"

definition connectionDown :: "workerClient \<Rightarrow> workerClient" where
  "connectionDown c = (failPending c)\<lparr>cl_up := False\<rparr>"

text \<open>
  What a waiter of \<open>request\<close> or \<open>call\<close> gets from its channel; \<open>None\<close> is a time-out or a closed
  connection.
\<close>

definition awaitResponse :: "nat \<Rightarrow> workerClient \<Rightarrow> message option" where
  "awaitResponse ch c = (case cl_box c ! ch of Response m # rs \<Rightarrow> Some m | _ \<Rightarrow> None)"

definition callOk :: "message option \<Rightarrow> bool" where
  "callOk r = (case r of None \<Rightarrow> False | Some m \<Rightarrow> m_error m = None)"

section \<open>The life of a connection\<close>

text \<open>The waiters register and give up at any time; the read loop is one goroutine.\<close>

inductive cstep :: "workerClient \<Rightarrow> workerClient \<Rightarrow> bool" where
  c_register: "cstep c (snd (register i c))"
| c_call: "cstep c (snd (callStart workerId c))"
| c_unregister: "cstep c (unregister i c)"
| c_message: "cl_up c \<Longrightarrow> cstep c (fst (readMessage m c))"
| c_down: "cl_up c \<Longrightarrow> cstep c (connectionDown c)"

inductive_cases cstepE: "cstep c c'"

text \<open>
  The invariant: a pending channel is empty and belongs to one id, and no channel holds more
  than the one value it has room for.
\<close>

definition client_ok :: "workerClient \<Rightarrow> bool" where
  "client_ok c \<longleftrightarrow>
     wf_map (cl_pending c) \<and>
     (\<forall>i ch. gget (cl_pending c) i = Some ch \<longrightarrow> ch < length (cl_box c) \<and> cl_box c ! ch = []) \<and>
     (\<forall>i j ch. gget (cl_pending c) i = Some ch \<longrightarrow> gget (cl_pending c) j = Some ch \<longrightarrow> i = j) \<and>
     (\<forall>ch < length (cl_box c). length (cl_box c ! ch) \<le> 1)"

lemma client_okI:
  assumes "wf_map (cl_pending c)"
    and "\<And>i ch. gget (cl_pending c) i = Some ch \<Longrightarrow> ch < length (cl_box c) \<and> cl_box c ! ch = []"
    and "\<And>i j ch. gget (cl_pending c) i = Some ch \<Longrightarrow> gget (cl_pending c) j = Some ch \<Longrightarrow> i = j"
    and "\<And>ch. ch < length (cl_box c) \<Longrightarrow> length (cl_box c ! ch) \<le> 1"
  shows "client_ok c"
  using assms unfolding client_ok_def by blast

lemma client_okD:
  assumes "client_ok c"
  shows "wf_map (cl_pending c)"
    and "gget (cl_pending c) i = Some ch \<Longrightarrow> ch < length (cl_box c)"
    and "gget (cl_pending c) i = Some ch \<Longrightarrow> cl_box c ! ch = []"
    and "gget (cl_pending c) i = Some ch \<Longrightarrow> gget (cl_pending c) j = Some ch \<Longrightarrow> i = j"
    and "ch < length (cl_box c) \<Longrightarrow> length (cl_box c ! ch) \<le> 1"
  using assms unfolding client_ok_def by blast+

lemma client_ok_fresh: "client_ok freshClient"
  by (simp add: client_ok_def freshClient_def)

lemma client_ok_seq: "client_ok (c\<lparr>cl_seq := n\<rparr>) = client_ok c"
  by (simp add: client_ok_def)

lemma client_ok_register:
  assumes "client_ok c"
  shows "client_ok (snd (register i c))"
proof (rule client_okI, goal_cases)
  case 1
  then show ?case using client_okD(1) [OF assms] by (simp add: register_def Let_def)
next
  case (2 j ch)
  then show ?case
    using client_okD(2,3) [OF assms, of j ch]
    by (auto simp: register_def Let_def nth_append split: if_splits)
next
  case (3 j k ch)
  then show ?case
    using client_okD(4) [OF assms, of j ch k] client_okD(2) [OF assms, of j ch]
      client_okD(2) [OF assms, of k ch]
    by (auto simp: register_def Let_def split: if_splits)
next
  case (4 ch)
  then show ?case
    using client_okD(5) [OF assms, of ch] by (auto simp: register_def Let_def nth_append less_Suc_eq)
qed

lemma client_ok_unregister:
  assumes "client_ok c"
  shows "client_ok (unregister i c)"
proof (rule client_okI, goal_cases)
  case 1
  then show ?case using client_okD(1) [OF assms] by (simp add: unregister_def)
next
  case (2 j ch)
  then show ?case using client_okD(2,3) [OF assms, of j ch] by (simp add: unregister_def split: if_splits)
next
  case (3 j k ch)
  then show ?case using client_okD(4) [OF assms, of j ch k] by (simp add: unregister_def split: if_splits)
next
  case (4 ch)
  then show ?case using client_okD(5) [OF assms, of ch] by (simp add: unregister_def)
qed

text \<open>Sending on an empty channel that is no longer pending keeps the invariant.\<close>

lemma client_ok_send:
  assumes "client_ok c" and "ch < length (cl_box c)" and "cl_box c ! ch = []"
    and "\<And>i. gget (cl_pending c) i \<noteq> Some ch"
  shows "client_ok (sendTo ch r c)"
proof (rule client_okI, goal_cases)
  case 1
  then show ?case using client_okD(1) [OF assms(1)] by (simp add: sendTo_def)
next
  case (2 j ch')
  then show ?case using client_okD(2,3) [OF assms(1), of j ch'] assms(4) [of j]
    by (auto simp: sendTo_def nth_list_update)
next
  case (3 j k ch')
  then show ?case using client_okD(4) [OF assms(1), of j ch' k] by (simp add: sendTo_def)
next
  case (4 ch')
  then show ?case using client_okD(5) [OF assms(1), of ch'] assms(2,3)
    by (cases "ch' = ch") (auto simp: sendTo_def)
qed

lemma client_ok_read:
  assumes "client_ok c"
  shows "client_ok (fst (readMessage m c))"
proof -
  have drop: "client_ok (c\<lparr>cl_pending := gdel i (cl_pending c)\<rparr>)" for i
    using client_ok_unregister [OF assms, of i] by (simp add: unregister_def)
  have "client_ok (sendTo ch (Response m) (c\<lparr>cl_pending := gdel i (cl_pending c)\<rparr>))"
    if "gget (cl_pending c) i = Some ch" for i ch
    using client_okD(2,3) [OF assms that] client_okD(4) [OF assms that]
    by (intro client_ok_send [OF drop]) (auto split: if_splits)
  then show ?thesis
    using assms drop by (auto simp: readMessage_def Let_def split: option.split)
qed

lemma sendNonblocking_frame [simp]:
  "length (cl_box (sendNonblocking ch c)) = length (cl_box c)"
  "cl_pending (sendNonblocking ch c) = cl_pending c"
  "cl_up (sendNonblocking ch c) = cl_up c"
  by (simp_all add: sendNonblocking_def sendTo_def)

lemma sendNonblocking_box:
  "k < length (cl_box c) \<Longrightarrow> cl_box (sendNonblocking ch c) ! k =
     (if k = ch \<and> cl_box c ! k = [] then [Closed] else cl_box c ! k)"
  by (auto simp: sendNonblocking_def sendTo_def)

abbreviation failAll :: "(json \<times> nat) list \<Rightarrow> workerClient \<Rightarrow> workerClient" where
  "failAll ps c \<equiv> foldl (\<lambda>c' (i, ch). sendNonblocking ch c') c ps"

lemma failAll_frame [simp]:
  "length (cl_box (failAll ps c)) = length (cl_box c)"
  "cl_pending (failAll ps c) = cl_pending c"
  "cl_up (failAll ps c) = cl_up c"
  by (induction ps arbitrary: c) auto

lemma failAll_box:
  "k < length (cl_box c) \<Longrightarrow> cl_box (failAll ps c) ! k =
     (if k \<in> snd ` set ps \<and> cl_box c ! k = [] then [Closed] else cl_box c ! k)"
proof (induction ps arbitrary: c)
  case (Cons p ps)
  obtain i ch where "p = (i, ch)" by (cases p)
  then show ?case
    using Cons.IH [of "sendNonblocking ch c"] Cons.prems by (auto simp: sendNonblocking_box)
qed simp

lemma failPending_frame [simp]:
  "length (cl_box (failPending c)) = length (cl_box c)"
  "cl_pending (failPending c) = []"
  "cl_up (failPending c) = cl_up c"
  by (simp_all add: failPending_def)

lemma failPending_box:
  "k < length (cl_box c) \<Longrightarrow> cl_box (failPending c) ! k =
     (if k \<in> snd ` set (cl_pending c) \<and> cl_box c ! k = [] then [Closed] else cl_box c ! k)"
  by (simp add: failPending_def failAll_box)

lemma client_ok_down:
  assumes "client_ok c"
  shows "client_ok (connectionDown c)"
proof (rule client_okI, goal_cases)
  case (4 ch)
  then show ?case
    using client_okD(5) [OF assms, of ch] by (simp add: connectionDown_def failPending_box)
qed (simp_all add: connectionDown_def)

inductive clientReachable :: "workerClient \<Rightarrow> bool" where
  cr_fresh: "clientReachable freshClient"
| cr_step: "clientReachable c \<Longrightarrow> cstep c c' \<Longrightarrow> clientReachable c'"

lemma client_ok_step: "client_ok c \<Longrightarrow> cstep c c' \<Longrightarrow> client_ok c'"
  by (erule cstepE)
    (simp_all add: client_ok_register client_ok_unregister client_ok_read client_ok_down
      callStart_def Let_def client_ok_seq)

lemma clientReachable_ok: "clientReachable c \<Longrightarrow> client_ok c"
  by (induction rule: clientReachable.induct) (auto intro: client_ok_fresh client_ok_step)

section \<open>After the connection is down\<close>

text \<open>Nothing is sent any more: the contents of every channel stay.\<close>

lemma down_keeps_boxes:
  assumes "cstep c c'" and "\<not> cl_up c"
  shows "\<not> cl_up c' \<and> length (cl_box c) \<le> length (cl_box c') \<and>
    (\<forall>ch < length (cl_box c). cl_box c' ! ch = cl_box c ! ch)"
  using assms
  by (auto simp: register_def unregister_def callStart_def Let_def nth_append elim!: cstepE)

lemma down_keeps_boxes_star:
  assumes "cstep\<^sup>*\<^sup>* c c'" and "\<not> cl_up c"
  shows "\<not> cl_up c' \<and> length (cl_box c) \<le> length (cl_box c') \<and>
    (\<forall>ch < length (cl_box c). cl_box c' ! ch = cl_box c ! ch)"
  using assms
proof (induction rule: rtranclp_induct)
  case (step c1 c2)
  then show ?case using down_keeps_boxes [of c1 c2] by auto
qed simp

lemma registered_reachable: "clientReachable (snd (register i freshClient))"
  by (rule cr_step [OF cr_fresh c_register])

section \<open>Properties\<close>

text \<open>the read loop never blocks on a waiter. However requests, time-outs, answers and the
  end of the connection interleave, no channel is sent more values than it has room for, and the
  channel of a request that is still pending is empty.\<close>

theorem waiter_channels_never_block:
  assumes "clientReachable c"
  shows "(\<forall>ch < length (cl_box c). length (cl_box c ! ch) \<le> 1) \<and>
    (\<forall>i ch. gget (cl_pending c) i = Some ch \<longrightarrow> cl_box c ! ch = [])"
  using client_okD(3,5) [OF clientReachable_ok [OF assms]] by blast

theorem waiter_channels_never_block_witness:
  "(let c = connectionDown (snd (register (JNum ''1'') freshClient))
    in (\<forall>ch < length (cl_box c). length (cl_box c ! ch) \<le> 1) \<and>
       (\<forall>i ch. gget (cl_pending c) i = Some ch \<longrightarrow> cl_box c ! ch = []))"
  unfolding Let_def
  by (rule waiter_channels_never_block [OF cr_step [OF registered_reachable c_down]])
    (simp add: register_def freshClient_def Let_def)

text \<open>C30: no waiter is left behind when the worker dies. Every request that is pending when
  the connection goes down has its sentinel at once, so it fails without waiting for its
  time-out, and an answer that had already arrived is kept.\<close>

theorem down_releases_waiters:
  assumes "clientReachable c"
  shows "cl_pending (connectionDown c) = [] \<and>
    (\<forall>i ch. gget (cl_pending c) i = Some ch \<longrightarrow> cl_box (connectionDown c) ! ch = [Closed]) \<and>
    (\<forall>ch r. ch < length (cl_box c) \<longrightarrow> cl_box c ! ch = [r] \<longrightarrow> cl_box (connectionDown c) ! ch = [r])"
proof -
  note ok = clientReachable_ok [OF assms]
  have "cl_box (connectionDown c) ! ch = [Closed]" if "gget (cl_pending c) i = Some ch" for i ch
    using client_okD(2,3) [OF ok that] map_of_SomeD [OF that]
    by (force simp: connectionDown_def failPending_box)
  then show ?thesis by (simp add: connectionDown_def failPending_box)
qed

theorem down_releases_waiters_witness:
  "cl_box (connectionDown (snd (register (JNum ''1'') freshClient))) ! 0 = [Closed]"
  using down_releases_waiters [OF registered_reachable [of "JNum ''1''"]]
  by (auto simp: register_def freshClient_def Let_def)

text \<open>a late request is not told. A request that registers after the connection went down,
  in the moment before the handle forgets the client, never gets an answer nor the sentinel: it
  waits until its time-out.\<close>

theorem late_request_unanswered:
  assumes "\<not> cl_up c" and "register i c = (ch, c1)" and "cstep\<^sup>*\<^sup>* c1 c2"
  shows "awaitResponse ch c2 = None \<and> cl_box c2 ! ch = []"
proof -
  have "ch < length (cl_box c1)" "cl_box c1 ! ch = []" "\<not> cl_up c1"
    using assms(1,2) by (auto simp: register_def Let_def)
  then have "cl_box c2 ! ch = []" using down_keeps_boxes_star [OF assms(3)] by auto
  then show ?thesis by (simp add: awaitResponse_def)
qed

theorem late_request_unanswered_witness:
  "(let (ch, c1) = register (JNum ''1'') (connectionDown freshClient)
    in awaitResponse ch c1 = None \<and> cl_box c1 ! ch = [])"
  using late_request_unanswered [of "connectionDown freshClient" "JNum ''1''"]
  by (simp add: connectionDown_def failPending_def freshClient_def register_def Let_def)

end
