(* ===== verification/Worker.thy ===== *)
theory Worker
  imports Mirror WorkerClient
begin

text \<open>
  The handle of an isolated worker gopls (\<open>worker.go\<close>, type \<open>workerHandle\<close>): starting the
  process, initialising it, reserving it for requests, evicting it when idle, and mirroring the
  editor's notifications onto it. Every function body that runs under the handle's mutex is
  one step; \<open>observe\<close>, which mirrors after it released the mutex, and \<open>evictIfIdle\<close>, which
  checks and shuts down in two critical sections, are two steps each.
\<close>

section \<open>State\<close>

text \<open>
  The process and its connection are named by the generation that spawned them, as is the
  \<open>ready\<close> channel. \<open>wh_closed\<close>: the generations whose channel was closed, once per close.
  \<open>wh_sent\<close>: the notifications written, with the connection they were written to. \<open>wh_timer\<close>:
  the generation the armed eviction timer was armed for. (\<open>lastUsed\<close> is never read.)
\<close>

record workerHandle =
  wh_root :: string
  wh_client :: "nat option"
  wh_readyDone :: bool
  wh_initErr :: bool
  wh_gen :: nat
  wh_holds :: int
  wh_warned :: bool
  wh_timer :: "nat option"
  wh_pendingObs :: "bufferedNote list"
  wh_closed :: "nat list"
  wh_sent :: "(nat \<times> workerNote) list"

definition newHandle :: "string \<Rightarrow> workerHandle" where
  "newHandle root =
     \<lparr>wh_root = root, wh_client = None, wh_readyDone = False, wh_initErr = False, wh_gen = 0,
      wh_holds = 0, wh_warned = False, wh_timer = None, wh_pendingObs = [], wh_closed = [],
      wh_sent = []\<rparr>"

section \<open>Operations\<close>

definition closeReadyLocked :: "workerHandle \<Rightarrow> workerHandle" where
  "closeReadyLocked h =
     (if wh_readyDone h then h
      else h\<lparr>wh_readyDone := True, wh_closed := wh_closed h @ [wh_gen h]\<rparr>)"

definition stopEvictLocked :: "workerHandle \<Rightarrow> workerHandle" where
  "stopEvictLocked h = h\<lparr>wh_timer := None\<rparr>"

definition armEvictLocked :: "int \<Rightarrow> workerHandle \<Rightarrow> workerHandle" where
  "armEvictLocked ttl h =
     (let h1 = stopEvictLocked h
      in if ttl \<le> 0 \<or> wh_client h1 = None then h1 else h1\<lparr>wh_timer := Some (wh_gen h1)\<rparr>)"

text \<open>
  \<open>ensureStartedLocked\<close>: the generation of the client that runs afterwards, or nothing when it
  cannot be started. \<open>pRoot\<close> is the workspace root, \<open>spawnOk\<close> tells whether the process starts.
\<close>

definition ensureStartedLocked ::
  "int \<Rightarrow> bool \<Rightarrow> string \<Rightarrow> workerHandle \<Rightarrow> nat option \<times> workerHandle" where
  "ensureStartedLocked ttl spawnOk pRoot h =
     (if wh_client h \<noteq> None then (Some (wh_gen h), h)
      else if wh_root h = '''' \<and> pRoot = '''' then (None, h)
      else if \<not> spawnOk then (None, h)
      else
        let gen = Suc (wh_gen h);
            h1 = h\<lparr>wh_gen := gen, wh_client := Some gen, wh_readyDone := False,
                   wh_initErr := False, wh_warned := False, wh_pendingObs := []\<rparr>
        in (Some gen, armEvictLocked ttl h1))"

definition acquire :: "int \<Rightarrow> bool \<Rightarrow> string \<Rightarrow> workerHandle \<Rightarrow> nat option \<times> workerHandle" where
  "acquire ttl spawnOk pRoot h =
     (case ensureStartedLocked ttl spawnOk pRoot h of
        (None, h1) \<Rightarrow> (None, h1)
      | (Some gen, h1) \<Rightarrow> (Some gen, stopEvictLocked (h1\<lparr>wh_holds := wh_holds h1 + 1\<rparr>)))"

definition release :: "int \<Rightarrow> workerHandle \<Rightarrow> workerHandle" where
  "release ttl h =
     (let h1 = h\<lparr>wh_holds := wh_holds h - 1\<rparr>
      in if wh_holds h1 = 0 then armEvictLocked ttl h1 else h1)"

text \<open>
  \<open>replayLiveLocked\<close>: \<open>snap\<close> is the snapshot of the open documents, \<open>doc\<close> the tracked document of a URI. Then
  \<open>initWorker\<close> from the result of \<open>initialize\<close> on.
\<close>

definition replayNotes ::
  "openDoc list \<Rightarrow> (string \<Rightarrow> openDoc option) \<Rightarrow> bufferedNote list \<Rightarrow> workerNote list" where
  "replayNotes snap doc pend = map DidOpen snap @ concat (map (mirrorNotes doc) pend)"

definition replayLiveLocked ::
  "nat \<Rightarrow> openDoc list \<Rightarrow> (string \<Rightarrow> openDoc option) \<Rightarrow> workerHandle \<Rightarrow> workerHandle" where
  "replayLiveLocked c snap doc h =
     closeReadyLocked
       (h\<lparr>wh_sent := wh_sent h @
            map (Pair c) (replayNotes snap doc (wh_pendingObs h)),
          wh_pendingObs := []\<rparr>)"

definition initWorker ::
  "nat \<Rightarrow> bool \<Rightarrow> openDoc list \<Rightarrow> (string \<Rightarrow> openDoc option) \<Rightarrow> workerHandle \<Rightarrow> workerHandle" where
  "initWorker gen ok snap doc h =
     (if wh_gen h \<noteq> gen \<or> wh_readyDone h then h
      else if \<not> ok then
        closeReadyLocked (stopEvictLocked
          (h\<lparr>wh_initErr := True, wh_client := None, wh_pendingObs := []\<rparr>))
      else replayLiveLocked gen snap doc (h\<lparr>wh_initErr := False\<rparr>))"

definition onExit :: "nat \<Rightarrow> workerHandle \<Rightarrow> workerHandle" where
  "onExit gen h =
     (if wh_gen h \<noteq> gen then h
      else
        let h1 = stopEvictLocked (h\<lparr>wh_client := None\<rparr>)
        in if \<not> wh_readyDone h1 then closeReadyLocked (h1\<lparr>wh_initErr := True\<rparr>) else h1)"

definition shutdown :: "workerHandle \<Rightarrow> workerHandle" where
  "shutdown h =
     (if wh_client h = None then h
      else
        let h1 = stopEvictLocked (h\<lparr>wh_client := None\<rparr>)
        in if \<not> wh_readyDone h1 then closeReadyLocked (h1\<lparr>wh_initErr := True\<rparr>) else h1)"

text \<open>\<open>evictIfIdle\<close>: its check; if it passes, \<open>shutdown\<close> follows.\<close>

definition evictIdleCheck :: "nat \<Rightarrow> workerHandle \<Rightarrow> bool" where
  "evictIdleCheck gen h \<longleftrightarrow> wh_gen h = gen \<and> wh_client h \<noteq> None \<and> wh_holds h = 0"

text \<open>\<open>observe\<close>: the client to mirror the notification to, if it is not dropped or buffered.\<close>

definition observe :: "bufferedNote \<Rightarrow> workerHandle \<Rightarrow> nat option \<times> workerHandle" where
  "observe n h =
     (case wh_client h of
        None \<Rightarrow> (None, h)
      | Some c \<Rightarrow>
          if \<not> wh_readyDone h then (None, h\<lparr>wh_pendingObs := wh_pendingObs h @ [n]\<rparr>)
          else if wh_initErr h then (None, h)
          else (Some c, h))"

definition mirror ::
  "nat \<Rightarrow> (string \<Rightarrow> openDoc option) \<Rightarrow> bufferedNote \<Rightarrow> workerHandle \<Rightarrow> workerHandle" where
  "mirror c doc n h = h\<lparr>wh_sent := wh_sent h @ map (Pair c) (mirrorNotes doc n)\<rparr>"

definition shouldWarnLoading :: "workerHandle \<Rightarrow> bool \<times> workerHandle" where
  "shouldWarnLoading h =
     (if wh_client h \<noteq> None \<and> wh_readyDone h \<and> \<not> wh_initErr h then (False, h)
      else if wh_warned h then (False, h)
      else (True, h\<lparr>wh_warned := True\<rparr>))"

text \<open>
  \<open>request\<close> once the channel of generation \<open>gen\<close> is closed: restarted meanwhile, failed to
  initialise, or the client is asked.
\<close>

datatype requestPath = Restarted | InitFailed | AskClient nat

definition requestAfterReady :: "nat \<Rightarrow> workerHandle \<Rightarrow> requestPath" where
  "requestAfterReady gen h =
     (if wh_gen h \<noteq> gen then Restarted else if wh_initErr h then InitFailed else AskClient gen)"

section \<open>What a worker starts from\<close>

record workerState =
  st_root :: string
  st_initParams :: "json option"
  st_config :: "json list"
  st_docs :: "openDoc list"

definition underRoot :: "(string \<Rightarrow> bool) \<Rightarrow> string \<Rightarrow> string \<Rightarrow> bool" where
  "underRoot hostOk root uri =
     (let path = uriToPath hostOk uri in path = root \<or> hasPrefix path (root @ ''/''))"

definition workerStateFor ::
  "(string \<Rightarrow> bool) \<Rightarrow> string \<Rightarrow> 'a configState_scheme \<Rightarrow> openDocs \<Rightarrow> workerState" where
  "workerStateFor hostOk root p docs =
     (if root = '''' \<or> root = p_root p
      then \<lparr>st_root = p_root p, st_initParams = p_workerInit p, st_config = p_workerConfig p,
            st_docs = map snd docs\<rparr>
      else \<lparr>st_root = root, st_initParams = None, st_config = p_workerConfig p,
            st_docs = map snd (filter (\<lambda>(u, d). underRoot hostOk root (d_uri d)) docs)\<rparr>)"

text \<open>The documents of the snapshot, which do not depend on the settings.\<close>

definition snapDocs :: "(string \<Rightarrow> bool) \<Rightarrow> string \<Rightarrow> string \<Rightarrow> openDocs \<Rightarrow> openDoc list" where
  "snapDocs hostOk pRoot root docs =
     map snd (filter (\<lambda>(u, d). root = '''' \<or> root = pRoot \<or> underRoot hostOk root (d_uri d)) docs)"

lemma workerStateFor_docs: "st_docs (workerStateFor hostOk root p docs) = snapDocs hostOk (p_root p) root docs"
  by (simp add: workerStateFor_def snapDocs_def)

section \<open>The interleaving\<close>

text \<open>
  The pump is one goroutine: it tracks a notification, hands it to the handle that is to see
  it, and mirrors it if the worker is live. The requests, the process, its initialisation and
  the eviction timer interleave with it. \<open>evicting\<close>: an idle check has passed and its shutdown
  is due; \<open>held\<close>: the requests between \<open>acquire\<close> and \<open>release\<close>.
\<close>

record workerEnv =
  we_hostOk :: "string \<Rightarrow> bool"
  we_readInt :: "string \<Rightarrow> int option"
  we_mine :: "string \<Rightarrow> bool"
  we_pRoot :: string
  we_ttl :: int

datatype pumpPc = PumpIdle | PumpTracked bufferedNote | PumpMirror nat bufferedNote

type_synonym workerSys = "openDocs \<times> workerHandle \<times> pumpPc \<times> bool \<times> nat"

definition delivered :: "workerEnv \<Rightarrow> bufferedNote \<Rightarrow> bool" where
  "delivered en n \<longleftrightarrow> noteURI n = '''' \<or> we_mine en (noteURI n)"

inductive wstep :: "workerEnv \<Rightarrow> workerSys \<Rightarrow> workerSys \<Rightarrow> bool" for en where
  w_track: "wstep en (docs, h, PumpIdle, ev, k)
    (trackNote (we_hostOk en) (we_readInt en) n docs, h,
     if delivered en n then PumpTracked n else PumpIdle, ev, k)"
| w_observe: "observe n h = (c, h') \<Longrightarrow> wstep en (docs, h, PumpTracked n, ev, k)
    (docs, h', case c of None \<Rightarrow> PumpIdle | Some g \<Rightarrow> PumpMirror g n, ev, k)"
| w_mirror: "wstep en (docs, h, PumpMirror g n, ev, k) (docs, mirror g (gget docs) n h, PumpIdle, ev, k)"
| w_start: "wstep en (docs, h, pc, ev, k)
    (docs, snd (ensureStartedLocked (we_ttl en) ok (we_pRoot en) h), pc, ev, k)"
| w_acquire: "acquire (we_ttl en) ok (we_pRoot en) h = (r, h') \<Longrightarrow> wstep en (docs, h, pc, ev, k)
    (docs, h', pc, ev, if r = None then k else Suc k)"
| w_release: "wstep en (docs, h, pc, ev, Suc k) (docs, release (we_ttl en) h, pc, ev, k)"
| w_init: "0 < g \<Longrightarrow> wstep en (docs, h, pc, ev, k)
    (docs, initWorker g ok (snapDocs (we_hostOk en) (we_pRoot en) (wh_root h) docs) (gget docs) h, pc, ev, k)"
| w_exit: "0 < g \<Longrightarrow> wstep en (docs, h, pc, ev, k) (docs, onExit g h, pc, ev, k)"
| w_shutdown: "wstep en (docs, h, pc, ev, k) (docs, shutdown h, pc, ev, k)"
| w_check: "0 < g \<Longrightarrow> evictIdleCheck g h \<Longrightarrow> wstep en (docs, h, pc, ev, k) (docs, h, pc, True, k)"
| w_evict: "wstep en (docs, h, pc, True, k) (docs, shutdown h, pc, False, k)"
| w_warn: "wstep en (docs, h, pc, ev, k) (docs, snd (shouldWarnLoading h), pc, ev, k)"

inductive workerReachable :: "workerEnv \<Rightarrow> string \<Rightarrow> workerSys \<Rightarrow> bool" for en root where
  wr_new: "workerReachable en root ([], newHandle root, PumpIdle, False, 0)"
| wr_step: "workerReachable en root s \<Longrightarrow> wstep en s s' \<Longrightarrow> workerReachable en root s'"

section \<open>Generations and their channels\<close>

text \<open>
  The invariant of the handle: the client is the current generation's; a generation that is
  still loading has a client, nothing was sent to it yet; every earlier generation's channel is
  closed, the current one's exactly when the generation is ready, and none twice.
\<close>

definition closedBelow :: "nat \<Rightarrow> nat list \<Rightarrow> bool" where
  "closedBelow n cl \<longleftrightarrow> distinct cl \<and> (\<forall>g. g \<in> set cl \<longleftrightarrow> 0 < g \<and> g < n)"

definition sentBelow :: "nat \<Rightarrow> (nat \<times> workerNote) list \<Rightarrow> bool" where
  "sentBelow n s \<longleftrightarrow> (\<forall>x \<in> set s. fst x < n)"

lemma closedBelow_snoc: "closedBelow n cl \<Longrightarrow> 0 < n \<Longrightarrow> closedBelow (Suc n) (cl @ [n])"
  unfolding closedBelow_def by (auto simp: less_Suc_eq)

lemma closedBelow_start: "closedBelow 0 cl \<Longrightarrow> closedBelow (Suc 0) cl"
  unfolding closedBelow_def by auto

lemma sentBelow_mono: "sentBelow m s \<Longrightarrow> m \<le> n \<Longrightarrow> sentBelow n s"
  unfolding sentBelow_def by fastforce

lemma sentBelow_append:
  "sentBelow n s \<Longrightarrow> g < n \<Longrightarrow> sentBelow n (s @ map (Pair g) ns)"
  unfolding sentBelow_def by auto

definition gens_inv ::
  "nat option \<Rightarrow> bool \<Rightarrow> bool \<Rightarrow> nat \<Rightarrow> nat list \<Rightarrow> (nat \<times> workerNote) list \<Rightarrow> bool" where
  "gens_inv client ready err gen closed sent \<longleftrightarrow>
     (client = None \<or> client = Some gen \<and> 0 < gen) \<and>
     (gen = 0 \<longrightarrow> \<not> ready) \<and>
     (0 < gen \<and> \<not> ready \<longrightarrow> client = Some gen) \<and>
     (client \<noteq> None \<and> ready \<longrightarrow> \<not> err) \<and>
     closedBelow (if ready then Suc gen else gen) closed \<and>
     sentBelow (if ready then Suc gen else gen) sent"

abbreviation handle_ok :: "workerHandle \<Rightarrow> bool" where
  "handle_ok h \<equiv> gens_inv (wh_client h) (wh_readyDone h) (wh_initErr h) (wh_gen h)
     (wh_closed h) (wh_sent h)"

lemma gens_inv_client: "gens_inv (Some g) r e n cl s \<Longrightarrow> g = n \<and> 0 < n"
  by (simp add: gens_inv_def)

lemma gens_inv_spawn:
  assumes "gens_inv None r e n cl s"
  shows "gens_inv (Some (Suc n)) False False (Suc n) cl s"
proof -
  have "r \<and> 0 < n \<or> \<not> r \<and> n = 0" using assms by (auto simp: gens_inv_def)
  moreover have "closedBelow (Suc n) cl" "sentBelow (Suc n) s"
    using calculation assms closedBelow_start sentBelow_mono [of n s "Suc n"]
    by (auto simp: gens_inv_def)
  ultimately show ?thesis by (simp add: gens_inv_def)
qed

lemma gens_inv_down:
  assumes "gens_inv c r e n cl s" and "0 < n"
  shows "gens_inv None True e' n (if r then cl else cl @ [n]) s"
  using assms sentBelow_mono [of n s "Suc n"] closedBelow_snoc [of n cl]
  by (cases r) (simp_all add: gens_inv_def)

lemma gens_inv_live:
  assumes "gens_inv c False e n cl s" and "0 < n"
  shows "gens_inv (Some n) True False n (cl @ [n]) (s @ map (Pair n) ns)"
  using assms sentBelow_mono [of n s "Suc n"] sentBelow_append [of "Suc n" s n ns]
    closedBelow_snoc [of n cl]
  by (simp add: gens_inv_def)

lemma gens_inv_sent:
  "gens_inv c r e n cl s \<Longrightarrow> g < (if r then Suc n else n) \<Longrightarrow>
     gens_inv c r e n cl (s @ map (Pair g) ns)"
  by (simp add: gens_inv_def sentBelow_append)

lemmas worker_ops_defs = closeReadyLocked_def stopEvictLocked_def armEvictLocked_def
  release_def shouldWarnLoading_def observe_def Let_def

lemma handle_ok_new: "handle_ok (newHandle root)"
  by (simp add: gens_inv_def newHandle_def closedBelow_def sentBelow_def)

lemma handle_ok_frame:
  assumes "handle_ok h"
  shows "handle_ok (release ttl h)" "handle_ok (snd (shouldWarnLoading h))"
    "handle_ok (snd (observe n h))"
proof -
  show "handle_ok (release ttl h)" using assms by (simp add: worker_ops_defs)
  show "handle_ok (snd (shouldWarnLoading h))"
    using assms by (cases "wh_client h"; cases "wh_readyDone h"; cases "wh_initErr h")
      (simp_all add: shouldWarnLoading_def)
  show "handle_ok (snd (observe n h))"
    using assms by (cases "wh_client h"; cases "wh_readyDone h"; cases "wh_initErr h")
      (simp_all add: observe_def)
qed

lemma handle_ok_start:
  assumes "handle_ok h"
  shows "handle_ok (snd (ensureStartedLocked ttl ok pRoot h))"
proof (cases "wh_client h")
  case None
  then show ?thesis
    using assms gens_inv_spawn [of "wh_readyDone h" "wh_initErr h" "wh_gen h"]
    by (simp add: ensureStartedLocked_def worker_ops_defs)
qed (use assms in \<open>simp add: ensureStartedLocked_def\<close>)

lemma handle_ok_acquire:
  assumes "handle_ok h"
  shows "handle_ok (snd (acquire ttl ok pRoot h))"
proof -
  obtain r h1 where r: "ensureStartedLocked ttl ok pRoot h = (r, h1)" by fastforce
  then have "handle_ok h1" using handle_ok_start [OF assms, of ttl ok pRoot] by simp
  then show ?thesis by (cases r) (simp_all add: acquire_def r stopEvictLocked_def)
qed

text \<open>The process is gone: \<open>onExit\<close>, \<open>shutdown\<close> and a failed \<open>initWorker\<close> do the same.\<close>

lemma handle_ok_gone:
  assumes "handle_ok h" and "0 < wh_gen h" and "wh_gen h' = wh_gen h" "wh_client h' = None"
    "wh_readyDone h'" "wh_sent h' = wh_sent h"
    "wh_closed h' = (if wh_readyDone h then wh_closed h else wh_closed h @ [wh_gen h])"
  shows "handle_ok h'"
  using gens_inv_down [OF assms(1,2)] assms(3-) by simp

lemma handle_ok_exit:
  assumes "handle_ok h" and "0 < g"
  shows "handle_ok (onExit g h)"
proof (cases "wh_gen h = g")
  case True
  then show ?thesis
    using assms by (intro handle_ok_gone [OF assms(1)]) (simp_all add: onExit_def worker_ops_defs)
qed (use assms in \<open>simp add: onExit_def\<close>)

lemma handle_ok_shutdown:
  assumes "handle_ok h"
  shows "handle_ok (shutdown h)"
proof (cases "wh_client h")
  case (Some g)
  then have "0 < wh_gen h" using assms gens_inv_client by fastforce
  then show ?thesis
    using Some by (intro handle_ok_gone [OF assms]) (simp_all add: shutdown_def worker_ops_defs)
qed (use assms in \<open>simp add: shutdown_def\<close>)

lemma handle_ok_init:
  assumes "handle_ok h" and "0 < g"
  shows "handle_ok (initWorker g ok snap doc h)"
proof (cases "wh_gen h \<noteq> g \<or> wh_readyDone h")
  case False
  then have now: "wh_gen h = g" "\<not> wh_readyDone h" "wh_client h = Some g"
    using assms by (simp_all add: gens_inv_def)
  show ?thesis
  proof (cases ok)
    case True
    then show ?thesis
      using now gens_inv_live [of "wh_client h" "wh_initErr h" g] assms
      by (simp add: initWorker_def replayLiveLocked_def closeReadyLocked_def)
  next
    case False
    then show ?thesis
      using now assms
      by (intro handle_ok_gone [OF assms(1)]) (simp_all add: initWorker_def worker_ops_defs)
  qed
qed (use assms in \<open>simp add: initWorker_def\<close>)

section \<open>The worker's documents\<close>

text \<open>The documents the worker of generation \<open>g\<close> knows, and those a snapshot of it holds.\<close>

definition viewOf :: "nat \<Rightarrow> workerHandle \<Rightarrow> view" where
  "viewOf g h = applyNotes (map snd (filter (\<lambda>x. fst x = g) (wh_sent h))) (\<lambda>u. None)"

definition inSnap :: "workerEnv \<Rightarrow> string \<Rightarrow> string \<Rightarrow> bool" where
  "inSnap en root u \<longleftrightarrow> root = '''' \<or> root = we_pRoot en \<or> underRoot (we_hostOk en) root u"

lemma filter_pairs [simp]:
  "map snd (filter (\<lambda>x. fst x = g) (map (Pair g') ns)) = (if g' = g then ns else [])"
  by (induction ns) auto

lemma viewOf_sent:
  "viewOf g (h\<lparr>wh_sent := wh_sent h @ map (Pair g') ns\<rparr>) =
     (if g' = g then applyNotes ns (viewOf g h) else viewOf g h)"
  by (simp add: viewOf_def)

lemma viewOf_unsent: "sentBelow g (wh_sent h) \<Longrightarrow> viewOf g h = (\<lambda>u. None)"
proof -
  assume below: "sentBelow g (wh_sent h)"
  have "filter (\<lambda>x. fst x = g) (wh_sent h) = []"
    by (rule filter_False) (use below in \<open>auto simp: sentBelow_def\<close>)
  then show ?thesis by (simp add: viewOf_def)
qed

text \<open>Opening the documents of a snapshot.\<close>

lemma apply_opens:
  "distinct (map fst L) \<Longrightarrow> (\<forall>x \<in> set L. d_uri (snd x) = fst x) \<Longrightarrow>
     applyNotes (map DidOpen (map snd L)) v u =
       (case gget L u of None \<Rightarrow> v u | Some d \<Rightarrow> editorHas (Some d))"
proof (induction L arbitrary: v)
  case (Cons x L)
  obtain k d where x: "x = (k, d)" by (cases x)
  have "gget L k = None" using Cons.prems(1) x by (auto simp: map_of_eq_None_iff)
  then show ?case
    using Cons.IH [of "applyNote (DidOpen d) v"] Cons.prems x
    by (auto simp: fun_upd_def split: option.split)
qed simp

lemma apply_snapshot:
  assumes "docs_ok docs" and "inSnap en root u"
  shows "applyNotes (map DidOpen (snapDocs (we_hostOk en) (we_pRoot en) root docs)) (\<lambda>u. None) u =
    editorHas (gget docs u)"
proof -
  let ?P = "\<lambda>(k, d). root = '''' \<or> root = we_pRoot en \<or> underRoot (we_hostOk en) root (d_uri d)"
  have wf: "wf_map docs" and own: "gget docs k = Some d \<Longrightarrow> d_uri d = k" for k d
    using assms(1) unfolding docs_ok_def by blast+
  have keys: "x \<in> set docs \<Longrightarrow> d_uri (snd x) = fst x" for x
    using own [of "fst x" "snd x"] wf map_of_is_SomeI [of docs "fst x" "snd x"]
    by (simp add: wf_map_def)
  have "applyNotes (map DidOpen (map snd (filter ?P docs))) (\<lambda>u. None) u =
    (case gget (filter ?P docs) u of None \<Rightarrow> None | Some d \<Rightarrow> editorHas (Some d))"
    by (rule apply_opens) (use wf_map_filter [OF wf] keys in \<open>auto simp: wf_map_def\<close>)
  also have "gget (filter ?P docs) u = gget docs u"
    using gget_filter [OF wf, of "\<lambda>k d. ?P (k, d)" u] own [of u] assms(2)
    by (simp add: inSnap_def split: option.splits)
  finally show ?thesis by (simp add: snapDocs_def split: option.split)
qed

text \<open>
  A document is in sync if the worker has it as the editor has it, or will have it once
  the pump has mirrored the notification it holds. While the worker loads, a document that
  is open must not end up closed by the buffered notifications.
\<close>

definition inSync :: "pumpPc \<Rightarrow> openDocs \<Rightarrow> nat \<Rightarrow> view \<Rightarrow> string \<Rightarrow> bool" where
  "inSync pc docs gen v u \<longleftrightarrow>
     (case pc of
        PumpTracked n \<Rightarrow> applyNotes (mirrorNotes (gget docs) n) v u
      | PumpMirror g n \<Rightarrow> if g = gen then applyNotes (mirrorNotes (gget docs) n) v u else v u
      | PumpIdle \<Rightarrow> v u) = editorHas (gget docs u)"

definition survives :: "pumpPc \<Rightarrow> openDocs \<Rightarrow> bufferedNote list \<Rightarrow> string \<Rightarrow> bool" where
  "survives pc docs pend u \<longleftrightarrow>
     gget docs u \<noteq> None \<longrightarrow>
       dt.staysOpen u pend \<or> (\<exists>n. pc = PumpTracked n \<and> isOpen n \<and> noteURI n = u)"

definition pc_inv :: "pumpPc \<Rightarrow> openDocs \<Rightarrow> workerHandle \<Rightarrow> bool" where
  "pc_inv pc docs h \<longleftrightarrow>
     (case pc of
        PumpIdle \<Rightarrow> True
      | PumpTracked n \<Rightarrow> isClose n \<longrightarrow> gget docs (noteURI n) = None
      | PumpMirror g n \<Rightarrow> g < (if wh_readyDone h then Suc (wh_gen h) else wh_gen h))"

definition docs_inv :: "workerEnv \<Rightarrow> string \<Rightarrow> openDocs \<Rightarrow> workerHandle \<Rightarrow> pumpPc \<Rightarrow> bool" where
  "docs_inv en root docs h pc \<longleftrightarrow>
     (\<forall>u. we_mine en u \<longrightarrow> inSnap en root u \<longrightarrow> wh_client h \<noteq> None \<longrightarrow>
        (if wh_readyDone h then inSync pc docs (wh_gen h) (viewOf (wh_gen h) h) u
         else survives pc docs (wh_pendingObs h) u))"

lemma docs_inv_down: "wh_client h = None \<Longrightarrow> docs_inv en root docs h pc"
  by (simp add: docs_inv_def)

lemma docs_inv_cong:
  assumes "docs_inv en root docs h pc" and "wh_client h' = wh_client h" "wh_gen h' = wh_gen h"
    "wh_readyDone h' = wh_readyDone h" "wh_pendingObs h' = wh_pendingObs h" "wh_sent h' = wh_sent h"
  shows "docs_inv en root docs h' pc"
proof -
  have "viewOf g h' = viewOf g h" for g using assms(6) by (simp add: viewOf_def)
  then show ?thesis using assms(1-5) unfolding docs_inv_def by presburger
qed

text \<open>Tracking a notification.\<close>

lemma inSync_track:
  assumes "docs_ok docs" and "inSync PumpIdle docs gen v u"
    and "pc = PumpTracked n \<or> pc = PumpIdle \<and> u \<noteq> noteURI n"
  shows "inSync pc (trackNote hostOk readInt n docs) gen v u"
proof (cases "u = noteURI n")
  case True
  then show ?thesis
    using dt.mirror_catches_up [OF assms(1), of v n hostOk readInt] assms(2,3)
    by (simp add: inSync_def)
next
  case False
  then show ?thesis
    using dt.mirror_others [OF dt.good_track [OF assms(1)] False, of hostOk readInt n v]
      track_others [OF assms(1) False] assms(2,3)
    by (auto simp: inSync_def)
qed

lemma survives_track:
  assumes "docs_ok docs" and "survives PumpIdle docs pend u"
    and "pc = PumpTracked n \<or> pc = PumpIdle \<and> u \<noteq> noteURI n"
  shows "survives pc (trackNote hostOk readInt n docs) pend u"
proof (cases "u = noteURI n \<and> isOpen n")
  case True
  then show ?thesis using assms(3) by (auto simp: survives_def)
next
  case False
  have "gget docs u \<noteq> None" if open': "gget (trackNote hostOk readInt n docs) u \<noteq> None"
  proof (cases "u = noteURI n")
    case True
    then have "\<not> isClose n"
      using open' dt.drop_closed [of n hostOk readInt docs]
        dt.good_uri [OF dt.good_track [OF assms(1), of hostOk readInt n], of u] by auto
    then show ?thesis
      using True False open' dt.elsewhere [of n hostOk readInt docs]
        track_change_keeps [OF assms(1), of n hostOk readInt u] by (cases "isChange n") auto
  qed (use open' track_others [OF assms(1)] in auto)
  then show ?thesis using assms(2,3) by (auto simp: survives_def)
qed

text \<open>Handing it to the handle, and mirroring it.\<close>

lemma docs_inv_observe:
  assumes "handle_ok h" and "pc_inv (PumpTracked n) docs h"
    and "docs_inv en root docs h (PumpTracked n)" and "observe n h = (c, h')"
  shows "docs_inv en root docs h' (case c of None \<Rightarrow> PumpIdle | Some g \<Rightarrow> PumpMirror g n)"
proof (cases "wh_client h")
  case None
  then show ?thesis using assms(4) by (auto simp: observe_def intro: docs_inv_down)
next
  case (Some g)
  then have g: "g = wh_gen h" using assms(1) gens_inv_client by fastforce
  show ?thesis
  proof (cases "wh_readyDone h")
    case True
    then have "\<not> wh_initErr h" using assms(1) Some by (simp add: gens_inv_def)
    then have "c = Some g" "h' = h" using assms(4) Some True by (auto simp: observe_def)
    then show ?thesis using assms(3) True g by (simp add: docs_inv_def inSync_def)
  next
    case False
    have "survives PumpIdle docs (wh_pendingObs h @ [n]) u"
      if "survives (PumpTracked n) docs (wh_pendingObs h) u" for u
      using that assms(2) by (auto simp: survives_def pc_inv_def dt.staysOpen_snoc)
    moreover have "c = None" "h' = h\<lparr>wh_pendingObs := wh_pendingObs h @ [n]\<rparr>"
      using assms(4) Some False by (auto simp: observe_def)
    ultimately show ?thesis using assms(3) False by (simp add: docs_inv_def)
  qed
qed

lemma docs_inv_mirror:
  assumes "pc_inv (PumpMirror g n) docs h" and "docs_inv en root docs h (PumpMirror g n)"
  shows "docs_inv en root docs (mirror g (gget docs) n h) PumpIdle"
proof (cases "wh_readyDone h")
  case True
  then show ?thesis
    using assms(2) by (cases "g = wh_gen h") (simp_all add: docs_inv_def mirror_def viewOf_sent inSync_def)
next
  case False
  then show ?thesis using assms(2) by (simp add: docs_inv_def mirror_def survives_def)
qed

text \<open>Going live: the snapshot and the buffered notifications bring every document in sync.\<close>

lemma replay_inSync:
  assumes "docs_ok docs" and "inSnap en root u" and "survives pc docs pend u"
    and "\<And>n. pc = PumpTracked n \<Longrightarrow> isClose n \<Longrightarrow> gget docs (noteURI n) = None"
    and "\<And>g n. pc = PumpMirror g n \<Longrightarrow> g < gen"
  shows "inSync pc docs gen
    (applyNotes (replayNotes (snapDocs (we_hostOk en) (we_pRoot en) root docs) (gget docs) pend)
      (\<lambda>u. None)) u"
proof -
  let ?v = "applyNotes (map DidOpen (snapDocs (we_hostOk en) (we_pRoot en) root docs)) (\<lambda>u. None)"
  let ?w = "applyNotes (dt.replay docs pend) ?v"
  have v: "?v u = editorHas (gget docs u)" by (rule apply_snapshot [OF assms(1,2)])
  have w: "applyNotes (replayNotes (snapDocs (we_hostOk en) (we_pRoot en) root docs) (gget docs) pend)
      (\<lambda>u. None) = ?w"
    by (simp add: replayNotes_def dt.replay_def)
  show ?thesis
  proof (cases "gget docs u")
    case None
    then have "?w u = None" using dt.replay_untracked [OF assms(1) None, of ?v] v by simp
    then show ?thesis
      using dt.mirror_untracked [OF assms(1) None, of ?w] None assms(5)
      by (auto simp: inSync_def w split: pumpPc.split)
  next
    case (Some d)
    note wu = dt.replay_tracked [OF assms(1) Some, of ?v pend, unfolded v Some, OF refl]
    show ?thesis
    proof (cases "\<exists>n. pc = PumpTracked n \<and> isOpen n \<and> noteURI n = u")
      case True
      then show ?thesis using dt.mirror_opens [OF assms(1) Some] Some by (auto simp: inSync_def w)
    next
      case False
      then have wd: "?w u = editorHas (Some d)" using assms(3) Some wu by (auto simp: survives_def)
      show ?thesis
      proof (cases pc)
        case (PumpTracked n)
        have "\<not> (isClose n \<and> noteURI n = u)" using assms(4) [OF PumpTracked] Some by auto
        then show ?thesis
          using dt.mirror_repeats [OF assms(1) Some, where v = ?w, OF wd] PumpTracked Some
          by (simp add: inSync_def w)
      next
        case (PumpMirror g n)
        then show ?thesis using assms(5) [OF PumpMirror] wd Some by (simp add: inSync_def w)
      qed (use wd Some in \<open>simp add: inSync_def w\<close>)
    qed
  qed
qed

lemma docs_inv_init:
  assumes "docs_ok docs" and "wh_root h = root" and "handle_ok h" and "0 < g"
    and "pc_inv pc docs h" and "docs_inv en root docs h pc"
  shows "docs_inv en root docs
    (initWorker g ok (snapDocs (we_hostOk en) (we_pRoot en) root docs) (gget docs) h) pc"
proof (cases "wh_gen h \<noteq> g \<or> wh_readyDone h \<or> \<not> ok")
  case True
  then show ?thesis
    using assms(6) by (auto simp: initWorker_def worker_ops_defs intro: docs_inv_down)
next
  case False
  then have now: "wh_gen h = g" "\<not> wh_readyDone h" "wh_client h = Some g" ok
    using assms(3,4) by (simp_all add: gens_inv_def)
  let ?ns = "replayNotes (snapDocs (we_hostOk en) (we_pRoot en) root docs) (gget docs) (wh_pendingObs h)"
  let ?h = "initWorker g ok (snapDocs (we_hostOk en) (we_pRoot en) root docs) (gget docs) h"
  have "sentBelow g (wh_sent h)" using assms(3) now by (simp add: gens_inv_def)
  then have view: "viewOf g ?h = applyNotes ?ns (\<lambda>u. None)"
    using viewOf_unsent [of g h] now viewOf_sent [of g h g ?ns]
    by (simp add: initWorker_def replayLiveLocked_def closeReadyLocked_def viewOf_def)
  have "inSync pc docs g (applyNotes ?ns (\<lambda>u. None)) u"
    if "we_mine en u" "inSnap en root u" for u
  proof (rule replay_inSync [OF assms(1) that(2)])
    show "survives pc docs (wh_pendingObs h) u" using assms(6) that now by (simp add: docs_inv_def)
  qed (use assms(5) now in \<open>simp_all add: pc_inv_def\<close>)
  moreover have "wh_gen ?h = g" "wh_readyDone ?h"
    using now by (simp_all add: initWorker_def replayLiveLocked_def closeReadyLocked_def)
  ultimately show ?thesis by (simp add: docs_inv_def view)
qed

section \<open>The invariant of the system\<close>

definition worker_inv :: "workerEnv \<Rightarrow> string \<Rightarrow> workerSys \<Rightarrow> bool" where
  "worker_inv en root s \<longleftrightarrow>
     (case s of (docs, h, pc, ev, k) \<Rightarrow>
        docs_ok docs \<and> wh_root h = root \<and> handle_ok h \<and> wh_holds h = int k \<and>
        pc_inv pc docs h \<and> docs_inv en root docs h pc)"

text \<open>What the operations leave alone.\<close>

lemma start_frame:
  "wh_root (snd (ensureStartedLocked ttl ok pRoot h)) = wh_root h"
  "wh_holds (snd (ensureStartedLocked ttl ok pRoot h)) = wh_holds h"
  by (simp_all add: ensureStartedLocked_def worker_ops_defs)

lemma init_frame:
  "wh_root (initWorker g ok snap doc h) = wh_root h"
  "wh_holds (initWorker g ok snap doc h) = wh_holds h"
  by (simp_all add: initWorker_def replayLiveLocked_def worker_ops_defs)

lemma gone_frame:
  "wh_root (onExit g h) = wh_root h" "wh_holds (onExit g h) = wh_holds h"
  "wh_root (shutdown h) = wh_root h" "wh_holds (shutdown h) = wh_holds h"
  by (simp_all add: onExit_def shutdown_def worker_ops_defs)

text \<open>The generations below which a connection may have been written to only grow.\<close>

definition sendLimit :: "workerHandle \<Rightarrow> nat" where
  "sendLimit h = (if wh_readyDone h then Suc (wh_gen h) else wh_gen h)"

lemma pc_inv_mono: "pc_inv pc docs h \<Longrightarrow> sendLimit h \<le> sendLimit h' \<Longrightarrow> pc_inv pc docs h'"
  unfolding pc_inv_def sendLimit_def by (cases pc) (auto split: if_splits)

lemma start_limit: "sendLimit h \<le> sendLimit (snd (ensureStartedLocked ttl ok pRoot h))"
  by (simp add: sendLimit_def ensureStartedLocked_def worker_ops_defs)

lemma init_limit: "sendLimit h \<le> sendLimit (initWorker g ok snap doc h)"
  by (simp add: sendLimit_def initWorker_def replayLiveLocked_def worker_ops_defs)

lemma gone_limit:
  "sendLimit h \<le> sendLimit (onExit g h)" "sendLimit h \<le> sendLimit (shutdown h)"
  by (simp_all add: sendLimit_def onExit_def shutdown_def worker_ops_defs)

lemma docs_inv_start:
  assumes "docs_inv en root docs h pc"
  shows "docs_inv en root docs (snd (ensureStartedLocked ttl ok pRoot h)) pc"
proof (cases "wh_client h = None \<and> \<not> (wh_root h = '''' \<and> pRoot = '''') \<and> ok")
  case True
  then have "wh_pendingObs (snd (ensureStartedLocked ttl ok pRoot h)) = []"
    "\<not> wh_readyDone (snd (ensureStartedLocked ttl ok pRoot h))"
    by (auto simp: ensureStartedLocked_def worker_ops_defs)
  then show ?thesis by (simp add: docs_inv_def survives_def)
next
  case False
  then have "snd (ensureStartedLocked ttl ok pRoot h) = h" by (auto simp: ensureStartedLocked_def)
  then show ?thesis using assms by simp
qed

lemma docs_inv_gone:
  assumes "docs_inv en root docs h pc"
  shows "docs_inv en root docs (onExit g h) pc" and "docs_inv en root docs (shutdown h) pc"
proof -
  show "docs_inv en root docs (onExit g h) pc"
  proof (cases "wh_gen h = g")
    case True
    then show ?thesis by (intro docs_inv_down) (simp add: onExit_def worker_ops_defs)
  qed (simp add: onExit_def assms)
  show "docs_inv en root docs (shutdown h) pc"
  proof (cases "wh_client h")
    case (Some c)
    then show ?thesis by (intro docs_inv_down) (simp add: shutdown_def worker_ops_defs)
  qed (simp add: shutdown_def assms)
qed

text \<open>\<open>acquire\<close> is a start followed by changes of the reservation alone.\<close>

lemma acquire_fields:
  assumes "acquire ttl ok pRoot h = (r, h')"
  defines "h1 \<equiv> snd (ensureStartedLocked ttl ok pRoot h)"
  shows "wh_client h' = wh_client h1" "wh_readyDone h' = wh_readyDone h1"
    "wh_initErr h' = wh_initErr h1" "wh_gen h' = wh_gen h1" "wh_closed h' = wh_closed h1"
    "wh_sent h' = wh_sent h1" "wh_pendingObs h' = wh_pendingObs h1" "wh_root h' = wh_root h"
    "wh_holds h' = wh_holds h + (if r = None then 0 else 1)"
  using assms(1) start_frame [of ttl ok pRoot h] unfolding h1_def
  by (cases "ensureStartedLocked ttl ok pRoot h"; cases "fst (ensureStartedLocked ttl ok pRoot h)";
      auto simp: acquire_def stopEvictLocked_def)+

lemma warn_fields:
  "wh_client (snd (shouldWarnLoading h)) = wh_client h"
  "wh_readyDone (snd (shouldWarnLoading h)) = wh_readyDone h"
  "wh_gen (snd (shouldWarnLoading h)) = wh_gen h" "wh_sent (snd (shouldWarnLoading h)) = wh_sent h"
  "wh_pendingObs (snd (shouldWarnLoading h)) = wh_pendingObs h"
  "wh_root (snd (shouldWarnLoading h)) = wh_root h"
  "wh_holds (snd (shouldWarnLoading h)) = wh_holds h"
  by (simp_all add: shouldWarnLoading_def)

lemma release_fields:
  "wh_client (release ttl h) = wh_client h" "wh_readyDone (release ttl h) = wh_readyDone h"
  "wh_gen (release ttl h) = wh_gen h" "wh_sent (release ttl h) = wh_sent h"
  "wh_pendingObs (release ttl h) = wh_pendingObs h" "wh_root (release ttl h) = wh_root h"
  "wh_holds (release ttl h) = wh_holds h - 1"
  by (simp_all add: worker_ops_defs)

lemma pc_inv_same:
  "pc_inv pc docs h \<Longrightarrow> wh_readyDone h' = wh_readyDone h \<Longrightarrow> wh_gen h' = wh_gen h \<Longrightarrow> pc_inv pc docs h'"
  unfolding pc_inv_def by (cases pc) (simp_all split: if_splits)

lemma inv_track:
  assumes "worker_inv en root (docs, h, PumpIdle, ev, k)"
  shows "worker_inv en root (trackNote (we_hostOk en) (we_readInt en) n docs, h,
    if delivered en n then PumpTracked n else PumpIdle, ev, k)"
proof -
  let ?docs = "trackNote (we_hostOk en) (we_readInt en) n docs"
  let ?pc = "if delivered en n then PumpTracked n else PumpIdle"
  have ok: "docs_ok docs" and inv: "docs_inv en root docs h PumpIdle"
    using assms by (simp_all add: worker_inv_def)
  have "isClose n \<Longrightarrow> gget ?docs (noteURI n) = None"
    using dt.drop_closed [of n "we_hostOk en" "we_readInt en" docs]
      dt.good_uri [OF dt.good_track [OF ok], of "we_hostOk en" "we_readInt en" n "noteURI n"]
    by (cases "noteURI n = ''''"; cases "gget ?docs (noteURI n)") auto
  then have "pc_inv ?pc ?docs h" by (simp add: pc_inv_def)
  moreover have "docs_inv en root ?docs h ?pc"
    unfolding docs_inv_def
  proof (intro allI impI)
    fix u
    assume u: "we_mine en u" "inSnap en root u" "wh_client h \<noteq> None"
    have step: "?pc = PumpTracked n \<or> ?pc = PumpIdle \<and> u \<noteq> noteURI n"
      using u(1) by (auto simp: delivered_def)
    show "if wh_readyDone h then inSync ?pc ?docs (wh_gen h) (viewOf (wh_gen h) h) u
      else survives ?pc ?docs (wh_pendingObs h) u"
      using inv u inSync_track [OF ok _ step] survives_track [OF ok _ step]
      unfolding docs_inv_def by (cases "wh_readyDone h") simp_all
  qed
  ultimately show ?thesis using assms dt.good_track [OF ok] by (simp add: worker_inv_def)
qed

lemma inv_acquire:
  assumes "worker_inv en root (docs, h, pc, ev, k)" and "acquire (we_ttl en) ok (we_pRoot en) h = (r, h')"
  shows "worker_inv en root (docs, h', pc, ev, if r = None then k else Suc k)"
proof -
  let ?h1 = "snd (ensureStartedLocked (we_ttl en) ok (we_pRoot en) h)"
  note f = acquire_fields [OF assms(2)]
  have "docs_inv en root docs h' pc"
    by (rule docs_inv_cong [OF docs_inv_start]) (use assms(1) f in \<open>simp_all add: worker_inv_def\<close>)
  moreover have "pc_inv pc docs h'"
    by (rule pc_inv_same [OF pc_inv_mono [OF _ start_limit]])
      (use assms(1) f in \<open>simp_all add: worker_inv_def\<close>)
  moreover have "handle_ok h'"
    using assms(1) handle_ok_start [of h "we_ttl en" ok "we_pRoot en"] f by (simp add: worker_inv_def)
  ultimately show ?thesis using assms(1) f by (simp add: worker_inv_def)
qed

lemma inv_mirror:
  assumes "worker_inv en root (docs, h, PumpMirror g n, ev, k)"
  shows "worker_inv en root (docs, mirror g (gget docs) n h, PumpIdle, ev, k)"
proof -
  have "handle_ok (mirror g (gget docs) n h)"
    using assms gens_inv_sent [of "wh_client h" "wh_readyDone h" "wh_initErr h" "wh_gen h"
        "wh_closed h" "wh_sent h" g]
    by (simp add: worker_inv_def mirror_def pc_inv_def)
  then show ?thesis
    using assms docs_inv_mirror [of g n docs h en root]
    by (simp add: worker_inv_def) (simp add: mirror_def pc_inv_def)
qed

lemma inv_observe:
  assumes "worker_inv en root (docs, h, PumpTracked n, ev, k)" and "observe n h = (c, h')"
  shows "worker_inv en root
    (docs, h', case c of None \<Rightarrow> PumpIdle | Some g \<Rightarrow> PumpMirror g n, ev, k)"
proof -
  have h: "handle_ok h" and "docs_inv en root docs h (PumpTracked n)"
    and "pc_inv (PumpTracked n) docs h"
    using assms(1) by (simp_all add: worker_inv_def)
  then have "docs_inv en root docs h' (case c of None \<Rightarrow> PumpIdle | Some g \<Rightarrow> PumpMirror g n)"
    using docs_inv_observe [OF h _ _ assms(2)] by blast
  moreover have "c = Some g \<Longrightarrow> wh_readyDone h \<and> wh_client h = Some g \<and> h' = h" for g
    using assms(2) by (auto simp: observe_def split: option.splits if_splits)
  then have "pc_inv (case c of None \<Rightarrow> PumpIdle | Some g \<Rightarrow> PumpMirror g n) docs h'"
    using gens_inv_client [of _ "wh_readyDone h" "wh_initErr h" "wh_gen h" "wh_closed h" "wh_sent h"] h
    by (cases c) (auto simp: pc_inv_def)
  moreover have "wh_root h' = wh_root h" "wh_holds h' = wh_holds h"
    using assms(2) by (auto simp: observe_def split: option.splits if_splits)
  moreover have "handle_ok h'" using handle_ok_frame(3) [OF h, of n] assms(2) by simp
  ultimately show ?thesis using assms(1) by (simp add: worker_inv_def)
qed

text \<open>The steps that change the handle alone.\<close>

lemma inv_handle:
  assumes "worker_inv en root (docs, h, pc, ev, k)" and "handle_ok h'" and "wh_root h' = wh_root h"
    and "wh_holds h' = int k'" and "sendLimit h \<le> sendLimit h'" and "docs_inv en root docs h' pc"
  shows "worker_inv en root (docs, h', pc, ev', k')"
  using assms(1-4,6) pc_inv_mono [OF _ assms(5)] by (simp add: worker_inv_def)

lemma inv_step:
  assumes "worker_inv en root s" and "wstep en s s'"
  shows "worker_inv en root s'"
  using assms(2,1)
proof (cases rule: wstep.cases)
  case (w_start docs h pc ev k ok)
  have i: "worker_inv en root (docs, h, pc, ev, k)" using assms(1) w_start by simp
  show ?thesis
    unfolding w_start using i handle_ok_start start_frame start_limit docs_inv_start
    by (intro inv_handle [OF i]) (simp_all add: worker_inv_def)
next
  case (w_release docs h pc ev k)
  have i: "worker_inv en root (docs, h, pc, ev, Suc k)" using assms(1) w_release by simp
  have d: "docs_inv en root docs (release (we_ttl en) h) pc"
    by (rule docs_inv_cong [of _ _ _ h]) (use i in \<open>simp_all add: release_fields worker_inv_def\<close>)
  show ?thesis
    unfolding w_release using i d handle_ok_frame(1)
    by (intro inv_handle [OF i]) (simp_all add: worker_inv_def release_fields sendLimit_def)
next
  case (w_init g docs h pc ev k ok)
  have i: "worker_inv en root (docs, h, pc, ev, k)" using assms(1) w_init by simp
  show ?thesis
    unfolding w_init using i handle_ok_init init_frame init_limit docs_inv_init w_init(3)
    by (intro inv_handle [OF i]) (simp_all add: worker_inv_def)
next
  case (w_exit g docs h pc ev k)
  have i: "worker_inv en root (docs, h, pc, ev, k)" using assms(1) w_exit by simp
  show ?thesis
    unfolding w_exit using i handle_ok_exit gone_frame gone_limit docs_inv_gone w_exit(3)
    by (intro inv_handle [OF i]) (simp_all add: worker_inv_def)
next
  case (w_shutdown docs h pc ev k)
  have i: "worker_inv en root (docs, h, pc, ev, k)" using assms(1) w_shutdown by simp
  show ?thesis
    unfolding w_shutdown using i handle_ok_shutdown gone_frame gone_limit docs_inv_gone
    by (intro inv_handle [OF i]) (simp_all add: worker_inv_def)
next
  case (w_evict docs h pc k)
  have i: "worker_inv en root (docs, h, pc, True, k)" using assms(1) w_evict by simp
  show ?thesis
    unfolding w_evict using i handle_ok_shutdown gone_frame gone_limit docs_inv_gone
    by (intro inv_handle [OF i]) (simp_all add: worker_inv_def)
next
  case (w_warn docs h pc ev k)
  have i: "worker_inv en root (docs, h, pc, ev, k)" using assms(1) w_warn by simp
  have d: "docs_inv en root docs (snd (shouldWarnLoading h)) pc"
    by (rule docs_inv_cong [of _ _ _ h]) (use i in \<open>simp_all add: warn_fields worker_inv_def\<close>)
  show ?thesis
    unfolding w_warn using i d handle_ok_frame(2)
    by (intro inv_handle [OF i]) (simp_all add: worker_inv_def warn_fields sendLimit_def)
next
  case (w_check g h docs pc ev k)
  then show ?thesis using assms(1) by (simp add: worker_inv_def)
next
  case (w_track docs h ev k n)
  have i: "worker_inv en root (docs, h, PumpIdle, ev, k)" using assms(1) w_track(1) by (simp only:)
  show ?thesis unfolding w_track(2) by (rule inv_track [OF i])
next
  case (w_observe n h c h' docs ev k)
  have i: "worker_inv en root (docs, h, PumpTracked n, ev, k)" using assms(1) w_observe(1) by (simp only:)
  show ?thesis unfolding w_observe(2) by (rule inv_observe [OF i w_observe(3)])
next
  case (w_mirror docs h g n ev k)
  have i: "worker_inv en root (docs, h, PumpMirror g n, ev, k)" using assms(1) w_mirror(1) by (simp only:)
  show ?thesis unfolding w_mirror(2) by (rule inv_mirror [OF i])
next
  case (w_acquire ok h r h' docs pc ev k)
  have i: "worker_inv en root (docs, h, pc, ev, k)" using assms(1) w_acquire(1) by (simp only:)
  show ?thesis unfolding w_acquire(2) by (rule inv_acquire [OF i w_acquire(3)])
qed

lemma inv_reachable: "workerReachable en root s \<Longrightarrow> worker_inv en root s"
proof (induction rule: workerReachable.induct)
  case wr_new
  then show ?case
    using handle_ok_new [of root]
    by (simp add: worker_inv_def docs_inv_def pc_inv_def) (simp add: newHandle_def)
qed (rule inv_step)

text \<open>What the invariant says of a live worker at rest.\<close>

lemma live_view:
  assumes "workerReachable en root (docs, h, PumpIdle, ev, k)"
    and "wh_client h = Some g" and "wh_readyDone h"
    and "we_mine en u" and "inSnap en root u"
  shows "viewOf g h u = editorHas (gget docs u)"
proof -
  note inv = inv_reachable [OF assms(1)]
  then have "g = wh_gen h" using assms(2) gens_inv_client by (fastforce simp: worker_inv_def)
  then show ?thesis using inv assms(2-5) by (simp add: worker_inv_def docs_inv_def inSync_def)
qed

section \<open>An example run\<close>

text \<open>
  The main worker of \<open>/w\<close>, with the documents of the nested module \<open>/w/m\<close> routed elsewhere;
  \<open>note\<close> builds the notification of a method for a document.
\<close>

definition exampleWorkerEnv :: workerEnv where
  "exampleWorkerEnv =
     \<lparr>we_hostOk = (\<lambda>h. False), we_readInt = (\<lambda>s. Some 1),
      we_mine = (\<lambda>u. u = ''file:///w/a.go''), we_pRoot = ''/w'', we_ttl = 60\<rparr>"

definition exampleNote :: "string \<Rightarrow> string \<Rightarrow> bufferedNote" where
  "exampleNote method u =
     \<lparr>n_method = method, n_params = Some (JObj [(''textDocument'',
        JObj [(''uri'', JStr u), (''languageId'', JStr ''go''), (''text'', JStr ''x'')])])\<rparr>"

definition startedHandle :: workerHandle where
  "startedHandle = snd (ensureStartedLocked 60 True ''/w'' (newHandle ''''))"

definition openedDocs :: "string \<Rightarrow> openDocs" where
  "openedDocs u = trackNote (\<lambda>h. False) (\<lambda>s. Some 1) (exampleNote ''textDocument/didOpen'' u) []"

lemma openedDocs_simp:
  "u \<noteq> '''' \<Longrightarrow> openedDocs u = [(u, \<lparr>d_uri = u, d_languageId = ''go'', d_version = 0, d_text = ''x''\<rparr>)]"
  by (simp add: openedDocs_def exampleNote_def trackNote_def isOpen_def readOpen_def jobj_def
      objOf_def jstr_def jint_def trackDidOpen_def)

lemma started_fields:
  "wh_client startedHandle = Some 1" "wh_gen startedHandle = 1" "\<not> wh_readyDone startedHandle"
  "wh_pendingObs startedHandle = []" "wh_sent startedHandle = []" "wh_holds startedHandle = 0"
  "wh_root startedHandle = ''''" "wh_initErr startedHandle = False"
  by (simp_all add: startedHandle_def ensureStartedLocked_def newHandle_def worker_ops_defs)

lemma reach_started: "workerReachable exampleWorkerEnv '''' ([], startedHandle, PumpIdle, False, 0)"
  using wr_step [OF wr_new w_start [of exampleWorkerEnv _ _ _ _ _ True]]
  by (simp add: startedHandle_def exampleWorkerEnv_def)

lemma reach_tracked:
  "workerReachable exampleWorkerEnv '''' (openedDocs u, startedHandle,
     if delivered exampleWorkerEnv (exampleNote ''textDocument/didOpen'' u)
     then PumpTracked (exampleNote ''textDocument/didOpen'' u) else PumpIdle, False, 0)"
  using wr_step [OF reach_started w_track [of _ _ _ _ _ "exampleNote ''textDocument/didOpen'' u"]]
  by (simp add: openedDocs_def exampleWorkerEnv_def)

text \<open>The handle after the initialisation, with the documents \<open>docs\<close> and nothing buffered.\<close>

definition liveHandle :: "openDocs \<Rightarrow> workerHandle \<Rightarrow> workerHandle" where
  "liveHandle docs h = initWorker 1 True (snapDocs (\<lambda>h. False) ''/w'' '''' docs) (gget docs) h"

lemma snapDocs_main: "snapDocs hostOk pRoot '''' docs = map snd docs"
  by (simp add: snapDocs_def)

lemma reach_live:
  assumes "workerReachable exampleWorkerEnv '''' (docs, h, pc, ev, k)" and "wh_root h = ''''"
  shows "workerReachable exampleWorkerEnv '''' (docs, liveHandle docs h, pc, ev, k)"
  using wr_step [OF assms(1) w_init [of 1 _ docs h pc ev k True]] assms(2)
  by (simp add: liveHandle_def exampleWorkerEnv_def)

lemma live_fields:
  assumes "\<not> wh_readyDone h" and "wh_gen h = 1"
  shows "wh_client (liveHandle docs h) = wh_client h" "wh_gen (liveHandle docs h) = 1"
    "wh_readyDone (liveHandle docs h)" "wh_initErr (liveHandle docs h) = False"
    "wh_holds (liveHandle docs h) = wh_holds h" "wh_root (liveHandle docs h) = wh_root h"
    "wh_sent (liveHandle docs h) =
       wh_sent h @ map (Pair 1) (replayNotes (map snd docs) (gget docs) (wh_pendingObs h))"
  using assms by (simp_all add: liveHandle_def initWorker_def replayLiveLocked_def
      closeReadyLocked_def snapDocs_main)

text \<open>Any notification may be tracked before the worker is started and goes live.\<close>

lemma reach_opened:
  assumes "we_pRoot en \<noteq> ''''"
  shows "\<exists>h. workerReachable en root
      (trackNote (we_hostOk en) (we_readInt en) n [], h, PumpIdle, False, 0) \<and>
    wh_client h = Some 1 \<and> wh_readyDone h"
proof -
  let ?docs = "trackNote (we_hostOk en) (we_readInt en) n []" and ?h0 = "newHandle root"
  have "observe n ?h0 = (None, ?h0)" by (simp add: observe_def newHandle_def)
  note o = w_observe [OF this, of en ?docs False 0]
  note t = wr_step [OF wr_new w_track [of en _ _ _ _ n], of root]
  have "workerReachable en root (?docs, ?h0, PumpIdle, False, 0)"
    using t wr_step [OF t] o by (cases "delivered en n") simp_all
  note r = wr_step [OF wr_step [OF this w_start [of _ _ _ _ _ _ True]] w_init [of 1 _ _ _ _ _ _ True]]
  let ?h1 = "snd (ensureStartedLocked (we_ttl en) True (we_pRoot en) ?h0)"
  have "wh_gen ?h1 = 1" "\<not> wh_readyDone ?h1" "wh_client ?h1 = Some 1"
    using assms by (simp_all add: ensureStartedLocked_def newHandle_def worker_ops_defs)
  then have "wh_client (initWorker 1 True snap doc ?h1) = Some 1"
    "wh_readyDone (initWorker 1 True snap doc ?h1)" for snap doc
    by (simp_all add: initWorker_def replayLiveLocked_def closeReadyLocked_def)
  then show ?thesis using r by (intro exI conjI) auto
qed

lemma acquire_spawns:
  assumes "wh_client h = None" and "pRoot \<noteq> ''''"
  shows "fst (acquire ttl True pRoot h) = Some (Suc (wh_gen h))"
    "wh_client (snd (acquire ttl True pRoot h)) = Some (Suc (wh_gen h))"
    "wh_holds (snd (acquire ttl True pRoot h)) = wh_holds h + 1"
  using assms by (simp_all add: acquire_def ensureStartedLocked_def worker_ops_defs)

section \<open>Properties\<close>

text \<open>the worker mirrors the editor. In every interleaving of the editor's notifications
  with starts, initialisation, exits, evictions and requests, once a worker is live and the
  notification pump is at rest, the worker has every document that is routed to it and belongs
  to its snapshot exactly as the editor has it: open with the same version and text, or not open.
  Documents opened, edited or closed during the load are not lost.\<close>

theorem worker_mirrors_editor:
  assumes "workerReachable en root (docs, h, PumpIdle, ev, k)"
    and "wh_client h = Some g" and "wh_readyDone h"
    and "we_mine en u" and "inSnap en root u"
  shows "viewOf g h u = editorHas (gget docs u)"
  by (rule live_view [OF assms])

theorem worker_mirrors_editor_witness:
  "(let docs = openedDocs ''file:///w/a.go'';
        h = liveHandle docs (snd (observe (exampleNote ''textDocument/didOpen'' ''file:///w/a.go'') startedHandle))
    in gget docs ''file:///w/a.go'' \<noteq> None \<and>
       viewOf 1 h ''file:///w/a.go'' = editorHas (gget docs ''file:///w/a.go''))"
proof -
  let ?n = "exampleNote ''textDocument/didOpen'' ''file:///w/a.go''"
  let ?h = "startedHandle\<lparr>wh_pendingObs := [?n]\<rparr>"
  have d: "delivered exampleWorkerEnv ?n"
    by (simp add: delivered_def exampleWorkerEnv_def exampleNote_def noteURI_def docURI_def jfield_def)
  have o: "observe ?n startedHandle = (None, ?h)" by (simp add: observe_def started_fields)
  have "workerReachable exampleWorkerEnv '''' (openedDocs ''file:///w/a.go'', ?h, PumpIdle, False, 0)"
    using wr_step [OF reach_tracked [of "''file:///w/a.go''", unfolded if_P [OF d]] w_observe [OF o]]
    by simp
  then have "workerReachable exampleWorkerEnv ''''
      (openedDocs ''file:///w/a.go'', liveHandle (openedDocs ''file:///w/a.go'') ?h, PumpIdle, False, 0)"
    by (rule reach_live) (simp add: started_fields)
  then have "viewOf 1 (liveHandle (openedDocs ''file:///w/a.go'') ?h) ''file:///w/a.go'' =
      editorHas (gget (openedDocs ''file:///w/a.go'') ''file:///w/a.go'')"
    by (rule worker_mirrors_editor)
      (simp_all add: live_fields started_fields exampleWorkerEnv_def inSnap_def)
  then show ?thesis by (simp add: o openedDocs_simp)
qed

text \<open>C24: generations and reservations. In every interleaving the ready channel of every
  earlier generation is closed, that of the current one exactly when its load has ended, and none
  is closed twice, so no request waits for a channel that nobody closes; a generation that is
  loading has its process, a live one has no error, and the reservation count is the number of
  requests that hold the worker.\<close>

theorem worker_generations:
  assumes "workerReachable en root (docs, h, pc, ev, k)"
  shows "distinct (wh_closed h) \<and>
    (\<forall>g. g \<in> set (wh_closed h) \<longleftrightarrow> 0 < g \<and> (g < wh_gen h \<or> g = wh_gen h \<and> wh_readyDone h)) \<and>
    (0 < wh_gen h \<and> \<not> wh_readyDone h \<longrightarrow> wh_client h = Some (wh_gen h)) \<and>
    (wh_client h \<noteq> None \<and> wh_readyDone h \<longrightarrow> \<not> wh_initErr h) \<and>
    wh_holds h = int k"
proof -
  have i: "handle_ok h" "wh_holds h = int k"
    using inv_reachable [OF assms] by (simp_all add: worker_inv_def)
  then have "closedBelow (sendLimit h) (wh_closed h)" by (simp add: gens_inv_def sendLimit_def)
  then have "distinct (wh_closed h)" and mem: "g \<in> set (wh_closed h) \<longleftrightarrow> 0 < g \<and> g < sendLimit h" for g
    unfolding closedBelow_def by blast+
  moreover have "g < sendLimit h \<longleftrightarrow> g < wh_gen h \<or> g = wh_gen h \<and> wh_readyDone h" for g
    by (simp add: sendLimit_def less_Suc_eq)
  ultimately show ?thesis using i by (simp add: gens_inv_def)
qed

theorem worker_generations_witness:
  "distinct (wh_closed (shutdown startedHandle)) \<and>
   (\<forall>g. g \<in> set (wh_closed (shutdown startedHandle)) \<longleftrightarrow>
      0 < g \<and> (g < wh_gen (shutdown startedHandle) \<or>
        g = wh_gen (shutdown startedHandle) \<and> wh_readyDone (shutdown startedHandle))) \<and>
   wh_holds (shutdown startedHandle) = int 0"
  using worker_generations [OF wr_step [OF reach_started w_shutdown]] by blast

text \<open>the eviction of an idle worker can hit one in use. The idle check and the shutdown are
  two critical sections: after the check has passed for a generation, the process may exit
  and a request may start and hold the next one, and it is this next one that is shut down.\<close>

theorem eviction_hits_held_worker:
  "\<exists>docs h. evictIdleCheck 1 (liveHandle [] startedHandle) \<and>
     workerReachable exampleWorkerEnv '''' (docs, h, PumpIdle, True, 1) \<and>
     wh_client h = Some 2 \<and> wh_holds h = 1 \<and>
     wstep exampleWorkerEnv (docs, h, PumpIdle, True, 1) (docs, shutdown h, PumpIdle, False, 1) \<and>
     wh_client (shutdown h) = None"
proof -
  let ?h1 = "liveHandle [] startedHandle"
  let ?h2 = "onExit 1 ?h1"
  have idle: "evictIdleCheck 1 ?h1"
    by (simp add: evictIdleCheck_def live_fields started_fields)
  have "workerReachable exampleWorkerEnv '''' ([], ?h1, PumpIdle, False, 0)"
    by (rule reach_live [OF reach_started]) (simp add: started_fields)
  then have "workerReachable exampleWorkerEnv '''' ([], ?h1, PumpIdle, True, 0)"
    by (rule wr_step [OF _ w_check [OF _ idle]]) simp
  then have r: "workerReachable exampleWorkerEnv '''' ([], ?h2, PumpIdle, True, 0)"
    by (rule wr_step [OF _ w_exit]) simp
  have f: "wh_client ?h2 = None" "wh_gen ?h2 = 1" "wh_holds ?h2 = 0"
    by (simp_all add: onExit_def worker_ops_defs live_fields started_fields)
  define h where "h = snd (acquire 60 True ''/w'' ?h2)"
  have h: "wh_client h = Some 2" "wh_holds h = 1"
    using acquire_spawns(2,3) [OF f(1), of "''/w''" 60] f by (simp_all add: h_def)
  have "acquire (we_ttl exampleWorkerEnv) True (we_pRoot exampleWorkerEnv) ?h2 = (Some 2, h)"
    using acquire_spawns(1) [OF f(1), of "''/w''" 60] f(2)
    by (simp add: h_def exampleWorkerEnv_def prod_eq_iff)
  from wr_step [OF r w_acquire [OF this]]
  have "workerReachable exampleWorkerEnv '''' ([], h, PumpIdle, True, 1)" by simp
  moreover have "wh_client (shutdown h) = None" by (simp add: shutdown_def worker_ops_defs)
  ultimately show ?thesis using idle h w_evict [of exampleWorkerEnv "[]" h PumpIdle 1] by blast
qed

text \<open>the main worker keeps closed documents of nested modules. Its snapshot holds every
  open document, but the notifications for a document of a nested module go to that module's
  worker alone: after the document is closed the main worker still has it open.\<close>

theorem nested_document_goes_stale:
  "\<exists>docs h. workerReachable exampleWorkerEnv '''' (docs, h, PumpIdle, False, 0) \<and>
     wh_client h = Some 1 \<and> wh_readyDone h \<and>
     gget docs ''file:///w/m/b.go'' = None \<and> viewOf 1 h ''file:///w/m/b.go'' = Some (0, ''x'')"
proof -
  let ?u = "''file:///w/m/b.go''"
  let ?h = "liveHandle (openedDocs ?u) startedHandle"
  let ?c = "exampleNote ''textDocument/didClose'' ?u"
  have uri: "noteURI (exampleNote m ?u) = ?u" for m
    by (simp add: exampleNote_def noteURI_def docURI_def jfield_def)
  have foreign: "\<not> delivered exampleWorkerEnv (exampleNote m ?u)" for m
    unfolding delivered_def uri by (simp add: exampleWorkerEnv_def)
  have "workerReachable exampleWorkerEnv '''' (openedDocs ?u, startedHandle, PumpIdle, False, 0)"
    using reach_tracked [of ?u] by (simp only: if_not_P [OF foreign])
  then have "workerReachable exampleWorkerEnv '''' (openedDocs ?u, ?h, PumpIdle, False, 0)"
    by (rule reach_live) (simp add: started_fields)
  then have "workerReachable exampleWorkerEnv ''''
      (trackNote (we_hostOk exampleWorkerEnv) (we_readInt exampleWorkerEnv) ?c (openedDocs ?u),
       ?h, if delivered exampleWorkerEnv ?c then PumpTracked ?c else PumpIdle, False, 0)"
    by (rule wr_step [OF _ w_track])
  moreover have "trackNote hostOk readInt ?c (openedDocs ?u) = []" for hostOk readInt
    unfolding trackNote_def uri
    by (simp add: exampleNote_def isOpen_def isChange_def isClose_def trackDidClose_def openedDocs_simp)
  ultimately have "workerReachable exampleWorkerEnv '''' ([], ?h, PumpIdle, False, 0)"
    by (simp only: if_not_P [OF foreign])
  moreover have "viewOf 1 ?h ?u = Some (0, ''x'')"
    by (simp add: viewOf_def live_fields started_fields replayNotes_def openedDocs_simp)
  ultimately show ?thesis
    using started_fields live_fields(1,3) [of startedHandle "openedDocs ?u"] by fastforce
qed

text \<open>a reload is not announced. The flag that limits the loading message to one per
  generation is taken before the request starts the process and reset by the start: two requests
  during one load both announce it, and after an eviction the request that loads everything
  again announces nothing.\<close>

theorem reload_not_announced:
  assumes "pRoot \<noteq> ''''"
  shows "(let (first, h1) = shouldWarnLoading (newHandle root);
              h2 = snd (ensureStartedLocked ttl True pRoot h1);
              (second, h3) = shouldWarnLoading h2;
              h4 = shutdown (initWorker 1 True snap doc h3);
              (third, h5) = shouldWarnLoading h4
          in first \<and> second \<and> \<not> third \<and> wh_client h5 = None)"
  using assms
  by (simp add: shouldWarnLoading_def newHandle_def ensureStartedLocked_def armEvictLocked_def
      stopEvictLocked_def shutdown_def initWorker_def replayLiveLocked_def closeReadyLocked_def Let_def)

theorem reload_not_announced_witness:
  "(let (first, h1) = shouldWarnLoading (newHandle '''');
        h2 = snd (ensureStartedLocked 60 True ''/w'' h1);
        (second, h3) = shouldWarnLoading h2;
        h4 = shutdown (initWorker 1 True [] (\<lambda>u. None) h3);
        (third, h5) = shouldWarnLoading h4
    in first \<and> second \<and> \<not> third \<and> wh_client h5 = None)"
  by (rule reload_not_announced) simp

end
