(* ===== verification/WorkerPool.thy ===== *)
theory WorkerPool
  imports Worker
begin

text \<open>
  The workers of a session: which handle is responsible for a module and which notifications
  reach which worker (\<open>proxy.go\<close>), what a worker is initialised with and what it is answered
  when it asks for its settings (\<open>worker.go\<close>).
\<close>

section \<open>The handles\<close>

record workerPool =
  wp_main :: workerHandle
  wp_subs :: "(string, workerHandle) gomap"

definition workerFor :: "string \<Rightarrow> workerPool \<Rightarrow> workerHandle \<times> workerPool" where
  "workerFor modRoot pool =
     (if modRoot = '''' then (wp_main pool, pool)
      else (case gget (wp_subs pool) modRoot of
              Some h \<Rightarrow> (h, pool)
            | None \<Rightarrow> (newHandle modRoot,
                pool\<lparr>wp_subs := gput modRoot (newHandle modRoot) (wp_subs pool)\<rparr>)))"

text \<open>A handle is an object the map refers to, so its update is stored back.\<close>

definition storeHandle :: "string \<Rightarrow> workerHandle \<Rightarrow> workerPool \<Rightarrow> workerPool" where
  "storeHandle modRoot h pool =
     (if modRoot = '''' then pool\<lparr>wp_main := h\<rparr>
      else pool\<lparr>wp_subs := gput modRoot h (wp_subs pool)\<rparr>)"

section \<open>Routing of notifications\<close>

text \<open>\<open>observe\<close> with the mirroring it ends in.\<close>

definition observeNote ::
  "(string \<Rightarrow> openDoc option) \<Rightarrow> bufferedNote \<Rightarrow> workerHandle \<Rightarrow> workerHandle" where
  "observeNote doc n h =
     (case observe n h of (None, h1) \<Rightarrow> h1 | (Some c, h1) \<Rightarrow> mirror c doc n h1)"

definition broadcastObserve ::
  "(string \<Rightarrow> openDoc option) \<Rightarrow> bufferedNote \<Rightarrow> workerPool \<Rightarrow> workerPool" where
  "broadcastObserve doc n pool =
     pool\<lparr>wp_main := observeNote doc n (wp_main pool),
          wp_subs := map (\<lambda>(r, h). (r, observeNote doc n h)) (wp_subs pool)\<rparr>"

text \<open>The module whose worker sees a notification for a document.\<close>

definition ownerOf ::
  "(string \<Rightarrow> bool) \<Rightarrow> (string \<Rightarrow> string \<Rightarrow> string) option \<Rightarrow> string \<Rightarrow> string \<Rightarrow> string" where
  "ownerOf hostOk modRoots pRoot uri =
     (let path = uriToPath hostOk uri
      in if path \<noteq> '''' \<and> pRoot \<noteq> '''' then
           (case modRoots of None \<Rightarrow> '''' | Some rootFor \<Rightarrow> rootFor (filepathDir path) pRoot)
         else '''')"

definition observeWorker ::
  "(string \<Rightarrow> bool) \<Rightarrow> (string \<Rightarrow> string \<Rightarrow> string) option \<Rightarrow> string
   \<Rightarrow> (string \<Rightarrow> openDoc option) \<Rightarrow> bufferedNote \<Rightarrow> workerPool \<Rightarrow> workerPool" where
  "observeWorker hostOk modRoots pRoot doc n pool =
     (if noteURI n = '''' then broadcastObserve doc n pool
      else
        let modRoot = ownerOf hostOk modRoots pRoot (noteURI n);
            (h, pool1) = workerFor modRoot pool
        in storeHandle modRoot (observeNote doc n h) pool1)"

section \<open>Initialising a worker\<close>

definition defaultInitializeParams :: "string \<Rightarrow> string \<Rightarrow> json" where
  "defaultInitializeParams pid root =
     (let uri = pathToURI root
      in JObj
          [(''processId'', JNum pid), (''rootUri'', JStr uri),
           (''capabilities'', JObj [(''workspace'', JObj [(''configuration'', JBool True)])]),
           (''workspaceFolders'', JArr [JObj [(''uri'', JStr uri), (''name'', JStr (filepathBase root))]])])"

definition initializeParams :: "string \<Rightarrow> workerState \<Rightarrow> json" where
  "initializeParams pid st =
     (case st_initParams st of None \<Rightarrow> defaultInitializeParams pid (st_root st) | Some p \<Rightarrow> p)"

section \<open>Answering a worker\<close>

text \<open>The number of items asked for, \<open>None\<close> when the parameters do not unmarshal.\<close>

definition itemCount :: "json option \<Rightarrow> nat option" where
  "itemCount params =
     (case params of
        None \<Rightarrow> None
      | Some _ \<Rightarrow>
          (case objOf params of
             None \<Rightarrow> None
           | Some ms \<Rightarrow>
               (case gget ms ''items'' of
                  None \<Rightarrow> Some 0
                | Some JNull \<Rightarrow> Some 0
                | Some (JArr js) \<Rightarrow>
                    if list_all (\<lambda>j. case objOf (Some j) of None \<Rightarrow> False
                         | Some it \<Rightarrow> jstr (gget it ''section'') \<noteq> None) js
                    then Some (length js) else None
                | _ \<Rightarrow> None)))"

definition configurationResult :: "json list \<Rightarrow> json option \<Rightarrow> json" where
  "configurationResult config params =
     (let count = (case itemCount params of
            Some n \<Rightarrow> if 0 < n then n else length config | None \<Rightarrow> length config)
      in JArr (map (\<lambda>i. if i < length config then config ! i else JObj []) [0..<count]))"

definition respondToServerRequest :: "json list \<Rightarrow> message \<Rightarrow> message" where
  "respondToServerRequest config m =
     \<lparr>m_id = m_id m, m_method = '''', m_params = None,
      m_result = Some (if m_method m = ''workspace/configuration''
        then configurationResult config (m_params m) else JNull),
      m_error = None\<rparr>"

section \<open>Lemmas\<close>

lemma workerFor_again:
  "workerFor modRoot pool = (h, pool1) \<Longrightarrow> workerFor modRoot pool1 = (h, pool1)"
  by (auto simp: workerFor_def split: if_splits option.splits)

lemma workerFor_others:
  "workerFor modRoot pool = (h, pool1) \<Longrightarrow>
     wp_main pool1 = wp_main pool \<and> (r \<noteq> modRoot \<longrightarrow> gget (wp_subs pool1) r = gget (wp_subs pool) r)"
  by (auto simp: workerFor_def split: if_splits option.splits)

lemma stripItem_unfiltered:
  "stripItem it = JObj settings \<Longrightarrow> filterValues settings = {}"
  using strip_build
  by (auto simp: stripItem_def filterValues_def stripUserFilters_gget split: json.splits)

lemma observeNote_idle: "wh_client h = None \<Longrightarrow> observeNote doc n h = h"
  by (simp add: observeNote_def observe_def)

lemma observeNote_new [simp]: "observeNote doc n (newHandle root) = newHandle root"
  by (rule observeNote_idle) (simp add: newHandle_def)

text \<open>The handle that \<open>workerFor\<close> gives after an operation of the pool.\<close>

definition handleOf :: "string \<Rightarrow> workerPool \<Rightarrow> workerHandle" where
  "handleOf modRoot pool = fst (workerFor modRoot pool)"

lemma handleOf_store [simp]:
  "handleOf m (storeHandle r h pool) = (if m = r then h else handleOf m pool)"
  by (auto simp: handleOf_def workerFor_def storeHandle_def split: option.split)

lemma handleOf_created [simp]: "handleOf m (snd (workerFor r pool)) = handleOf m pool"
  by (auto simp: handleOf_def workerFor_def split: option.split)

lemma handleOf_broadcast [simp]:
  "handleOf m (broadcastObserve doc n pool) = observeNote doc n (handleOf m pool)"
  by (auto simp: handleOf_def workerFor_def broadcastObserve_def gget_map_values split: option.split)

lemma handleOf_observe:
  "handleOf m (observeWorker hostOk modRoots pRoot doc n pool) =
     (if noteURI n = '''' \<or> ownerOf hostOk modRoots pRoot (noteURI n) = m
      then observeNote doc n (handleOf m pool) else handleOf m pool)"
proof -
  obtain h pool1 where w: "workerFor r pool = (h, pool1)" if "r = ownerOf hostOk modRoots pRoot (noteURI n)" for r
    by (meson surj_pair)
  then have "h = handleOf r pool \<and> handleOf m pool1 = handleOf m pool"
    if "r = ownerOf hostOk modRoots pRoot (noteURI n)" for r
    using that handleOf_created [of m r pool] by (simp add: handleOf_def)
  then show ?thesis using w by (auto simp: observeWorker_def Let_def)
qed

section \<open>A handle between two messages of the editor\<close>

text \<open>
  One operation of a request, of the process, of its initialisation or of the eviction timer, for
  the documents at that moment. A release follows an \<open>acquire\<close>; the second half of \<open>evictIfIdle\<close> is a
  shutdown.
\<close>

inductive handleStep :: "workerEnv \<Rightarrow> openDocs \<Rightarrow> workerHandle \<Rightarrow> workerHandle \<Rightarrow> bool" for en docs where
  ho_start: "handleStep en docs h (snd (ensureStartedLocked (we_ttl en) ok (we_pRoot en) h))"
| ho_acquire: "handleStep en docs h (snd (acquire (we_ttl en) ok (we_pRoot en) h))"
| ho_release: "0 < wh_holds h \<Longrightarrow> handleStep en docs h (release (we_ttl en) h)"
| ho_init: "0 < g \<Longrightarrow> handleStep en docs h
    (initWorker g ok (snapDocs (we_hostOk en) (we_pRoot en) (wh_root h) docs) (gget docs) h)"
| ho_exit: "0 < g \<Longrightarrow> handleStep en docs h (onExit g h)"
| ho_shutdown: "handleStep en docs h (shutdown h)"
| ho_warn: "handleStep en docs h (snd (shouldWarnLoading h))"

text \<open>Both kinds of steps are runs of the interleaving of \<open>Worker\<close> that end with the pump at rest.\<close>

definition restReachable :: "workerEnv \<Rightarrow> string \<Rightarrow> openDocs \<Rightarrow> workerHandle \<Rightarrow> bool" where
  "restReachable en root docs h \<longleftrightarrow> (\<exists>k. workerReachable en root (docs, h, PumpIdle, False, k))"

lemma rest_new: "restReachable en root [] (newHandle root)"
  using wr_new by (auto simp: restReachable_def)

lemma rest_handle:
  assumes "restReachable en root docs h" and "handleStep en docs h h'"
  shows "restReachable en root docs h'"
proof -
  obtain k where r: "workerReachable en root (docs, h, PumpIdle, False, k)"
    using assms(1) by (auto simp: restReachable_def)
  then have holds: "wh_holds h = int k" using inv_reachable [OF r] by (simp add: worker_inv_def)
  have "\<exists>k'. wstep en (docs, h, PumpIdle, False, k) (docs, h', PumpIdle, False, k')"
    using assms(2)
  proof (cases rule: handleStep.cases)
    case (ho_acquire ok)
    then have "acquire (we_ttl en) ok (we_pRoot en) h = (fst (acquire (we_ttl en) ok (we_pRoot en) h), h')"
      by simp
    then show ?thesis using w_acquire by blast
  next
    case ho_release
    then obtain k' where "k = Suc k'" using holds by (cases k) auto
    then show ?thesis using ho_release w_release by blast
  qed (simp, intro exI, rule wstep.intros, (assumption)?)+
  then show ?thesis using r wr_step unfolding restReachable_def by blast
qed

lemma rest_note:
  assumes "restReachable en root docs h"
    and "docs' = trackNote (we_hostOk en) (we_readInt en) n docs"
  shows "restReachable en root docs' (if delivered en n then observeNote (gget docs') n h else h)"
proof -
  obtain k where "workerReachable en root (docs, h, PumpIdle, False, k)"
    using assms(1) by (auto simp: restReachable_def)
  from wr_step [OF this w_track [of en docs h False k n]]
  have r: "workerReachable en root (docs', h, if delivered en n then PumpTracked n else PumpIdle, False, k)"
    by (simp add: assms(2))
  show ?thesis
  proof (cases "delivered en n")
    case True
    obtain c h1 where o: "observe n h = (c, h1)" by (meson surj_pair)
    have r1: "workerReachable en root
        (docs', h1, case c of None \<Rightarrow> PumpIdle | Some g \<Rightarrow> PumpMirror g n, False, k)"
      using wr_step [OF r [unfolded if_P [OF True]] w_observe [OF o]] .
    show ?thesis
    proof (cases c)
      case None
      then show ?thesis using r1 True o by (auto simp: restReachable_def observeNote_def)
    next
      case (Some g)
      then have "workerReachable en root (docs', mirror g (gget docs') n h1, PumpIdle, False, k)"
        using wr_step [OF _ w_mirror] r1 by auto
      then show ?thesis using Some True o by (auto simp: restReachable_def observeNote_def)
    qed
  qed (use r in \<open>auto simp: restReachable_def\<close>)
qed

section \<open>Properties\<close>

text \<open>notifications reach the right workers. One for a document changes at most the handle
  of the module that owns it, which is created when it is missing and then has no process to
  write to; one without a document reaches the main worker and every worker that exists, and
  creates none.\<close>

theorem notification_routing:
  assumes "wf_map (wp_subs pool)"
    and "pool' = observeWorker hostOk modRoots pRoot doc n pool"
    and "owner = ownerOf hostOk modRoots pRoot (noteURI n)"
  shows "(noteURI n \<noteq> '''' \<and> owner = '''' \<longrightarrow>
      wp_main pool' = observeNote doc n (wp_main pool) \<and> wp_subs pool' = wp_subs pool) \<and>
    (noteURI n \<noteq> '''' \<and> owner \<noteq> '''' \<longrightarrow>
      wp_main pool' = wp_main pool \<and>
      gget (wp_subs pool') owner = Some (case gget (wp_subs pool) owner of
        None \<Rightarrow> newHandle owner | Some h \<Rightarrow> observeNote doc n h) \<and>
      (\<forall>r. r \<noteq> owner \<longrightarrow> gget (wp_subs pool') r = gget (wp_subs pool) r)) \<and>
    (noteURI n = '''' \<longrightarrow>
      wp_main pool' = observeNote doc n (wp_main pool) \<and>
      (\<forall>r. gget (wp_subs pool') r = map_option (observeNote doc n) (gget (wp_subs pool) r)))"
  using assms(2,3)
  by (cases "gget (wp_subs pool) owner")
    (auto simp: observeWorker_def workerFor_def storeHandle_def broadcastObserve_def Let_def
      gget_map_values)

theorem notification_routing_witness:
  "gget (wp_subs (observeWorker (\<lambda>h. False) None ''/w'' (\<lambda>u. None)
      \<lparr>n_method = ''workspace/didChangeConfiguration'', n_params = None\<rparr>
      \<lparr>wp_main = newHandle '''', wp_subs = [(''/w/m'', newHandle ''/w/m'')]\<rparr>)) ''/w/m'' =
    Some (observeNote (\<lambda>u. None) \<lparr>n_method = ''workspace/didChangeConfiguration'', n_params = None\<rparr>
      (newHandle ''/w/m''))"
  using notification_routing [OF _ refl refl,
      of "\<lparr>wp_main = newHandle '''', wp_subs = [(''/w/m'', newHandle ''/w/m'')]\<rparr>"
        "\<lparr>n_method = ''workspace/didChangeConfiguration'', n_params = None\<rparr>"
        "\<lambda>h. False" None "''/w''" "\<lambda>u. None"]
  by (simp add: wf_map_def noteURI_def docURI_def)

text \<open>a nested worker mirrors its module. A document below the root whose directory is
  resolved to a nested module is, once the worker of that module is live and the pump at rest,
  known to that worker exactly as the editor has it: what is routed to the worker is also in its
  snapshot.\<close>

theorem nested_worker_mirrors_module:
  assumes "okSegs root" and "okSegs d" and "okSeg f"
    and "uriToPath (we_hostOk en) u = absPath (root @ d @ [f])"
    and "we_mine en = (\<lambda>v. ownerOf (we_hostOk en) (Some (nestedModuleRoot stat)) (absPath root) v = m)"
    and "nestedModuleRoot stat (absPath (root @ d)) (absPath root) = m" and "m \<noteq> ''''"
    and "workerReachable en m (docs, h, PumpIdle, ev, k)" and "wh_client h = Some g" and "wh_readyDone h"
  shows "viewOf g h u = editorHas (gget docs u)"
proof -
  have dir: "filepathDir (absPath (root @ d @ [f])) = absPath (root @ d)"
    using dir_absPath_snoc [of "root @ d" f] assms(1-3) by simp
  have "we_mine en u"
    using assms(4,6) by (simp add: assms(5) ownerOf_def Let_def dir)
  moreover have "inSnap en m u"
    using mr.file_under_module [OF assms(1-3,6,7)] assms(4)
    by (simp add: inSnap_def underRoot_def Let_def)
  ultimately show ?thesis by (rule live_view [OF assms(8-10)])
qed

definition worktreeEnv :: workerEnv where
  "worktreeEnv =
     \<lparr>we_hostOk = (\<lambda>h. False), we_readInt = (\<lambda>s. Some 1),
      we_mine = (\<lambda>v. ownerOf (\<lambda>h. False) (Some (nestedModuleRoot worktreeFs)) (absPath [''ws'']) v = ''/ws/wt''),
      we_pRoot = ''/ws'', we_ttl = 60\<rparr>"

lemma worktree_module:
  "nestedModuleRoot worktreeFs (absPath ([''ws''] @ [''wt''])) (absPath [''ws'']) = ''/ws/wt''"
  by (subst nestedModuleRoot_spec)
    (simp_all add: okSeg_def innermostModule_def hasGoMod_def worktreeFs_def absPath_def
      filepathJoin_def filepathClean_def filepathIsAbs_def)

theorem nested_worker_mirrors_module_witness:
  "\<exists>docs h. gget docs ''file:///ws/wt/a.go'' \<noteq> None \<and> wh_client h = Some 1 \<and>
     viewOf 1 h ''file:///ws/wt/a.go'' = editorHas (gget docs ''file:///ws/wt/a.go'')"
proof -
  let ?u = "''file:///ws/wt/a.go''"
  have path: "uriToPath (we_hostOk worktreeEnv) ?u = absPath ([''ws''] @ [''wt''] @ [''a.go''])"
    using uriToPath_file [of "\<lambda>h. False" "''ws/wt/a.go''"]
    by (simp add: worktreeEnv_def absPath_def shouldEscape_def byteOf_def)
  obtain h where h: "workerReachable worktreeEnv ''/ws/wt'' (openedDocs ?u, h, PumpIdle, False, 0)"
    "wh_client h = Some 1" "wh_readyDone h"
    using reach_opened [of worktreeEnv "''/ws/wt''" "exampleNote ''textDocument/didOpen'' ?u"]
    by (auto simp: worktreeEnv_def openedDocs_def)
  have "viewOf 1 h ?u = editorHas (gget (openedDocs ?u) ?u)"
  proof (rule nested_worker_mirrors_module [OF _ _ _ path _ worktree_module _ h])
    show "okSegs [''ws'']" "okSegs [''wt'']" "okSeg ''a.go''" by (simp_all add: okSeg_def)
    show "we_mine worktreeEnv = (\<lambda>v. ownerOf (we_hostOk worktreeEnv)
        (Some (nestedModuleRoot worktreeFs)) (absPath [''ws'']) v = ''/ws/wt'')"
      unfolding worktreeEnv_def by (simp only: workerEnv.select_convs)
  qed simp
  moreover have "gget (openedDocs ?u) ?u \<noteq> None" by (simp add: openedDocs_simp)
  ultimately show ?thesis using h(2) by blast
qed

text \<open>a worker gets one settings object per item, without filters. After an answer of the
  editor was stored, a worker that asks for settings gets exactly as many values as it asked for:
  the editor's settings in order as far as they go, an empty object beyond; and no object holds a
  value gopls could take for \<open>directoryFilters\<close>.\<close>

theorem worker_configuration_correct:
  assumes "m_result m = Some (JArr items)"
    and "itemCount params = Some n" and "0 < n"
    and "st = snd (patchConfigResponse m st0)"
  shows "\<exists>rs. configurationResult (p_workerConfig st) params = JArr rs \<and> length rs = n \<and>
    (\<forall>i < n. rs ! i = (if i < length items then stripItem (items ! i) else JObj [])) \<and>
    (\<forall>settings. JObj settings \<in> set rs \<longrightarrow> filterValues settings = {})"
proof -
  have config: "p_workerConfig st = map stripItem items"
    using assms(1,4) by (simp add: patchConfigResponse_def storeWorkerConfig_def configItems_def Let_def)
  define rs where "rs = map (\<lambda>i. if i < length items then stripItem (items ! i) else JObj []) [0..<n]"
  have "configurationResult (p_workerConfig st) params = JArr rs"
    using assms(2,3) by (simp add: configurationResult_def config rs_def Let_def)
  moreover have "filterValues settings = {}" if "JObj settings \<in> set rs" for settings
  proof -
    have "JObj settings \<in>
        (\<lambda>i. if i < length items then stripItem (items ! i) else JObj []) ` set [0..<n]"
      using that by (simp add: rs_def)
    then obtain i where
      "JObj settings = (if i < length items then stripItem (items ! i) else JObj [])" by blast
    then show ?thesis
      using stripItem_unfiltered [of "items ! i" settings]
      by (cases "i < length items") (simp_all add: filterValues_def)
  qed
  ultimately show ?thesis by (intro exI [of _ rs]) (simp add: rs_def)
qed

theorem worker_configuration_correct_witness:
  "\<exists>rs. configurationResult (p_workerConfig (snd (patchConfigResponse exampleAnswer exampleState)))
      (Some (JObj [(''items'', JArr [JObj [], JObj []])])) = JArr rs \<and> length rs = 2 \<and>
    (\<forall>settings. JObj settings \<in> set rs \<longrightarrow> filterValues settings = {})"
  using worker_configuration_correct [OF _ _ _ refl, of exampleAnswer _
      "Some (JObj [(''items'', JArr [JObj [], JObj []])])" 2 exampleState]
  by (auto simp: exampleAnswer_def itemCount_def objOf_def jstr_def)

text \<open>a nested worker starts at its module. A worker of a nested module with an absolute
  root sends initialize parameters from which the root of the module is read back, and gets the
  settings of the session; the main worker sends the editor's own parameters.\<close>

theorem worker_initialized_at_module:
  assumes "hasPrefix root ''/''" and "root \<noteq> p_root p"
  shows "(\<exists>ms. initializeParams pid (workerStateFor hostOk root p docs) = JObj ms \<and>
      initRoot hostOk ms = root) \<and>
    st_config (workerStateFor hostOk root p docs) = p_workerConfig p \<and>
    (\<forall>j. p_workerInit p = Some j \<longrightarrow> initializeParams pid (workerStateFor hostOk '''' p docs) = j)"
proof -
  obtain r where r: "root = CHR ''/'' # r" using assms(1) by (cases root) auto
  have "uriToPath hostOk (pathToURI root) = root" "pathToURI root \<noteq> ''''"
    using uriToPath_file [of hostOk r]
    by (simp_all add: r pathToURI_def escape_Cons_slash del: escapePath.simps)
  then show ?thesis
    using assms(2) r
    by (simp add: initializeParams_def workerStateFor_def defaultInitializeParams_def initRoot_def
        nonEmptyURI_def Let_def)
qed

theorem worker_initialized_at_module_witness:
  "(let p = \<lparr>p_root = ''/w'', p_scope = [], p_scopeGen = 0, p_appliedGen = 0, p_appliedCh = None,
       p_chanCount = 0, p_closedChs = {}, p_workerInit = Some (JObj []), p_workerConfig = []\<rparr>
    in (\<exists>ms. initializeParams ''7'' (workerStateFor (\<lambda>h. False) ''/w/m'' p []) = JObj ms \<and>
          initRoot (\<lambda>h. False) ms = ''/w/m'') \<and>
       st_config (workerStateFor (\<lambda>h. False) ''/w/m'' p []) = p_workerConfig p)"
  unfolding Let_def
  by (intro conjI worker_initialized_at_module [THEN conjunct1]
      worker_initialized_at_module [THEN conjunct2, THEN conjunct1]) simp_all

end
