(* ===== verification/Framing.thy ===== *)
theory Framing
  imports Utf8
begin

text \<open>
  The frames of the language server protocol on the byte streams of the editor and of gopls
  (\<open>proxy.go\<close>: \<open>frameWriter.write\<close>, \<open>readFrame\<close>), with the conversions of \<open>fmt\<close> they use:
  \<open>Fprintf\<close> and \<open>Sscanf\<close> of \<open>%d\<close>.
\<close>

section \<open>Decimal numbers\<close>

definition digitChar :: "nat \<Rightarrow> char" where
  "digitChar d = char_of (48 + d)"

fun showNat :: "nat \<Rightarrow> string" where
  "showNat n = (if n < 10 then [digitChar n] else showNat (n div 10) @ [digitChar (n mod 10)])"

declare showNat.simps [simp del]

definition isDigit :: "char \<Rightarrow> bool" where
  "isDigit c \<longleftrightarrow> 48 \<le> byteOf c \<and> byteOf c \<le> 57"

fun readDigits :: "nat \<Rightarrow> string \<Rightarrow> nat" where
  "readDigits acc [] = acc"
| "readDigits acc (c # s) = (if isDigit c then readDigits (10 * acc + (byteOf c - 48)) s else acc)"

text \<open>
  \<open>Sscanf(v, "%d", &n)\<close>: an optional sign and the digits that follow; what comes after them is
  ignored. The variable keeps its value when there is no digit or the number does not fit.
\<close>

definition sscanfD :: "string \<Rightarrow> int \<Rightarrow> int" where
  "sscanfD v old =
     (let neg = (v \<noteq> [] \<and> hd v = CHR ''-'');
          ds = (if v \<noteq> [] \<and> hd v \<in> {CHR ''-'', CHR ''+''} then tl v else v);
          n = (if neg then - int (readDigits 0 ds) else int (readDigits 0 ds))
      in if ds = [] \<or> \<not> isDigit (hd ds) \<or> n < - (2 ^ 63) \<or> 2 ^ 63 \<le> n then old else n)"

section \<open>Frames\<close>

definition CR :: char where "CR = CHR 0x0D"
definition LF :: char where "LF = CHR 0x0A"

definition writeFrame :: "string \<Rightarrow> string" where
  "writeFrame body = ''Content-Length: '' @ showNat (length body) @ [CR, LF, CR, LF] @ body"

text \<open>\<open>ReadString('\n')\<close>: the line with its newline and the rest; \<open>None\<close> at the end of input.\<close>

definition readLine :: "string \<Rightarrow> (string \<times> string) option" where
  "readLine s =
     (let l = takeWhile (\<lambda>c. c \<noteq> LF) s
      in if length l < length s then Some (l @ [LF], drop (length l + 1) s) else None)"

definition trimRightEOL :: "string \<Rightarrow> string" where
  "trimRightEOL s = rev (dropWhile (\<lambda>c. c = CR \<or> c = LF) (rev s))"

definition lowerASCII :: "char \<Rightarrow> char" where
  "lowerASCII c = (if 65 \<le> byteOf c \<and> byteOf c \<le> 90 then char_of (byteOf c + 32) else c)"

text \<open>One header line; \<open>strings.EqualFold\<close> against a name without \<open>k\<close> and \<open>s\<close> folds ASCII.\<close>

definition headerLine :: "string \<Rightarrow> int \<Rightarrow> int" where
  "headerLine line len =
     (let k = takeWhile (\<lambda>c. c \<noteq> CHR '':'') line
      in if length k < length line \<and>
            map lowerASCII (trimSpace k) = map lowerASCII ''Content-Length''
         then sscanfD (trimSpace (drop (length k + 1) line)) len else len)"

lemma readLine_shorter: "readLine s = Some (l, r) \<Longrightarrow> length r < length s"
  by (auto simp: readLine_def Let_def split: if_splits)

function readHeaders :: "int \<Rightarrow> string \<Rightarrow> (int \<times> string) option" where
  "readHeaders len s =
     (case readLine s of
        None \<Rightarrow> None
      | Some (l, r) \<Rightarrow>
          (let line = trimRightEOL l
           in if line = [] then Some (len, r) else readHeaders (headerLine line len) r))"
  by pat_completeness auto
termination
  by (relation "measure (\<lambda>(len, s). length s)") (auto simp: readLine_shorter)

declare readHeaders.simps [simp del]

text \<open>\<open>readFrame\<close>: the body and the rest of the stream; \<open>None\<close> is an error, after which the pump stops.\<close>

definition readFrame :: "string \<Rightarrow> (string \<times> string) option" where
  "readFrame s =
     (case readHeaders 0 s of
        None \<Rightarrow> None
      | Some (len, r) \<Rightarrow>
          if len \<le> 0 then None
          else if nat len \<le> length r then Some (take (nat len) r, drop (nat len) r)
          else None)"

section \<open>Numbers are read as written\<close>

lemma digit_byte: "d < 10 \<Longrightarrow> byteOf (digitChar d) = 48 + d"
  by (simp add: digitChar_def byteOf_def)

lemma isDigit_digitChar: "d < 10 \<Longrightarrow> isDigit (digitChar d)"
  by (simp add: isDigit_def digit_byte)

lemma readDigits_append:
  "list_all isDigit s \<Longrightarrow> readDigits acc (s @ t) = readDigits (readDigits acc s) t"
  by (induction s arbitrary: acc) auto

lemma showNat_digits: "list_all isDigit (showNat n)"
proof (induction n rule: showNat.induct)
  case (1 n)
  then show ?case by (subst showNat.simps) (auto simp: isDigit_digitChar)
qed

lemma showNat_not_Nil [simp]: "showNat n \<noteq> []"
  by (subst showNat.simps) simp

lemma readDigits_showNat: "readDigits 0 (showNat n) = n"
proof (induction n rule: showNat.induct)
  case (1 n)
  show ?case
  proof (cases "n < 10")
    case True
    then show ?thesis by (subst showNat.simps) (simp add: isDigit_def digit_byte)
  next
    case False
    have "10 * (n div 10) + n mod 10 = n" by simp
    with 1 [OF False] False show ?thesis
      by (subst showNat.simps) (simp add: readDigits_append showNat_digits isDigit_def digit_byte)
  qed
qed

lemma digit_not: "isDigit c \<Longrightarrow> c \<noteq> CHR ''-'' \<and> c \<noteq> CHR ''+'' \<and> c \<noteq> LF \<and> c \<noteq> CR \<and> c \<noteq> CHR '':'' \<and>
    \<not> isSpace (byteOf c) \<and> byteOf c < 128"
  by (auto simp: isDigit_def byteOf_def LF_def CR_def isSpace_def)

lemma sscanfD_showNat: "int n < 2 ^ 63 \<Longrightarrow> sscanfD (showNat n) old = int n"
proof -
  assume "int n < 2 ^ 63"
  obtain c r where c: "showNat n = c # r" by (cases "showNat n") (use showNat_not_Nil in auto)
  then have "isDigit c" using showNat_digits [of n] by simp
  then show ?thesis
    using \<open>int n < 2 ^ 63\<close> c digit_not [of c] readDigits_showNat [of n]
    by (simp add: sscanfD_def Let_def)
qed

section \<open>A frame is read as written\<close>

lemma readLine_append: "LF \<notin> set l \<Longrightarrow> readLine (l @ LF # r) = Some (l @ [LF], r)"
proof -
  assume "LF \<notin> set l"
  then have "takeWhile (\<lambda>c. c \<noteq> LF) (l @ LF # r) = l" by (induction l) auto
  then show ?thesis by (simp add: readLine_def)
qed

lemma trimRightEOL_line: "l \<noteq> [] \<Longrightarrow> last l \<noteq> CR \<Longrightarrow> last l \<noteq> LF \<Longrightarrow> trimRightEOL (l @ [CR, LF]) = l"
  by (cases l rule: rev_cases) (simp_all add: trimRightEOL_def)

lemma headerLine_length:
  assumes "int n < 2 ^ 63"
  shows "headerLine (''Content-Length: '' @ showNat n) len = int n"
proof -
  let ?line = "''Content-Length: '' @ showNat n"
  have k: "takeWhile (\<lambda>c. c \<noteq> CHR '':'') ?line = ''Content-Length''" by simp
  have name: "trimSpace ''Content-Length'' = ''Content-Length''"
    using trimSpace_ascii [of "[]" "''Content-Length''"] by (simp add: asciiStr_def byteOf_def isSpace_def)
  have dig: "c \<in> set (showNat n) \<Longrightarrow> isDigit c" for c
    using showNat_digits [of n] by (simp add: list_all_iff)
  have "trimSpace ('' '' @ showNat n) = showNat n"
  proof (rule trimSpace_ascii)
    show "asciiStr ('' '' @ showNat n)"
      using dig digit_not by (auto simp: asciiStr_def byteOf_def)
    show "list_all (\<lambda>c. isSpace (byteOf c)) '' ''" by (simp add: isSpace_def byteOf_def)
    show "\<not> isSpace (byteOf (hd (showNat n)))" "\<not> isSpace (byteOf (last (showNat n)))"
      using dig digit_not showNat_not_Nil [of n] hd_in_set last_in_set by blast+
  qed simp
  then show ?thesis
    unfolding headerLine_def Let_def k name using sscanfD_showNat [OF assms] by simp
qed

lemma readFrame_write:
  assumes "body \<noteq> []" and "int (length body) < 2 ^ 63"
  shows "readFrame (writeFrame body @ rest) = Some (body, rest)"
proof -
  let ?line = "''Content-Length: '' @ showNat (length body)"
  have dig: "c \<in> set (showNat n) \<Longrightarrow> isDigit c" for c n
    using showNat_digits [of n] by (simp add: list_all_iff)
  have "LF \<notin> set (?line @ [CR])"
    using dig [of LF] digit_not [of LF] by (auto simp: LF_def CR_def)
  from readLine_append [OF this]
  have l1: "readLine (writeFrame body @ rest) = Some (?line @ [CR, LF], [CR, LF] @ body @ rest)"
    by (simp add: writeFrame_def)
  have l2: "readLine ([CR, LF] @ body @ rest) = Some ([CR, LF], body @ rest)"
    using readLine_append [of "[CR]" "body @ rest"] by (simp add: LF_def CR_def)
  have "last ?line \<noteq> CR" "last ?line \<noteq> LF"
    using dig [OF last_in_set [OF showNat_not_Nil]] digit_not by fastforce+
  then have t1: "trimRightEOL (?line @ [CR, LF]) = ?line" by (intro trimRightEOL_line) auto
  have t2: "trimRightEOL [CR, LF] = []" by (simp add: trimRightEOL_def)
  have "readHeaders 0 (writeFrame body @ rest) = readHeaders (int (length body)) ([CR, LF] @ body @ rest)"
    using headerLine_length [OF assms(2)]
    by (subst readHeaders.simps) (simp only: l1 option.case prod.case t1 Let_def, simp)
  also have "\<dots> = Some (int (length body), body @ rest)"
    by (subst readHeaders.simps) (simp only: l2 option.case prod.case t2 Let_def, simp)
  finally show ?thesis using assms(1) by (simp add: readFrame_def)
qed


section \<open>Streams of frames\<close>

lemma readHeaders_shorter: "readHeaders len s = Some (n, r) \<Longrightarrow> length r < length s"
proof (induction len s rule: readHeaders.induct)
  case (1 len s)
  then show ?case
    using readLine_shorter [of s]
    by (subst (asm) readHeaders.simps) (fastforce simp: Let_def split: option.splits if_splits)
qed

lemma readFrame_shorter: "readFrame s = Some (b, r) \<Longrightarrow> length r < length s"
  using readHeaders_shorter [of 0 s] by (fastforce simp: readFrame_def split: option.splits if_splits)

text \<open>The loop of \<open>pumpClient\<close> and \<open>pumpServer\<close>: frame after frame until the first error.\<close>

function readFrames :: "string \<Rightarrow> string list" where
  "readFrames s = (case readFrame s of None \<Rightarrow> [] | Some (body, r) \<Rightarrow> body # readFrames r)"
  by pat_completeness auto
termination
  by (relation "measure length") (auto simp: readFrame_shorter)

declare readFrames.simps [simp del]

lemma readFrames_write:
  assumes "list_all (\<lambda>b. b \<noteq> [] \<and> int (length b) < 2 ^ 63) bodies"
  shows "readFrames (concat (map writeFrame bodies)) = bodies"
  using assms
proof (induction bodies)
  case Nil
  have "readLine [] = None" by (simp add: readLine_def)
  then have "readHeaders 0 [] = None" by (subst readHeaders.simps) simp
  then have "readFrame [] = None" by (simp add: readFrame_def)
  then show ?case by (subst readFrames.simps) simp
next
  case (Cons b bs)
  then have "readFrame (writeFrame b @ concat (map writeFrame bs)) = Some (b, concat (map writeFrame bs))"
    by (intro readFrame_write) auto
  with Cons show ?case by (subst readFrames.simps) simp
qed

text \<open>What is read is a body that can be written again: not empty, and no longer than an \<open>int\<close> tells.\<close>

lemma sscanfD_bounds: "sscanfD v old < 2 ^ 63 \<or> sscanfD v old = old"
  by (auto simp: sscanfD_def Let_def)

lemma headerLine_bounds: "len < 2 ^ 63 \<Longrightarrow> headerLine line len < 2 ^ 63"
  using sscanfD_bounds by (auto simp: headerLine_def Let_def) metis

lemma readHeaders_bounds: "readHeaders len s = Some (n, r) \<Longrightarrow> len < 2 ^ 63 \<Longrightarrow> n < 2 ^ 63"
proof (induction len s rule: readHeaders.induct)
  case (1 len s)
  then show ?case
    using headerLine_bounds
    by (subst (asm) (2) readHeaders.simps) (auto split: option.splits prod.splits if_splits simp: Let_def)
qed

lemma readFrame_body: "readFrame s = Some (b, r) \<Longrightarrow> b \<noteq> [] \<and> int (length b) < 2 ^ 63"
  using readHeaders_bounds [of 0 s] by (auto simp: readFrame_def split: option.splits if_splits)

text \<open>C20: the framing is transparent. A stream of frames written by \<open>frameWriter.write\<close> is
  read back by the pump as exactly the bodies that were written, in order, whatever bytes they
  hold, as long as none is empty and each length fits an \<open>int\<close>.\<close>

theorem frames_roundtrip:
  assumes "list_all (\<lambda>b. b \<noteq> [] \<and> int (length b) < 2 ^ 63) bodies"
  shows "readFrames (concat (map writeFrame bodies)) = bodies"
  by (rule readFrames_write [OF assms])

theorem frames_roundtrip_witness:
  "readFrames (concat (map writeFrame [''{}'', [CR, LF, CR, LF]])) = [''{}'', [CR, LF, CR, LF]]"
  by (rule frames_roundtrip) simp

end
