(* ===== verification/Dispatch.thy ===== *)
theory Dispatch
  imports Resolve WorkerPool Framing
begin

text \<open>
  The two pumps of the proxy (\<open>proxy.go\<close>) and the requests it sends on its own
  (\<open>askDefinition\<close>, \<open>resolve.go\<close>): what each message of the editor does to the components,
  in the order of the code, and where each message of gopls goes.
\<close>

section \<open>Requests of the proxy\<close>

text \<open>
  \<open>pendingOwn\<close> maps the id of a request of the proxy to its waiter's channel; the channels live
  in a store, as their waiters keep them. \<open>ow_toClient\<close>: what was written to the editor.
\<close>

record ownState =
  ow_seq :: nat
  ow_pending :: "(json, nat) gomap"
  ow_box :: "message list list"
  ow_toClient :: "message list"

definition ownId :: "nat \<Rightarrow> json" where
  "ownId n = JStr (''fleet-'' @ showNat n)"

text \<open>\<open>askDefinition\<close>: the channel and the request that is written to gopls; and its time-out.\<close>

definition askDefinition ::
  "string \<Rightarrow> string \<Rightarrow> string \<Rightarrow> ownState \<Rightarrow> (nat \<times> message) \<times> ownState" where
  "askDefinition uri line char ow =
     (let n = Suc (ow_seq ow); ch = length (ow_box ow);
          req = \<lparr>m_id = Some (ownId n), m_method = ''textDocument/definition'',
                 m_params = Some (JObj [(''textDocument'', JObj [(''uri'', JStr uri)]),
                   (''position'', JObj [(''line'', JNum line), (''character'', JNum char)])]),
                 m_result = None, m_error = None\<rparr>
      in ((ch, req), ow\<lparr>ow_seq := n, ow_box := ow_box ow @ [[]],
            ow_pending := gput (ownId n) ch (ow_pending ow)\<rparr>))"

definition askTimeout :: "json \<Rightarrow> ownState \<Rightarrow> ownState" where
  "askTimeout i ow = ow\<lparr>ow_pending := gdel i (ow_pending ow)\<rparr>"

definition handleServerResponse :: "message \<Rightarrow> ownState \<Rightarrow> bool \<times> ownState" where
  "handleServerResponse m ow =
     (case m_id m of
        None \<Rightarrow> (False, ow)
      | Some i \<Rightarrow>
          if m_method m \<noteq> '''' then (False, ow)
          else
            let ow1 = ow\<lparr>ow_pending := gdel i (ow_pending ow)\<rparr>
            in case gget (ow_pending ow) i of
                 None \<Rightarrow> (False, ow1)
               | Some ch \<Rightarrow> (True, ow1\<lparr>ow_box := (ow_box ow1)[ch := ow_box ow1 ! ch @ [m]]\<rparr>))"

text \<open>One message in \<open>pumpServer\<close>.\<close>

definition serverMessage ::
  "message \<Rightarrow> 'a proxyState_scheme \<times> ownState \<Rightarrow> 'a proxyState_scheme \<times> ownState" where
  "serverMessage m s =
     (case handleServerResponse m (snd s) of
        (True, ow) \<Rightarrow> (fst s, ow)
      | (False, ow) \<Rightarrow>
          (handleServerNotification m (fst s), ow\<lparr>ow_toClient := ow_toClient ow @ [m]\<rparr>))"

text \<open>
  Answers of the proxy itself: \<open>respond\<close>, \<open>respondError\<close>, \<open>showMessage\<close>, and the error object of
  \<open>requestFailedError\<close>.
\<close>

definition toClient :: "message \<Rightarrow> ownState \<Rightarrow> ownState" where
  "toClient m ow = ow\<lparr>ow_toClient := ow_toClient ow @ [m]\<rparr>"

definition respond :: "json option \<Rightarrow> json \<Rightarrow> ownState \<Rightarrow> ownState" where
  "respond i result =
     toClient \<lparr>m_id = i, m_method = '''', m_params = None, m_result = Some result, m_error = None\<rparr>"

definition respondError :: "json option \<Rightarrow> json \<Rightarrow> ownState \<Rightarrow> ownState" where
  "respondError i err =
     toClient \<lparr>m_id = i, m_method = '''', m_params = None, m_result = None, m_error = Some err\<rparr>"

definition showMessage :: "string \<Rightarrow> string \<Rightarrow> ownState \<Rightarrow> ownState" where
  "showMessage typ msg =
     toClient \<lparr>m_id = None, m_method = ''window/showMessage'',
       m_params = Some (JObj [(''type'', JNum typ), (''message'', JStr msg)]),
       m_result = None, m_error = None\<rparr>"

definition requestFailedError :: "string \<Rightarrow> json" where
  "requestFailedError msg = JObj [(''code'', JNum ''-32803''), (''message'', JStr msg)]"

section \<open>Messages of the editor\<close>

text \<open>
  The components a message of the editor reaches. \<open>cs_started\<close>: the goroutines and timers it
  starts, \<open>cs_cacheFile\<close> the field \<open>cacheFile\<close> of the graph server, \<open>cs_builds\<close> the builds of its
  main slot that run. What is written to gopls is
  \<open>hs_log\<close> of the held requests, in order; \<open>p_toServer\<close> of the proxy state is its part without
  the held requests.
\<close>

datatype started = BuildIndex string | Reindex string | Revalidate buildJob | WarmWorker

record clientState =
  cs_proxy :: proxyState
  cs_docs :: openDocs
  cs_held :: heldState
  cs_mod :: modState
  cs_pool :: workerPool
  cs_cacheFile :: string
  cs_started :: "started list"
  cs_builds :: "buildJob list"

text \<open>
  \<open>ce_saved\<close> reads the scope file of a root, \<open>ce_cacheFile\<close> is \<open>graphCacheFile\<close> (a hash in the
  cache directory of the user) and \<open>ce_graph\<close> reads and parses such a file; \<open>ce_workerWarm\<close> and
  \<open>ce_workerTTL\<close> are options; \<open>ce_loaded\<close> tells what \<open>go list\<close> may return (\<open>GraphSlot\<close>).
\<close>

record clientEnv =
  ce_env :: proxyEnv
  ce_readInt :: "string \<Rightarrow> int option"
  ce_stat :: fileSystem
  ce_saved :: "string \<Rightarrow> string list option"
  ce_cacheFile :: "string \<Rightarrow> string"
  ce_graph :: "string \<Rightarrow> savedGraph option"
  ce_workerWarm :: bool
  ce_workerTTL :: int
  ce_loaded :: loads

text \<open>Whether \<open>interceptWorkspaceSymbol\<close> takes the request.\<close>

definition takesSymbols :: "string \<Rightarrow> json option \<Rightarrow> bool" where
  "takesSymbols root params \<longleftrightarrow>
     params \<noteq> None \<and> root \<noteq> '''' \<and>
     (case objOf params of None \<Rightarrow> False | Some ms \<Rightarrow> jstr (gget ms ''query'') \<noteq> None)"

definition interceptRequest :: "clientEnv \<Rightarrow> message \<Rightarrow> clientState \<Rightarrow> bool \<times> heldState" where
  "interceptRequest ce m cs =
     (case interceptClientRequest (m_method m) of
        ToSymbols \<Rightarrow> (takesSymbols (p_root (cs_proxy cs)) (m_params m), cs_held cs)
      | ToHold timeout \<Rightarrow> holdForRequestUnit (ce_env ce) (cs_proxy cs) m (cs_held cs)
      | ToCrossRef \<Rightarrow>
          (interceptCrossRef (env_hostOk (ce_env ce)) (ce_readInt ce) (p_root (cs_proxy cs)) (m_params m),
           cs_held cs)
      | NotTaken \<Rightarrow> (False, cs_held cs))"

definition fileEvent :: "clientEnv \<Rightarrow> string \<Rightarrow> clientState \<Rightarrow> clientState" where
  "fileEvent ce uri cs =
     (let path = uriToPath (env_hostOk (ce_env ce)) uri;
          (reindex, md) = observeFileEvent (ce_stat ce) path (cs_mod cs)
      in cs\<lparr>cs_mod := md, cs_started := cs_started cs @ (if reindex then [Reindex path] else [])\<rparr>)"

text \<open>\<open>observeWatchedFiles\<close>: the URIs of the changes, if the parameters unmarshal.\<close>

fun changeURIs :: "json list \<Rightarrow> string list option" where
  "changeURIs [] = Some []"
| "changeURIs (j # js) =
     (case (Option.bind (objOf (Some j)) (\<lambda>ms. jstr (gget ms ''uri'')), changeURIs js) of
        (Some u, Some us) \<Rightarrow> Some (u # us) | _ \<Rightarrow> None)"

definition watchedURIs :: "json option \<Rightarrow> string list" where
  "watchedURIs params =
     (if params = None then []
      else case objOf params of
        None \<Rightarrow> []
      | Some ms \<Rightarrow> (case gget ms ''changes'' of
          Some (JArr js) \<Rightarrow> (case changeURIs js of None \<Rightarrow> [] | Some us \<Rightarrow> us) | _ \<Rightarrow> []))"

definition observeWatchedFiles :: "clientEnv \<Rightarrow> json option \<Rightarrow> clientState \<Rightarrow> clientState" where
  "observeWatchedFiles ce params cs = foldl (\<lambda>cs uri. fileEvent ce uri cs) cs (watchedURIs params)"

text \<open>A message written by the pump.\<close>

definition writeMessage :: "message \<Rightarrow> clientState \<Rightarrow> clientState" where
  "writeMessage m cs =
     cs\<lparr>cs_proxy := writeServer m (cs_proxy cs),
        cs_held := (cs_held cs)\<lparr>hs_log := hs_log (cs_held cs) @ [SentMsg m]\<rparr>\<rparr>"

definition rootForPool :: "clientEnv \<Rightarrow> clientState \<Rightarrow> (string \<Rightarrow> string \<Rightarrow> string) option" where
  "rootForPool ce cs = rootForOf (ce_stat ce) (cs_mod cs)"

definition toWorkers :: "clientEnv \<Rightarrow> message \<Rightarrow> clientState \<Rightarrow> clientState" where
  "toWorkers ce m cs =
     cs\<lparr>cs_pool := observeWorker (env_hostOk (ce_env ce)) (rootForPool ce cs) (p_root (cs_proxy cs))
          (gget (cs_docs cs)) \<lparr>n_method = m_method m, n_params = m_params m\<rparr> (cs_pool cs)\<rparr>"

definition configNote :: bufferedNote where
  "configNote = \<lparr>n_method = ''workspace/didChangeConfiguration'', n_params = None\<rparr>"

text \<open>
  What \<open>patchInitialize\<close> does outside the proxy's own state: the index of the root is built, the
  graph server gets its root and serves the graph of the last session (\<open>setRoot\<close>), the worker is
  warmed. It happens only if the parameters are an object.
\<close>

definition graphSetRoot :: "clientEnv \<Rightarrow> string \<Rightarrow> clientState \<Rightarrow> clientState" where
  "graphSetRoot ce root cs =
     (case md_graph (cs_mod cs) of
        None \<Rightarrow> cs
      | Some g \<Rightarrow>
          if cs_cacheFile cs \<noteq> '''' then cs
          else
            let cf = ce_cacheFile ce root;
                g1 = g\<lparr>gs_root := root\<rparr>;
                (g2, jobs) =
                  (if cf = '''' then (g1, [])
                   else case ce_graph ce cf of
                     None \<Rightarrow> (g1, [])
                   | Some saved \<Rightarrow>
                       (case loadDiskCache saved root (gs_main g1) of
                          None \<Rightarrow> (g1, [])
                        | Some (slot, job) \<Rightarrow> (g1\<lparr>gs_main := slot\<rparr>, [Revalidate job])))
            in cs\<lparr>cs_cacheFile := cf, cs_mod := (cs_mod cs)\<lparr>md_graph := Some g2\<rparr>,
                  cs_started := cs_started cs @ jobs\<rparr>)"

definition startSession :: "clientEnv \<Rightarrow> json option \<Rightarrow> clientState \<Rightarrow> clientState" where
  "startSession ce params cs =
     (case params of
        Some (JObj ms) \<Rightarrow>
          let root = initRoot (env_hostOk (ce_env ce)) ms;
              cs1 = cs\<lparr>cs_mod := (cs_mod cs)\<lparr>md_root := root\<rparr>\<rparr>
          in if root = '''' then cs1
             else
               let cs2 = graphSetRoot ce root
                     (cs1\<lparr>cs_started := cs_started cs1 @ [BuildIndex root]\<rparr>)
               in cs2\<lparr>cs_started := cs_started cs2 @ (if ce_workerWarm ce then [WarmWorker] else [])\<rparr>
      | _ \<Rightarrow> cs)"

text \<open>
  The switch of \<open>pumpClient\<close>: the message to forward, absent when it was forwarded already, and
  the state. \<open>None\<close> is the panic of \<open>patchInitialize\<close>.
\<close>

definition clientSwitch ::
  "clientEnv \<Rightarrow> int \<Rightarrow> message \<Rightarrow> clientState \<Rightarrow> (message option \<times> clientState) option" where
  "clientSwitch ce now m cs =
     (let hostOk = env_hostOk (ce_env ce);
          track = (\<lambda>cs. cs\<lparr>cs_docs := trackNote hostOk (ce_readInt ce)
                     \<lparr>n_method = m_method m, n_params = m_params m\<rparr> (cs_docs cs)\<rparr>)
      in if m_method m = ''initialize'' then
           (case patchInitialize hostOk (ce_stat ce) now (ce_saved ce) m (cs_proxy cs) of
              None \<Rightarrow> None
            | Some (m', p) \<Rightarrow> Some (Some m', startSession ce (m_params m) (cs\<lparr>cs_proxy := p\<rparr>)))
         else if m_method m = ''textDocument/didOpen'' then
           (let cs1 = track cs
            in Some (Some m, cs1\<lparr>cs_proxy := observeOpen (ce_env ce) now (m_params m) (cs_proxy cs1)\<rparr>))
         else if m_method m = ''textDocument/didChange'' then
           Some (Some m, track (cs\<lparr>cs_held := releaseHeldDefs (docURI (m_params m)) (cs_held cs)\<rparr>))
         else if m_method m = ''textDocument/didClose'' then
           (let cs1 = track cs
            in Some (Some m, cs1\<lparr>cs_proxy := observeClose (ce_env ce) now (m_params m) (cs_proxy cs1)\<rparr>))
         else if m_method m = ''textDocument/didSave'' then
           Some (Some m, fileEvent ce (docURI (m_params m)) cs)
         else if m_method m = ''workspace/didChangeWatchedFiles'' then
           Some (Some m, observeWatchedFiles ce (m_params m) cs)
         else if m_method m = '''' then
           (case handleClientResponse m (cs_proxy cs) of
              (False, p) \<Rightarrow> Some (Some m, cs\<lparr>cs_proxy := p\<rparr>)
            | (True, p) \<Rightarrow>
                Some (None, cs\<lparr>cs_proxy := p,
                  cs_held := (cs_held cs)\<lparr>hs_log := hs_log (cs_held cs) @ [SentMsg (last (p_toServer p))]\<rparr>,
                  cs_pool := broadcastObserve (gget (cs_docs cs)) configNote (cs_pool cs)\<rparr>))
         else Some (Some m, cs))"

text \<open>One message in \<open>pumpClient\<close>.\<close>

definition clientMessage ::
  "clientEnv \<Rightarrow> int \<Rightarrow> message \<Rightarrow> clientState \<Rightarrow> clientState option" where
  "clientMessage ce now m cs =
     (let (taken, held) = (if m_id m \<noteq> None then interceptRequest ce m cs else (False, cs_held cs));
          cs0 = cs\<lparr>cs_held := held\<rparr>
      in if taken then Some cs0
         else case clientSwitch ce now m cs0 of
                None \<Rightarrow> None
              | Some (None, cs1) \<Rightarrow> Some cs1
              | Some (Some m', cs1) \<Rightarrow> Some (writeMessage m' (toWorkers ce m' cs1)))"


text \<open>The pump over the messages of the editor, each with the time it is read at.\<close>

fun clientRun :: "clientEnv \<Rightarrow> (int \<times> message) list \<Rightarrow> clientState \<Rightarrow> clientState option" where
  "clientRun ce [] cs = Some cs"
| "clientRun ce ((now, m) # ms) cs =
     (case clientMessage ce now m cs of None \<Rightarrow> None | Some cs1 \<Rightarrow> clientRun ce ms cs1)"

section \<open>The waiters of own requests\<close>

inductive ownStep :: "ownState \<Rightarrow> ownState \<Rightarrow> bool" where
  ow_ask: "ownStep ow (snd (askDefinition uri line char ow))"
| ow_timeout: "k < ow_seq ow \<Longrightarrow> ownStep ow (askTimeout (ownId (Suc k)) ow)"
| ow_server: "ownStep ow (snd (serverMessage m (p :: proxyState, ow)))"
| ow_client: "ownStep ow (toClient m ow)"

definition freshOwn :: ownState where
  "freshOwn = \<lparr>ow_seq = 0, ow_pending = [], ow_box = [], ow_toClient = []\<rparr>"

text \<open>The invariant: the waiter of request \<open>n\<close> is channel \<open>n - 1\<close>, empty while it waits.\<close>

definition answersOwn :: "nat \<Rightarrow> message \<Rightarrow> bool" where
  "answersOwn k m \<longleftrightarrow> m_id m = Some (ownId (Suc k)) \<and> m_method m = ''''"

definition own_inv :: "ownState \<Rightarrow> bool" where
  "own_inv ow \<longleftrightarrow>
     length (ow_box ow) = ow_seq ow \<and>
     (\<forall>i ch. gget (ow_pending ow) i = Some ch \<longrightarrow>
        i = ownId (Suc ch) \<and> ch < ow_seq ow \<and> ow_box ow ! ch = []) \<and>
     (\<forall>k < ow_seq ow. ow_box ow ! k = [] \<or> (\<exists>m. ow_box ow ! k = [m] \<and> answersOwn k m))"

lemma own_invI:
  assumes "length (ow_box ow) = ow_seq ow"
    and "\<And>i ch. gget (ow_pending ow) i = Some ch \<Longrightarrow>
      i = ownId (Suc ch) \<and> ch < ow_seq ow \<and> ow_box ow ! ch = []"
    and "\<And>k. k < ow_seq ow \<Longrightarrow>
      ow_box ow ! k = [] \<or> (\<exists>m. ow_box ow ! k = [m] \<and> answersOwn k m)"
  shows "own_inv ow"
  using assms unfolding own_inv_def by blast

lemma showNat_inj: "showNat a = showNat b \<longleftrightarrow> a = b"
  using readDigits_showNat by metis

lemma ownId_inj [simp]: "ownId a = ownId b \<longleftrightarrow> a = b"
  by (simp add: ownId_def showNat_inj)

lemma handleServerResponse_waiter:
  assumes "answersOwn k m" and "gget (ow_pending ow) (ownId (Suc k)) = Some ch"
  shows "handleServerResponse m ow =
    (True, ow\<lparr>ow_pending := gdel (ownId (Suc k)) (ow_pending ow),
              ow_box := (ow_box ow)[ch := ow_box ow ! ch @ [m]]\<rparr>)"
  using assms by (simp add: handleServerResponse_def answersOwn_def Let_def)

lemma handleServerResponse_cases:
  assumes "own_inv ow"
  obtains (waiter) k where "answersOwn k m" and "gget (ow_pending ow) (ownId (Suc k)) = Some k"
      and "k < ow_seq ow" and "ow_box ow ! k = []"
    | (editor) pend where "handleServerResponse m ow = (False, ow\<lparr>ow_pending := pend\<rparr>)"
      and "\<And>i ch. gget pend i = Some ch \<Longrightarrow> gget (ow_pending ow) i = Some ch"
      and "\<And>k. answersOwn k m \<Longrightarrow> gget (ow_pending ow) (ownId (Suc k)) = None"
proof (cases "\<exists>i ch. m_id m = Some i \<and> m_method m = '''' \<and> gget (ow_pending ow) i = Some ch")
  case True
  then obtain i ch where i: "m_id m = Some i" "m_method m = ''''" "gget (ow_pending ow) i = Some ch"
    by blast
  then have "i = ownId (Suc ch)" "ch < ow_seq ow" "ow_box ow ! ch = []"
    using assms unfolding own_inv_def by blast+
  then show ?thesis using waiter [of ch] i by (simp add: answersOwn_def)
next
  case False
  have "\<exists>pend. handleServerResponse m ow = (False, ow\<lparr>ow_pending := pend\<rparr>) \<and>
      (\<forall>i ch. gget pend i = Some ch \<longrightarrow> gget (ow_pending ow) i = Some ch)"
  proof (cases "m_id m = None \<or> m_method m \<noteq> ''''")
    case True
    then have "handleServerResponse m ow = (False, ow\<lparr>ow_pending := ow_pending ow\<rparr>)"
      by (auto simp: handleServerResponse_def split: option.split)
    then show ?thesis by blast
  next
    case resp: False
    then obtain i where i: "m_id m = Some i" "m_method m = ''''" by auto
    then have "gget (ow_pending ow) i = None" using False by (cases "gget (ow_pending ow) i") auto
    then have "handleServerResponse m ow =
        (False, ow\<lparr>ow_pending := gdel i (ow_pending ow)\<rparr>)"
      using i by (simp add: handleServerResponse_def Let_def)
    then show ?thesis by (intro exI [of _ "gdel i (ow_pending ow)"]) (simp split: if_splits)
  qed
  moreover have "gget (ow_pending ow) (ownId (Suc k)) = None" if "answersOwn k m" for k
    using False that unfolding answersOwn_def by (cases "gget (ow_pending ow) (ownId (Suc k))") auto
  ultimately show ?thesis using editor by blast
qed

lemma own_inv_ask: "own_inv ow \<Longrightarrow> own_inv (snd (askDefinition uri line char ow))"
  unfolding own_inv_def askDefinition_def Let_def
  by (fastforce simp: nth_append less_Suc_eq split: if_splits)

lemma own_inv_server: "own_inv ow \<Longrightarrow> own_inv (snd (serverMessage m (p :: proxyState, ow)))"
proof -
  assume inv: "own_inv ow"
  then show ?thesis
  proof (cases rule: handleServerResponse_cases [where m = m])
    case (waiter k)
    then have "snd (serverMessage m (p, ow)) =
        ow\<lparr>ow_pending := gdel (ownId (Suc k)) (ow_pending ow), ow_box := (ow_box ow)[k := [m]]\<rparr>"
      (is "_ = ?ow'")
      using handleServerResponse_waiter [OF waiter(1,2)] by (simp add: serverMessage_def)
    moreover have "own_inv ?ow'"
    proof (rule own_invI)
      show "length (ow_box ?ow') = ow_seq ?ow'" using inv by (simp add: own_inv_def)
    next
      fix i ch assume "gget (ow_pending ?ow') i = Some ch"
      then have "i = ownId (Suc ch)" "ch < ow_seq ow" "ow_box ow ! ch = []" "i \<noteq> ownId (Suc k)"
        using inv unfolding own_inv_def by (auto split: if_splits)
      then show "i = ownId (Suc ch) \<and> ch < ow_seq ?ow' \<and> ow_box ?ow' ! ch = []"
        by (cases "ch = k") simp_all
    next
      fix j assume "j < ow_seq ?ow'"
      then show "ow_box ?ow' ! j = [] \<or> (\<exists>m'. ow_box ?ow' ! j = [m'] \<and> answersOwn j m')"
        using inv waiter(1) unfolding own_inv_def by (cases "j = k") simp_all
    qed
    ultimately show ?thesis by simp
  next
    case (editor pend)
    then have "snd (serverMessage m (p, ow)) =
        ow\<lparr>ow_pending := pend, ow_toClient := ow_toClient ow @ [m]\<rparr>"
      by (simp add: serverMessage_def)
    then show ?thesis using inv editor(2) unfolding own_inv_def by (simp, blast)
  qed
qed

lemma own_inv_step: "ownStep ow ow' \<Longrightarrow> own_inv ow \<Longrightarrow> own_inv ow'"
proof (induction rule: ownStep.induct)
  case (ow_timeout k ow)
  then show ?case by (auto simp: own_inv_def askTimeout_def split: if_splits)
next
  case (ow_client ow m)
  then show ?case by (simp add: own_inv_def toClient_def)
qed (simp_all add: own_inv_ask own_inv_server)

lemma own_inv_reachable: "ownStep\<^sup>*\<^sup>* freshOwn ow \<Longrightarrow> own_inv ow"
  by (induction rule: rtranclp_induct)
    (auto simp: own_inv_step, simp add: own_inv_def freshOwn_def)


section \<open>Properties of the server pump\<close>

text \<open>C17: a message of gopls has one receiver. In every interleaving of the proxy's own requests,
  their time-outs and the messages of gopls, each message goes either to the one waiter that asked
  for it, whose channel was empty (so the pump never blocks), and is not seen by the editor or by
  the scope; or unchanged to the editor and to no waiter. A waiter gets only the answer to its own
  request.\<close>

theorem server_message_one_receiver:
  fixes p p' :: proxyState
  assumes "ownStep\<^sup>*\<^sup>* freshOwn ow" and "serverMessage m (p, ow) = (p', ow')"
  shows "(\<forall>k < ow_seq ow. ow_box ow ! k = [] \<or> (\<exists>a. ow_box ow ! k = [a] \<and> answersOwn k a)) \<and>
    ((\<exists>k < ow_seq ow. answersOwn k m \<and> gget (ow_pending ow) (ownId (Suc k)) = Some k \<and>
        ow_box ow ! k = [] \<and> ow_box ow' = (ow_box ow)[k := [m]] \<and>
        ow_toClient ow' = ow_toClient ow \<and> p' = p) \<or>
     ((\<forall>k. answersOwn k m \<longrightarrow> gget (ow_pending ow) (ownId (Suc k)) = None) \<and>
        ow_box ow' = ow_box ow \<and> ow_toClient ow' = ow_toClient ow @ [m] \<and>
        p' = handleServerNotification m p))"
proof -
  have inv: "own_inv ow" by (rule own_inv_reachable [OF assms(1)])
  then have boxes: "\<forall>k < ow_seq ow. ow_box ow ! k = [] \<or> (\<exists>a. ow_box ow ! k = [a] \<and> answersOwn k a)"
    by (simp add: own_inv_def)
  from inv show ?thesis
  proof (cases rule: handleServerResponse_cases [where m = m])
    case (waiter k)
    then have "p' = p \<and> ow_box ow' = (ow_box ow)[k := [m]] \<and> ow_toClient ow' = ow_toClient ow"
      using assms(2) handleServerResponse_waiter [OF waiter(1,2)] by (auto simp: serverMessage_def)
    then show ?thesis using boxes waiter by blast
  next
    case (editor pend)
    then have "p' = handleServerNotification m p \<and> ow_box ow' = ow_box ow \<and>
        ow_toClient ow' = ow_toClient ow @ [m]"
      using assms(2) by (auto simp: serverMessage_def)
    then show ?thesis using boxes editor(3) by blast
  qed
qed

definition answerTo :: "nat \<Rightarrow> message" where
  "answerTo n =
     \<lparr>m_id = Some (ownId n), m_method = '''', m_params = None, m_result = Some JNull, m_error = None\<rparr>"

theorem server_message_one_receiver_witness:
  "(let ow = snd (askDefinition ''file:///w/a.go'' ''3'' ''7'' freshOwn)
    in ow_box (snd (serverMessage (answerTo (Suc 0)) (freshProxy, ow))) = [[answerTo (Suc 0)]] \<and>
       ow_toClient (snd (serverMessage (answerTo (Suc 0)) (freshProxy, ow))) = [])"
proof -
  let ?ow = "snd (askDefinition ''file:///w/a.go'' ''3'' ''7'' freshOwn)"
  have "ownStep\<^sup>*\<^sup>* freshOwn ?ow" by (intro r_into_rtranclp ow_ask)
  note r = server_message_one_receiver [OF this surjective_pairing, of "answerTo (Suc 0)" freshProxy]
  have ow: "ow_box ?ow = [[]]" "ow_toClient ?ow = []" "gget (ow_pending ?ow) (ownId (Suc 0)) = Some 0"
    "answersOwn k (answerTo (Suc 0)) \<longleftrightarrow> k = 0" for k
    by (simp_all add: askDefinition_def freshOwn_def answersOwn_def answerTo_def Let_def)
  show ?thesis using r [THEN conjunct2] by (auto simp: Let_def ow)
qed

text \<open>an answer that comes too late reaches the editor. When gopls answers a definition
  request of the proxy after its time-out, the id is no longer known, and the answer, to a request
  the editor never sent, is written to the editor.\<close>

theorem late_answer_reaches_editor:
  fixes p :: proxyState
  shows "(let ((ch, req), ow1) = askDefinition uri line char ow;
              late = answerTo (Suc (ow_seq ow))
          in m_id req = m_id late \<and>
             ow_toClient (snd (serverMessage late (p, askTimeout (ownId (Suc (ow_seq ow))) ow1))) =
               ow_toClient ow @ [late])"
  by (simp add: askDefinition_def answerTo_def serverMessage_def handleServerResponse_def
      askTimeout_def Let_def)

section \<open>Properties of the editor pump\<close>

lemma foldl_forward_log:
  "\<exists>rel. hs_log (foldl (\<lambda>hs h. forward h hs) hs s) = hs_log hs @ map SentHeld rel \<and> set rel \<subseteq> set s"
proof (induction s arbitrary: hs)
  case (Cons h s)
  obtain rel where "hs_log (foldl (\<lambda>hs h. forward h hs) (forward h hs) s) =
      hs_log (forward h hs) @ map SentHeld rel" "set rel \<subseteq> set s" using Cons by blast
  moreover have "hs_log (forward h hs) =
      hs_log hs @ map SentHeld (if hr_once (hs_reqs hs ! h) then [] else [h])"
    by (simp add: forward_def)
  ultimately show ?case
    by (intro exI [of _ "(if hr_once (hs_reqs hs ! h) then [] else [h]) @ rel"]) auto
qed simp

lemma releaseHeldDefs_log:
  "\<exists>rel. hs_log (releaseHeldDefs uri hs) = hs_log hs @ map SentHeld rel \<and> set rel \<subseteq> set (heldFor uri hs)"
  using foldl_forward_log [of "hs\<lparr>hs_defs := gdel uri (hs_defs hs)\<rparr>" "heldFor uri hs"]
  by (simp add: releaseHeldDefs_def)


lemma interceptRequest_keeps:
  assumes "interceptRequest ce m cs = (taken, held)"
  shows "hs_log held = hs_log (cs_held cs) \<and>
    (taken \<longrightarrow> interceptClientRequest (m_method m) \<noteq> NotTaken) \<and>
    (\<not> taken \<longrightarrow> held = cs_held cs)"
  using assms
  by (auto simp: interceptRequest_def holdForRequestUnit_def registerHeldDef_def Let_def
      split: interception.splits option.splits if_splits)

lemma handleClientResponse_taken:
  assumes "handleClientResponse m p = (True, p')"
  obtains i m' where "m_id m = Some i" and "i \<in> p_configIDs p" and "last (p_toServer p') = m'"
    and "m_id m' = m_id m" and "m_method m' = m_method m"
proof -
  obtain i where i: "m_id m = Some i" "i \<in> p_configIDs p"
    using assms by (auto simp: handleClientResponse_def takeConfigID_def Let_def
        split: option.splits prod.splits if_splits)
  moreover have "\<exists>fs. last (p_toServer p') = patchedResponse fs m"
    using assms i by (auto simp: handleClientResponse_def takeConfigID_def patchConfigResponse_def
        Let_def split: option.splits prod.splits if_splits)
  then obtain fs where "last (p_toServer p') = patchedResponse fs m" by blast
  moreover have "m_id (patchedResponse fs m) = m_id m" "m_method (patchedResponse fs m) = m_method m"
    by (simp_all add: patchedResponse_def split: option.splits json.splits)
  ultimately show ?thesis using that by blast
qed

lemma startSession_frame [simp]:
  "cs_held (startSession ce params cs) = cs_held cs" "cs_docs (startSession ce params cs) = cs_docs cs"
  "cs_pool (startSession ce params cs) = cs_pool cs" "cs_proxy (startSession ce params cs) = cs_proxy cs"
  by (auto simp: startSession_def graphSetRoot_def Let_def split: option.splits json.splits)

lemma observeWatchedFiles_frame [simp]:
  "cs_held (observeWatchedFiles ce params cs) = cs_held cs"
  "cs_docs (observeWatchedFiles ce params cs) = cs_docs cs"
proof -
  have "cs_held (foldl (\<lambda>cs uri. fileEvent ce uri cs) cs us) = cs_held cs \<and>
      cs_docs (foldl (\<lambda>cs uri. fileEvent ce uri cs) cs us) = cs_docs cs" for us
    by (induction us arbitrary: cs) (simp_all add: fileEvent_def Let_def split: prod.split)
  then show "cs_held (observeWatchedFiles ce params cs) = cs_held cs"
    "cs_docs (observeWatchedFiles ce params cs) = cs_docs cs"
    by (simp_all add: observeWatchedFiles_def)
qed

lemma fileEvent_frame [simp]:
  "cs_held (fileEvent ce uri cs) = cs_held cs" "cs_docs (fileEvent ce uri cs) = cs_docs cs"
  by (simp_all add: fileEvent_def Let_def split: prod.split)

lemma patchInitialize_same:
  "patchInitialize hostOk stat now saved m p = Some (m', p') \<Longrightarrow>
     m_id m' = m_id m \<and> m_method m' = m_method m"
  by (auto simp: patchInitialize_def Let_def split: option.splits json.splits)

lemma patchInitialize_None:
  "patchInitialize hostOk stat now saved m p = None \<longleftrightarrow> m_params m = Some JNull"
  by (auto simp: patchInitialize_def Let_def split: option.splits json.splits)


text \<open>What may be written for a message: the message itself, except for \<open>initialize\<close> and for
  the answer to a pull of settings.\<close>

definition writtenFor :: "proxyState \<Rightarrow> message \<Rightarrow> message \<Rightarrow> bool" where
  "writtenFor p m m' \<longleftrightarrow>
     m_id m' = m_id m \<and> m_method m' = m_method m \<and>
     (m' = m \<or> m_method m = ''initialize'' \<or>
      m_method m = '''' \<and> (\<exists>i \<in> p_configIDs p. m_id m = Some i))"

lemma writtenFor_refl [simp]: "writtenFor p m m"
  by (simp add: writtenFor_def)

definition switchLog :: "message \<Rightarrow> clientState \<Rightarrow> message option \<Rightarrow> clientState \<Rightarrow> bool" where
  "switchLog m cs fwd cs1 \<longleftrightarrow>
     (\<exists>rel out. hs_log (cs_held cs1) = hs_log (cs_held cs) @ map SentHeld rel @ map SentMsg out \<and>
        set rel \<subseteq> set (heldFor (docURI (m_params m)) (cs_held cs)) \<and>
        (rel \<noteq> [] \<longrightarrow> m_method m = ''textDocument/didChange'') \<and>
        (\<exists>m'. writtenFor (cs_proxy cs) m m' \<and>
          (fwd = None \<and> out = [m'] \<or> fwd = Some m' \<and> out = [])))"

lemma switchLog_same:
  "hs_log (cs_held cs1) = hs_log (cs_held cs) \<Longrightarrow> writtenFor (cs_proxy cs) m m' \<Longrightarrow>
     switchLog m cs (Some m') cs1"
  unfolding switchLog_def by (intro exI [of _ "[]"]) auto

lemma clientSwitch_log:
  assumes "clientSwitch ce now m cs = Some (fwd, cs1)"
  shows "switchLog m cs fwd cs1"
proof -
  consider (init) "m_method m = ''initialize''" | (change) "m_method m = ''textDocument/didChange''"
    | (resp) "m_method m = ''''"
    | (other) "m_method m \<notin> {''initialize'', ''textDocument/didChange'', ''''}" by blast
  then show ?thesis
  proof cases
    case init
    then obtain m' p where p: "patchInitialize (env_hostOk (ce_env ce)) (ce_stat ce) now (ce_saved ce) m
        (cs_proxy cs) = Some (m', p)" "fwd = Some m'" "cs_held cs1 = cs_held cs"
      using assms by (auto simp: clientSwitch_def split: option.splits)
    then have "writtenFor (cs_proxy cs) m m'"
      using patchInitialize_same [OF p(1)] init by (simp add: writtenFor_def)
    then show ?thesis using p(2,3) by (simp add: switchLog_same)
  next
    case change
    then have "fwd = Some m" "cs_held cs1 = releaseHeldDefs (docURI (m_params m)) (cs_held cs)"
      using assms by (auto simp: clientSwitch_def Let_def)
    then show ?thesis
      using releaseHeldDefs_log [of "docURI (m_params m)" "cs_held cs"] change
      by (auto simp: switchLog_def)
  next
    case resp
    show ?thesis
    proof (cases "handleClientResponse m (cs_proxy cs)")
      case (Pair b p)
      show ?thesis
      proof (cases b)
        case True
        then obtain i m' where m': "m_id m = Some i" "i \<in> p_configIDs (cs_proxy cs)"
          "last (p_toServer p) = m'" "m_id m' = m_id m" "m_method m' = m_method m"
          using Pair handleClientResponse_taken [of m "cs_proxy cs" p] by auto
        moreover have "fwd = None" "hs_log (cs_held cs1) = hs_log (cs_held cs) @ [SentMsg (last (p_toServer p))]"
          using assms resp Pair True by (auto simp: clientSwitch_def)
        ultimately have "writtenFor (cs_proxy cs) m m'" using resp by (auto simp: writtenFor_def)
        then show ?thesis
          unfolding switchLog_def
          using m'(3) \<open>fwd = None\<close> \<open>hs_log (cs_held cs1) = _\<close>
          by (intro exI [of _ "[]"] exI [of _ "[m']"]) auto
      next
        case False
        then show ?thesis
          using assms resp Pair by (auto simp: clientSwitch_def intro!: switchLog_same)
      qed
    qed
  next
    case other
    then have "fwd = Some m \<and> cs_held cs1 = cs_held cs"
      using assms by (auto simp: clientSwitch_def Let_def split: if_splits)
    then show ?thesis by (auto intro: switchLog_same)
  qed
qed

lemma clientSwitch_docs:
  assumes "clientSwitch ce now m cs = Some (fwd, cs1)"
  shows "cs_docs cs1 = trackNote (env_hostOk (ce_env ce)) (ce_readInt ce)
    \<lparr>n_method = m_method m, n_params = m_params m\<rparr> (cs_docs cs)"
  using assms
  by (auto simp: clientSwitch_def trackNote_def isOpen_def isChange_def isClose_def Let_def
      split: if_splits option.splits prod.splits bool.splits)

lemma clientSwitch_None:
  "clientSwitch ce now m cs = None \<longleftrightarrow> m_method m = ''initialize'' \<and> m_params m = Some JNull"
proof (cases "m_method m = ''initialize''")
  case True
  then have "clientSwitch ce now m cs = None \<longleftrightarrow>
      patchInitialize (env_hostOk (ce_env ce)) (ce_stat ce) now (ce_saved ce) m (cs_proxy cs) = None"
    by (simp add: clientSwitch_def split: option.split)
  then show ?thesis using True by (simp add: patchInitialize_None)
qed (auto simp: clientSwitch_def Let_def split: prod.splits bool.splits)


lemma clientMessage_cases:
  assumes "clientMessage ce now m cs = Some cs'"
  obtains (taken) held where "m_id m \<noteq> None" and "interceptRequest ce m cs = (True, held)"
      and "cs' = cs\<lparr>cs_held := held\<rparr>"
    | (handled) cs1 where "clientSwitch ce now m cs = Some (None, cs1)" and "cs' = cs1"
    | (forwarded) m' cs1 where "clientSwitch ce now m cs = Some (Some m', cs1)"
      and "cs' = writeMessage m' (toWorkers ce m' cs1)"
proof (cases "(if m_id m \<noteq> None then interceptRequest ce m cs else (False, cs_held cs))")
  case (Pair b held)
  show ?thesis
  proof (cases b)
    case True
    then show ?thesis
      using assms Pair taken [of held] by (auto simp: clientMessage_def split: if_splits)
  next
    case False
    then have "held = cs_held cs"
      using Pair interceptRequest_keeps [of ce m cs b held] by (auto split: if_splits)
    then have same: "cs\<lparr>cs_held := held\<rparr> = cs" by simp
    show ?thesis
      using assms Pair False handled forwarded unfolding clientMessage_def Pair
      by (auto simp: same split: option.splits)
  qed
qed


text \<open>the pump stops on one message only. Each message of the editor is processed to the end,
  except \<open>initialize\<close> with the parameters \<open>null\<close>, on which the process panics.\<close>

theorem pump_panics_on_null_initialize:
  "clientMessage ce now m cs = None \<longleftrightarrow> m_method m = ''initialize'' \<and> m_params m = Some JNull"
proof (cases "(if m_id m \<noteq> None then interceptRequest ce m cs else (False, cs_held cs))")
  case (Pair b held)
  then have "b \<longrightarrow> m_method m \<noteq> ''initialize''"
    using interceptRequest_keeps [of ce m cs b held]
    by (auto simp: interceptClientRequest_def isCrossRef_def split: if_splits)
  then show ?thesis
    unfolding clientMessage_def Pair
    using clientSwitch_None [of ce now m "cs\<lparr>cs_held := held\<rparr>"]
    by (cases b) (auto split: option.splits)
qed

lemma clientMessage_docs:
  assumes "clientMessage ce now m cs = Some cs'"
  shows "cs_docs cs' = trackNote (env_hostOk (ce_env ce)) (ce_readInt ce)
    \<lparr>n_method = m_method m, n_params = m_params m\<rparr> (cs_docs cs)"
  using assms
proof (cases rule: clientMessage_cases)
  case (taken held)
  then have "interceptClientRequest (m_method m) \<noteq> NotTaken"
    using interceptRequest_keeps [OF taken(2)] by simp
  then show ?thesis
    using taken(3)
    by (auto simp: trackNote_def isOpen_def isChange_def isClose_def interceptClientRequest_def
        isCrossRef_def split: if_splits)
qed (simp_all add: clientSwitch_docs writeMessage_def toWorkers_def)


definition noteOf :: "message \<Rightarrow> bufferedNote" where
  "noteOf m = \<lparr>n_method = m_method m, n_params = m_params m\<rparr>"

definition docMethods :: "string list" where
  "docMethods = [''textDocument/didOpen'', ''textDocument/didChange'', ''textDocument/didClose'']"

lemma observe_frame [simp]:
  "p_root (observeOpen en now params p) = p_root p" "p_root (observeClose en now params p) = p_root p"
  by (simp_all add: observeOpen_def observeClose_def Let_def split: option.split)

lemma clientMessage_doc:
  assumes "m_method m \<in> set docMethods"
  shows "\<exists>cs1. clientMessage ce now m cs = Some (writeMessage m (toWorkers ce m cs1)) \<and>
    cs_mod cs1 = cs_mod cs \<and> cs_pool cs1 = cs_pool cs \<and> p_root (cs_proxy cs1) = p_root (cs_proxy cs)"
proof -
  have "interceptRequest ce m cs = (False, cs_held cs)"
    using assms by (auto simp: interceptRequest_def docMethods_def interceptClientRequest_def isCrossRef_def)
  then have "clientMessage ce now m cs =
      (case clientSwitch ce now m cs of None \<Rightarrow> None | Some (None, cs1) \<Rightarrow> Some cs1
       | Some (Some m', cs1) \<Rightarrow> Some (writeMessage m' (toWorkers ce m' cs1)))"
    by (simp add: clientMessage_def)
  moreover obtain cs1 where "clientSwitch ce now m cs = Some (Some m, cs1)"
    and "cs_mod cs1 = cs_mod cs" and "cs_pool cs1 = cs_pool cs"
    and "p_root (cs_proxy cs1) = p_root (cs_proxy cs)"
    using assms by (auto simp: clientSwitch_def docMethods_def Let_def)
  ultimately show ?thesis by auto
qed

text \<open>the overlay is updated before anything reads it. A notification about a document
  changes the tracked documents first; the worker that is responsible for it observes it together
  with the documents so changed; and only then the unchanged message is the last one written to
  gopls.\<close>

theorem documents_before_workers:
  assumes "m_method m \<in> set docMethods"
  shows "\<exists>cs' before. clientMessage ce now m cs = Some cs' \<and>
    cs_docs cs' = trackNote (env_hostOk (ce_env ce)) (ce_readInt ce) (noteOf m) (cs_docs cs) \<and>
    cs_pool cs' = observeWorker (env_hostOk (ce_env ce)) (rootForPool ce cs) (p_root (cs_proxy cs))
      (gget (cs_docs cs')) (noteOf m) (cs_pool cs) \<and>
    hs_log (cs_held cs') = before @ [SentMsg m]"
proof -
  obtain cs1 where cs1: "clientMessage ce now m cs = Some (writeMessage m (toWorkers ce m cs1))"
    "cs_mod cs1 = cs_mod cs" "cs_pool cs1 = cs_pool cs" "p_root (cs_proxy cs1) = p_root (cs_proxy cs)"
    using clientMessage_doc [OF assms] by blast
  then show ?thesis
    using clientMessage_docs [OF cs1(1)]
    by (simp add: writeMessage_def toWorkers_def rootForPool_def noteOf_def)
qed

text \<open>C36: the overlay depends on the notifications about documents only. After any run of the
  pump, whatever requests, answers and file events were in between, the tracked documents are what
  these notifications alone give, in their order.\<close>

theorem pump_tracks_documents:
  assumes "clientRun ce ms cs = Some cs'"
  shows "cs_docs cs' = fold (trackNote (env_hostOk (ce_env ce)) (ce_readInt ce))
    (map noteOf (filter (\<lambda>m. m_method m \<in> set docMethods) (map snd ms))) (cs_docs cs)"
  using assms
proof (induction ms arbitrary: cs)
  case (Cons x ms)
  obtain now m where x: "x = (now, m)" by (cases x)
  then obtain cs1 where cs1: "clientMessage ce now m cs = Some cs1" "clientRun ce ms cs1 = Some cs'"
    using Cons.prems by (auto split: option.splits)
  have "trackNote hostOk readInt (noteOf m) d = d" if "m_method m \<notin> set docMethods" for hostOk readInt d
    using that
    by (simp add: trackNote_def isOpen_def isChange_def isClose_def docMethods_def noteOf_def)
  then show ?case
    using Cons.IH [OF cs1(2)] clientMessage_docs [OF cs1(1)] by (auto simp: x noteOf_def)
qed simp


section \<open>Witnesses\<close>

text \<open>An edit of the document for which a hover request is held.\<close>

definition exampleClient :: clientState where
  "exampleClient =
     \<lparr>cs_proxy = freshProxy, cs_docs = [], cs_held = exampleHeld, cs_mod = exampleModules,
      cs_pool = \<lparr>wp_main = newHandle '''', wp_subs = []\<rparr>, cs_cacheFile = '''', cs_started = [],
      cs_builds = []\<rparr>"

definition exampleClientEnv :: clientEnv where
  "exampleClientEnv =
     \<lparr>ce_env = exampleEnv, ce_readInt = (\<lambda>s. Some 1), ce_stat = worktreeFs, ce_saved = (\<lambda>r. None),
      ce_cacheFile = (\<lambda>r. ''''), ce_graph = (\<lambda>f. None), ce_workerWarm = False,
      ce_workerTTL = 60, ce_loaded = (\<lambda>ps dir flags b. b = ''G'')\<rparr>"

definition exampleEdit :: message where
  "exampleEdit = exampleHover\<lparr>m_id := None, m_method := ''textDocument/didChange''\<rparr>"

definition exampleOpenNote :: message where
  "exampleOpenNote =
     \<lparr>m_id = None, m_method = ''textDocument/didOpen'',
      m_params = Some (JObj [(''textDocument'', JObj [(''uri'', JStr ''file:///ws/a/x.go''),
        (''languageId'', JStr ''go''), (''version'', JNum ''1''), (''text'', JStr ''package a'')])]),
      m_result = None, m_error = None\<rparr>"

lemma exampleEdit_doc: "m_method exampleEdit \<in> set docMethods"
  by (simp add: exampleEdit_def docMethods_def)


theorem documents_before_workers_witness:
  "\<exists>cs' before. clientMessage exampleClientEnv 0 exampleEdit exampleClient = Some cs' \<and>
     hs_log (cs_held cs') = before @ [SentMsg exampleEdit]"
  using documents_before_workers [OF exampleEdit_doc] by blast

theorem pump_tracks_documents_witness:
  "\<exists>cs'. clientRun exampleClientEnv [(0, exampleOpenNote), (1, exampleEdit)] exampleClient = Some cs' \<and>
     cs_docs cs' = fold (trackNote (\<lambda>h. False) (\<lambda>s. Some 1)) [noteOf exampleOpenNote, noteOf exampleEdit] []"
proof -
  have "m_method exampleOpenNote \<in> set docMethods"
    by (simp add: exampleOpenNote_def docMethods_def)
  then obtain cs1 where cs1: "clientMessage exampleClientEnv 0 exampleOpenNote exampleClient = Some cs1"
    using clientMessage_doc by blast
  obtain cs2 where cs2: "clientMessage exampleClientEnv 1 exampleEdit cs1 = Some cs2"
    using clientMessage_doc [OF exampleEdit_doc] by blast
  have run: "clientRun exampleClientEnv [(0, exampleOpenNote), (1, exampleEdit)] exampleClient = Some cs2"
    by (simp add: cs1 cs2)
  have "filter (\<lambda>m. m_method m \<in> set docMethods) (map snd [(0::int, exampleOpenNote), (1, exampleEdit)]) =
      [exampleOpenNote, exampleEdit]"
    using \<open>m_method exampleOpenNote \<in> _\<close> exampleEdit_doc by simp
  note r = pump_tracks_documents [OF run, unfolded this]
  have "cs_docs exampleClient = []" "env_hostOk (ce_env exampleClientEnv) = (\<lambda>h. False)"
    "ce_readInt exampleClientEnv = (\<lambda>s. Some 1)"
    by (simp_all add: exampleClient_def exampleClientEnv_def exampleEnv_def)
  then show ?thesis using run r by (simp only: list.map) blast
qed

end
