(* ===== verification/CrossRef.thy ===== *)
theory CrossRef
  imports Dispatch
begin

text \<open>
  A cross-reference request from its interception to its answer (\<open>resolve.go\<close>, \<open>worker.go\<close>):
  what the goroutine of \<open>interceptCrossRef\<close> writes to gopls and to the editor, for every decision
  of \<open>resolveAndExpand\<close>, every end of the worker's query and every moment at which the waits end.
\<close>

section \<open>The query of a worker\<close>

text \<open>
  \<open>workerHandle.request\<close>: \<open>acquired\<close> is the generation \<open>acquire\<close> gave, \<open>loaded\<close> whether the ready channel
  was closed within the budget, \<open>h\<close> the handle at that moment and \<open>resp\<close> what the client's waiter
  got. The second component is the text of the error.
\<close>

definition workerRequest ::
  "nat option \<Rightarrow> bool \<Rightarrow> workerHandle \<Rightarrow> message option \<Rightarrow> workerResult" where
  "workerRequest acquired loaded h resp =
     (case acquired of
        None \<Rightarrow> WErr
      | Some gen \<Rightarrow>
          if \<not> loaded then WErr
          else (case requestAfterReady gen h of
                  AskClient c \<Rightarrow>
                    (case resp of None \<Rightarrow> WErr | Some m \<Rightarrow> WReply (m_error m) (m_result m))
                | _ \<Rightarrow> WErr))"

section \<open>What is written\<close>

type_synonym session = "clientState \<times> ownState"

definition forwardHeld :: "message \<Rightarrow> session \<Rightarrow> session" where
  "forwardHeld held s = (writeMessage held (fst s), snd s)"

text \<open>
  The reactions of \<open>serveViaWorker\<close> and \<open>handleWorkerError\<close>. A result that is absent is
  marshalled as \<open>null\<close>.
\<close>

definition react :: "message \<Rightarrow> string \<Rightarrow> reaction \<Rightarrow> session \<Rightarrow> session" where
  "react held err r s =
     (case r of
        ReplyResult res \<Rightarrow>
          (fst s, respond (m_id held) (case res of None \<Rightarrow> JNull | Some j \<Rightarrow> j) (snd s))
      | ReplyError e \<Rightarrow> (fst s, respondError (m_id held) e (snd s))
      | RetryLater \<Rightarrow>
          (fst s, respondError (m_id held) (requestFailedError
             (''gopls-lazy: whole-workspace index unavailable ('' @ err @ ''); retry shortly'')) (snd s))
      | WarnAndForward \<Rightarrow>
          forwardHeld held
            (fst s, showMessage ''2''
               (''gopls-lazy: '' @ m_method held @ '' results may be incomplete: '' @ err) (snd s))
      | JustForward \<Rightarrow> forwardHeld held s)"

definition loadingText :: "string \<Rightarrow> string" where
  "loadingText modRoot =
     (if modRoot = '''' then ''gopls-lazy: loading the whole workspace for ''
      else ''gopls-lazy: loading module '' @ modRoot @ '' for '') @
     ''implementation/references; the first query may take minutes''"

text \<open>\<open>serveViaWorker\<close>; \<open>result\<close> and \<open>err\<close> are what the query ends with.\<close>

definition serveRequest :: "string \<Rightarrow> message \<Rightarrow> workerResult \<Rightarrow> string \<Rightarrow> session \<Rightarrow> session" where
  "serveRequest modRoot held result err s =
     (let (cs, ow) = s;
          (h, pool1) = workerFor modRoot (cs_pool cs)
      in if m_id held = None then forwardHeld held (cs\<lparr>cs_pool := pool1\<rparr>, ow)
         else
           let (warn, h1) = shouldWarnLoading h;
               cs1 = cs\<lparr>cs_pool := storeHandle modRoot h1 pool1\<rparr>;
               ow1 = (if warn then showMessage ''3'' (loadingText modRoot) ow else ow)
           in react held err (serveViaWorker (m_method held) (Some held) result) (cs1, ow1))"

text \<open>
  \<open>publishUnitsAndForward\<close> up to its wait: the scope is extended and, if a unit was unpublished,
  gopls is told that its configuration changed. The wait may end either way; then the request
  is forwarded.
\<close>

definition publishUnitsLogged :: "int \<Rightarrow> string list \<Rightarrow> clientState \<Rightarrow> nat \<times> clientState" where
  "publishUnitsLogged now units cs =
     (let (needGen, p) = publishUnits now units (cs_proxy cs);
          new = drop (length (p_toServer (cs_proxy cs))) (p_toServer p)
      in (needGen, cs\<lparr>cs_proxy := p,
            cs_held := (cs_held cs)\<lparr>hs_log := hs_log (cs_held cs) @ map SentMsg new\<rparr>\<rparr>))"

definition answerCrossRef ::
  "int \<Rightarrow> message \<Rightarrow> workerResult \<Rightarrow> string \<Rightarrow> crossRef \<Rightarrow> session \<Rightarrow> session" where
  "answerCrossRef now held result err decision s =
     (case decision of
        ForwardAsIs \<Rightarrow> forwardHeld held s
      | ServeViaWorker modRoot \<Rightarrow> serveRequest modRoot held result err s
      | PublishAndForward units \<Rightarrow>
          forwardHeld held (snd (publishUnitsLogged now units (fst s)), snd s))"

text \<open>
  The goroutine from its start: it waits for the request's unit if that is pending (\<open>p0\<close> is the
  scope at that moment), asks gopls for the definition, again if the first answer was empty and it
  had waited, and decides. \<open>None\<close>: it panicked on the way; the deferred function recovers.
\<close>

definition decideCrossRef ::
  "proxyEnv \<Rightarrow> bool \<Rightarrow> (string \<Rightarrow> astNode option) \<Rightarrow> (string \<Rightarrow> revIndex option) \<Rightarrow> proxyState \<Rightarrow> string
   \<Rightarrow> string \<Rightarrow> int \<Rightarrow> (string \<times> int) option \<Rightarrow> (string \<times> int) option \<Rightarrow> crossRef option" where
  "decideCrossRef en panics parse idxOf p0 method uri line first second =
     (if panics then None
      else
        let root = p_root p0; reqPath = uriToPath (env_hostOk en) uri;
            waited = awaitsRequestUnit (unitFor (env_rootFor en) (env_granularity en) root reqPath) p0
        in Some (resolveAndExpand (env_rootFor en) (env_granularity en) parse idxOf root method reqPath line
             (resolveLocation waited first second)))"

definition runCrossRef ::
  "int \<Rightarrow> message \<Rightarrow> workerResult \<Rightarrow> string \<Rightarrow> crossRef option \<Rightarrow> session \<Rightarrow> session" where
  "runCrossRef now held result err decision s =
     (case decision of None \<Rightarrow> forwardHeld held s | Some d \<Rightarrow> answerCrossRef now held result err d s)"

section \<open>Lemmas\<close>

definition newToClient :: "session \<Rightarrow> session \<Rightarrow> message list" where
  "newToClient s s' = drop (length (ow_toClient (snd s))) (ow_toClient (snd s'))"

text \<open>The request went to gopls: nothing but the change of its configuration before it.\<close>

definition forwardedOnce :: "message \<Rightarrow> session \<Rightarrow> session \<Rightarrow> bool" where
  "forwardedOnce m s s' \<longleftrightarrow>
     (\<exists>pre. hs_log (cs_held (fst s')) = hs_log (cs_held (fst s)) @ pre @ [SentMsg m] \<and>
        set pre \<subseteq> {SentMsg didChangeConfiguration}) \<and>
     (\<forall>a \<in> set (newToClient s s'). m_id a = None)"

text \<open>The request was answered to the editor: nothing but notifications before the answer.\<close>

definition answeredOnce :: "message \<Rightarrow> session \<Rightarrow> session \<Rightarrow> bool" where
  "answeredOnce m s s' \<longleftrightarrow>
     hs_log (cs_held (fst s')) = hs_log (cs_held (fst s)) \<and>
     (\<exists>notes a. newToClient s s' = notes @ [a] \<and> (\<forall>n \<in> set notes. m_id n = None) \<and>
        m_id a = m_id m \<and> m_method a = '''' \<and> (m_result a = None) \<noteq> (m_error a = None))"

lemma publishUnits_writes:
  "p_toServer (snd (publishUnits now units p)) = p_toServer p \<or>
   p_toServer (snd (publishUnits now units p)) = p_toServer p @ [didChangeConfiguration]"
proof -
  have "p_toServer (snd (ensureUnitsLocked now units p)) = p_toServer p"
    by (simp add: ensureUnitsLocked_def split: prod.split)
  then show ?thesis by (auto simp: publishUnits_def pushScope_def case_prod_unfold Let_def)
qed

lemma react_fate:
  assumes "m_id held = Some i"
  shows "case r of
      JustForward \<Rightarrow> forwardedOnce held s (react held err r s)
    | WarnAndForward \<Rightarrow> forwardedOnce held s (react held err r s)
    | _ \<Rightarrow> answeredOnce held s (react held err r s)"
  using assms
  by (cases r)
    (auto simp: react_def forwardedOnce_def answeredOnce_def newToClient_def forwardHeld_def
      writeMessage_def respond_def respondError_def showMessage_def toClient_def)


lemma serve_fate:
  assumes "m_id held = Some i"
  shows "forwardedOnce held s (serveRequest modRoot held result err s) \<or>
    answeredOnce held s (serveRequest modRoot held result err s)"
    and "m_method held = ''textDocument/rename'' \<Longrightarrow>
      answeredOnce held s (serveRequest modRoot held result err s)"
proof -
  obtain cs ow where s: "s = (cs, ow)" by (cases s)
  obtain h pool1 where w: "workerFor modRoot (cs_pool cs) = (h, pool1)"
    by (cases "workerFor modRoot (cs_pool cs)")
  obtain warn h1 where l: "shouldWarnLoading h = (warn, h1)" by (cases "shouldWarnLoading h")
  let ?s1 = "(cs\<lparr>cs_pool := storeHandle modRoot h1 pool1\<rparr>,
    if warn then showMessage ''3'' (loadingText modRoot) ow else ow)"
  let ?r = "serveViaWorker (m_method held) (Some held) result"
  have eq: "serveRequest modRoot held result err s = react held err ?r ?s1"
    by (simp add: serveRequest_def s w l assms)
  have start: "forwardedOnce held ?s1 s' \<Longrightarrow> forwardedOnce held s s'"
    "answeredOnce held ?s1 s' \<Longrightarrow> answeredOnce held s s'"
    if "\<exists>new. ow_toClient (snd s') = ow_toClient (snd ?s1) @ new" for s'
    using that
    by (cases warn; auto simp: s forwardedOnce_def answeredOnce_def newToClient_def showMessage_def
        toClient_def Cons_eq_append_conv)+
  have grows: "\<exists>new. ow_toClient (snd (react held err r s0)) = ow_toClient (snd s0) @ new" for r s0
    by (cases r) (simp_all add: react_def forwardHeld_def respond_def respondError_def
        showMessage_def toClient_def)
  show "forwardedOnce held s (serveRequest modRoot held result err s) \<or>
      answeredOnce held s (serveRequest modRoot held result err s)"
    unfolding eq using react_fate [OF assms, where r = ?r and s = ?s1 and err = err] start [OF grows]
    by (cases ?r) auto
  show "answeredOnce held s (serveRequest modRoot held result err s)"
    if "m_method held = ''textDocument/rename''"
  proof -
    have "?r \<notin> {WarnAndForward, JustForward}"
      using assms that by (cases result)
        (auto simp: serveViaWorker_def handleWorkerError_def split: option.split)
    then show ?thesis
      unfolding eq using react_fate [OF assms, where r = ?r and s = ?s1 and err = err] start [OF grows]
      by (cases ?r) auto
  qed
qed

section \<open>Properties\<close>

text \<open>C8: every cross reference is answered once. Whatever is decided, whether or not the waits
  succeed and however the worker's query ends, a request that was taken over is either forwarded
  to gopls once, after at most the announcement of a wider scope, or answered to the editor once
  with its id and with a result or an error, and never both; a rename that was sent to a worker is
  always answered and never forwarded to the narrow scope. A panic before the decision is
  recovered from: the request is forwarded then.\<close>

theorem crossref_answered_once:
  assumes "m_id held = Some i"
  shows "forwardedOnce held s (runCrossRef now held result err decision s) \<noteq>
      answeredOnce held s (runCrossRef now held result err decision s) \<and>
    (m_method held = ''textDocument/rename'' \<and> (\<exists>r. decision = Some (ServeViaWorker r)) \<longrightarrow>
      answeredOnce held s (runCrossRef now held result err decision s))"
proof -
  let ?s' = "runCrossRef now held result err decision s"
  have excl: "\<not> (forwardedOnce held s ?s' \<and> answeredOnce held s ?s')"
    using assms by (auto simp: forwardedOnce_def answeredOnce_def)
  have "forwardedOnce held s (forwardHeld held s)"
    by (simp add: forwardedOnce_def forwardHeld_def writeMessage_def newToClient_def)
  moreover have "forwardedOnce held s
      (forwardHeld held (snd (publishUnitsLogged now units (fst s)), snd s))" for units
    using publishUnits_writes [of now units "cs_proxy (fst s)"]
    by (auto simp: forwardedOnce_def forwardHeld_def writeMessage_def newToClient_def
        publishUnitsLogged_def case_prod_unfold Let_def)
  ultimately have "forwardedOnce held s ?s' \<or> answeredOnce held s ?s'"
    using serve_fate(1) [OF assms]
    by (auto simp: runCrossRef_def answerCrossRef_def split: option.split crossRef.split)
  moreover have "answeredOnce held s ?s'"
    if "m_method held = ''textDocument/rename''" and "decision = Some (ServeViaWorker r)" for r
    using serve_fate(2) [OF assms that(1)] that(2) by (simp add: runCrossRef_def answerCrossRef_def)
  ultimately show ?thesis using excl by blast
qed

definition exampleRename :: message where
  "exampleRename = exampleHover\<lparr>m_method := ''textDocument/rename''\<rparr>"

theorem crossref_answered_once_witness:
  "answeredOnce exampleRename (exampleClient, freshOwn)
     (runCrossRef 0 exampleRename WErr ''lost'' (Some (ServeViaWorker '''')) (exampleClient, freshOwn))"
  using crossref_answered_once [of exampleRename "JNum ''3''" "(exampleClient, freshOwn)" 0 WErr
      "''lost''" "Some (ServeViaWorker '''')"]
  by (simp add: exampleRename_def exampleHover_def)

text \<open>a rename can still be partial. The comment of \<open>serveViaWorker\<close> says a rename must not
  return silently partial results, but a rename of anything but a method whose index is not ready
  is forwarded as it is, whatever gopls has loaded.\<close>

theorem truncated_rename_forwarded:
  assumes "filepathRel root (filepathDir reqPath) = Some rel" and "\<not> hasPrefix rel ''..''"
    and "\<not> isMethodDecl parse reqPath (line + 1)" and "idxOf (rootFor (filepathDir reqPath) root) = None"
  shows "answerCrossRef now held result err
      (resolveAndExpand rootFor granularity parse idxOf root ''textDocument/rename'' reqPath line None) s =
    forwardHeld held s"
  using assms by (simp add: resolveAndExpand_def answerCrossRef_def)

theorem truncated_rename_forwarded_witness:
  "answerCrossRef 0 exampleRename WErr '''' (resolveAndExpand (\<lambda>d r. '''') 3 (\<lambda>p. None) (\<lambda>m. None) ''/ws''
      ''textDocument/rename'' ''/ws/a/x.go'' 0 None) (exampleClient, freshOwn) =
    forwardHeld exampleRename (exampleClient, freshOwn)"
proof (rule truncated_rename_forwarded)
  show "filepathRel ''/ws'' (filepathDir ''/ws/a/x.go'') = Some ''a''" by code_simp
  show "\<not> isMethodDecl (\<lambda>p. None) ''/ws/a/x.go'' (0 + 1)" by (simp add: isMethodDecl_def)
qed simp_all

text \<open>a query of a restarted worker is not answered by its successor. The generation that
  \<open>acquire\<close> returned is the one that is asked; when the worker was replaced during the load, or
  its initialisation failed, the query ends with an error whatever any client has received.\<close>

theorem request_keeps_generation:
  "workerRequest acquired loaded h resp = WReply e r \<longleftrightarrow>
     (\<exists>gen m. acquired = Some gen \<and> loaded \<and> wh_gen h = gen \<and> \<not> wh_initErr h \<and>
        resp = Some m \<and> e = m_error m \<and> r = m_result m)"
  by (auto simp: workerRequest_def requestAfterReady_def split: option.splits)

end
