(* ===== verification/Session.thy ===== *)
theory Session
  imports CrossRef
begin

text \<open>
  The proxy of a running session: the editor's pump, gopls's pump, the timers and the goroutines
  of held and taken-over requests, interleaved. Each component has a step relation of its own
  (\<open>Barrier\<close>, \<open>HeldReqs\<close>, \<open>Dispatch\<close>); here they are run together on the state the
  operations share, every run of the whole is a run of each component, and what they
  guarantee one by one is combined into what gopls sees in its input.
\<close>

section \<open>Simulation\<close>

text \<open>A step of the whole is a run of the part that \<open>abs\<close> selects.\<close>

locale simulation =
  fixes cstep :: "'c \<Rightarrow> 'c \<Rightarrow> bool" and astep :: "'a \<Rightarrow> 'a \<Rightarrow> bool" and abs :: "'c \<Rightarrow> 'a"
  assumes simulates: "cstep c c' \<Longrightarrow> astep\<^sup>*\<^sup>* (abs c) (abs c')"
begin

lemma run: "cstep\<^sup>*\<^sup>* c c' \<Longrightarrow> astep\<^sup>*\<^sup>* (abs c) (abs c')"
  by (induction rule: rtranclp_induct) (auto intro: rtranclp_trans simulates)

end

section \<open>Steps of the session\<close>

type_synonym sess = "clientState \<times> ownState \<times> clientPc"

text \<open>A new state of the scope whose writes are written to gopls.\<close>

definition loggedProxy :: "proxyState \<Rightarrow> clientState \<Rightarrow> clientState" where
  "loggedProxy p cs =
     cs\<lparr>cs_proxy := p,
        cs_held := (cs_held cs)\<lparr>hs_log := hs_log (cs_held cs) @
          map SentMsg (drop (length (p_toServer (cs_proxy cs))) (p_toServer p))\<rparr>\<rparr>"

definition pullAnswer :: "clientState \<Rightarrow> message \<Rightarrow> bool" where
  "pullAnswer cs m \<longleftrightarrow> m_method m = '''' \<and> (\<exists>i \<in> p_configIDs (cs_proxy cs). m_id m = Some i)"

text \<open>
  \<open>e_\<close>: the editor's pump. It handles one message after the other; the answer to a pull of settings
  passes through the points of \<open>clientPc\<close>, any other message is one step. An answer of the editor
  to anything else is not taken for settings (\<open>sentFilters\<close>). \<open>g_\<close>: gopls's pump. \<open>t_\<close>: timers.
  \<open>h_\<close>: the waiter of a held request, after its unit was applied or after its time-out. \<open>x_\<close>: the
  goroutines of taken-over requests and of file events, and the workers: an operation of the worker
  of a module (\<open>handleStep\<close>), whose environment is \<open>sessWorker\<close>, the creation of its handle, and the
  end of the building of an index (its value is the subject of \<open>IndexBuild\<close>). \<open>d_\<close>: the graph server: a
  query of gopls's driver, what else happens to the main slot (\<open>gstep\<close>), and to a nested one.
\<close>

definition sessWorker :: "clientEnv \<Rightarrow> string \<Rightarrow> string \<Rightarrow> workerEnv" where
  "sessWorker ce pRoot root =
     \<lparr>we_hostOk = env_hostOk (ce_env ce), we_readInt = ce_readInt ce,
      we_mine = (\<lambda>u. ownerOf (env_hostOk (ce_env ce)) (Some (nestedModuleRoot (ce_stat ce))) pRoot u = root),
      we_pRoot = pRoot, we_ttl = ce_workerTTL ce\<rparr>"

text \<open>
  A query of gopls's driver, answered by the graph server, with the build it starts; a query of a
  nested module creates the index of the module (\<open>subslotFor\<close>).
\<close>

definition sessIdx :: "parser \<Rightarrow> modState \<Rightarrow> string \<Rightarrow> (string \<Rightarrow> string \<Rightarrow> bool) option" where
  "sessIdx parseImportsOnly md modRoot =
     Some (\<lambda>path content. SameImports parseImportsOnly path content (fst (indexFor modRoot md)))"

definition graphAnswered :: "dispatched \<Rightarrow> graphServer \<Rightarrow> clientState \<Rightarrow> clientState" where
  "graphAnswered r g cs =
     (case r of
        FromMain a job \<Rightarrow>
          cs\<lparr>cs_mod := (cs_mod cs)\<lparr>md_graph := Some g\<rparr>, cs_builds := cs_builds cs @ optJob job\<rparr>
      | FromNested modRoot outcome \<Rightarrow>
          cs\<lparr>cs_mod := (snd (indexFor modRoot (cs_mod cs)))\<lparr>md_graph := Some g\<rparr>\<rparr>)"

lemma graphAnswered_frame [simp]:
  "cs_proxy (graphAnswered r g cs) = cs_proxy cs" "cs_held (graphAnswered r g cs) = cs_held cs"
  "cs_docs (graphAnswered r g cs) = cs_docs cs" "cs_pool (graphAnswered r g cs) = cs_pool cs"
  "md_graph (cs_mod (graphAnswered r g cs)) = Some g"
  by (simp_all add: graphAnswered_def split: dispatched.split)

text \<open>The builds, timers and footprints of the slot of a nested module.\<close>

inductive subslotStep :: "string \<Rightarrow> graphSlot \<Rightarrow> graphSlot \<Rightarrow> bool" for modRoot where
  ss_timer: "sl_timer slot \<Longrightarrow> subslotStep modRoot slot (snd (staleTimer slot))"
| ss_finish: "sl_building slot \<Longrightarrow> subslotStep modRoot slot (finishBuild (nestedJob modRoot flags) result slot)"
| ss_embed: "subslotStep modRoot slot (storeEmbedSlot files prefixSet slot)"

inductive sessStep :: "clientEnv \<Rightarrow> bool \<Rightarrow> sess \<Rightarrow> sess \<Rightarrow> bool" for ce strict where
  e_message: "clientMessage ce now m cs = Some cs' \<Longrightarrow> m_method m \<noteq> ''initialize'' \<Longrightarrow>
    \<not> pullAnswer cs m \<Longrightarrow> sentFilters m = None \<Longrightarrow>
    sessStep ce strict (cs, ow, PcIdle) (cs', ow, PcIdle)"
| e_take: "pullAnswer cs m \<Longrightarrow> m_id m = Some i \<Longrightarrow> takeConfigID i (cs_proxy cs) = ((True, g), p) \<Longrightarrow>
    (strict \<longrightarrow> answersPull m) \<Longrightarrow>
    sessStep ce strict (cs, ow, PcIdle) (cs\<lparr>cs_proxy := p\<rparr>, ow, PcTaken m g)"
| e_store: "sessStep ce strict (cs, ow, PcTaken m g)
    (cs\<lparr>cs_proxy := storeWorkerConfig m (cs_proxy cs)\<rparr>, ow, PcStored m g)"
| e_patch: "sessStep ce strict (cs, ow, PcStored m g)
    (cs, ow, PcPatched (patchedResponse (filtersLocked (cs_proxy cs)) m) g)"
| e_write: "sessStep ce strict (cs, ow, PcPatched m g)
    (loggedProxy (writeServer m (cs_proxy cs)) cs, ow, PcWritten g)"
| e_advance: "sessStep ce strict (cs, ow, PcWritten g)
    (cs\<lparr>cs_proxy := advanceAppliedLocked g (cs_proxy cs),
        cs_pool := broadcastObserve (gget (cs_docs cs)) configNote (cs_pool cs)\<rparr>, ow, PcIdle)"
| g_message: "serverMessage m (cs_proxy cs, ow) = (p, ow') \<Longrightarrow>
    sessStep ce strict (cs, ow, pc) (cs\<lparr>cs_proxy := p\<rparr>, ow', pc)"
| t_rescope: "p_rescopeTimer (cs_proxy cs) \<Longrightarrow>
    sessStep ce strict (cs, ow, pc) (loggedProxy (rescopeFires (cs_proxy cs)) cs, ow, pc)"
| t_diag: "sessStep ce strict (cs, ow, pc) (cs\<lparr>cs_proxy := diagArrived uri (cs_proxy cs)\<rparr>, ow, pc)"
| t_evict: "sessStep ce strict (cs, ow, pc)
    (loggedProxy (evictIdleUnits ttl now (cs_proxy cs)) cs, ow, pc)"
| t_modules: "sessStep ce strict (cs, ow, pc)
    (cs\<lparr>cs_mod := evictIdleModules (gkeys (p_scope (cs_proxy cs)))
       (map (uriToPath (env_hostOk (ce_env ce))) (gkeys (cs_docs cs))) (cs_mod cs)\<rparr>, ow, pc)"
| t_fallback: "g \<le> p_scopeGen (cs_proxy cs) \<Longrightarrow>
    (strict \<longrightarrow> p_appliedGen (snd (fallbackTick g d r (cs_proxy cs))) = p_appliedGen (cs_proxy cs)) \<Longrightarrow>
    sessStep ce strict (cs, ow, pc) (cs\<lparr>cs_proxy := snd (fallbackTick g d r (cs_proxy cs))\<rparr>, ow, pc)"
| h_done: "h < length (hs_reqs (cs_held cs)) \<Longrightarrow>
    unitForURI (ce_env ce) (hr_uri (hs_reqs (cs_held cs) ! h)) (cs_proxy cs) = Some u \<Longrightarrow>
    unitDone u (cs_proxy cs) \<Longrightarrow>
    sessStep ce strict (cs, ow, pc) (cs\<lparr>cs_held := forward h (cs_held cs)\<rparr>, ow, pc)"
| h_late: "h < length (hs_reqs (cs_held cs)) \<Longrightarrow>
    sessStep ce strict (cs, ow, pc) (cs\<lparr>cs_held := forward h (cs_held cs)\<rparr>, ow, pc)"
| h_drop: "h < length (hs_reqs (cs_held cs)) \<Longrightarrow> hr_once (hs_reqs (cs_held cs) ! h) \<Longrightarrow>
    sessStep ce strict (cs, ow, pc)
      (cs\<lparr>cs_held := unregisterHeldDef (hr_uri (hs_reqs (cs_held cs) ! h)) h (cs_held cs)\<rparr>, ow, pc)"
| x_ensure: "sessStep ce strict (cs, ow, pc)
    (cs\<lparr>cs_proxy := snd (ensureUnitsLocked now us (cs_proxy cs))\<rparr>, ow, pc)"
| x_push: "sessStep ce strict (cs, ow, pc) (loggedProxy (snd (pushScope (cs_proxy cs))) cs, ow, pc)"
| x_wait: "sessStep ce strict (cs, ow, pc)
    (cs\<lparr>cs_proxy := snd (appliedChLocked (cs_proxy cs))\<rparr>, ow, pc)"
| x_forward: "m_method m \<notin> {'''', ''initialize''} \<Longrightarrow>
    sessStep ce strict (cs, ow, pc) (writeMessage m cs, ow, pc)"
| x_answer: "sessStep ce strict (cs, ow, pc) (cs, toClient m ow, pc)"
| x_ask: "sessStep ce strict (cs, ow, pc) (cs, snd (askDefinition uri line char ow), pc)"
| x_timeout: "k < ow_seq ow \<Longrightarrow> sessStep ce strict (cs, ow, pc) (cs, askTimeout (ownId (Suc k)) ow, pc)"
| x_index: "sessStep ce strict (cs, ow, pc)
    (cs\<lparr>cs_mod := updateFileInIndex (ce_stat ce) parseFull path content (cs_mod cs)\<rparr>, ow, pc)"
| x_indexed: "sessStep ce strict (cs, ow, pc) (cs\<lparr>cs_mod := storeIndex modRoot ri (cs_mod cs)\<rparr>, ow, pc)"
| d_query: "md_graph (cs_mod cs) = Some g \<Longrightarrow> queryOk (q_patterns q) (q_buildFlags q) \<Longrightarrow>
    answerQuery (rootForOf (ce_stat ce) (cs_mod cs)) (sessIdx parseImportsOnly (cs_mod cs)) (Some q) g = (r, g') \<Longrightarrow>
    sessStep ce strict (cs, ow, pc) (graphAnswered r g' cs, ow, pc)"
| d_build: "md_graph (cs_mod cs) = Some g \<Longrightarrow>
    gstep (ce_loaded ce) (gs_main g, cs_builds cs) (slot, jobs) \<Longrightarrow>
    sessStep ce strict (cs, ow, pc)
      (cs\<lparr>cs_mod := (cs_mod cs)\<lparr>md_graph := Some (g\<lparr>gs_main := slot\<rparr>)\<rparr>, cs_builds := jobs\<rparr>, ow, pc)"
| d_subslot: "md_graph (cs_mod cs) = Some g \<Longrightarrow> gget (gs_subslots g) modRoot = Some slot \<Longrightarrow>
    subslotStep modRoot slot slot' \<Longrightarrow>
    sessStep ce strict (cs, ow, pc)
      (cs\<lparr>cs_mod := (cs_mod cs)\<lparr>md_graph := Some (g\<lparr>gs_subslots := gput modRoot slot' (gs_subslots g)\<rparr>)\<rparr>\<rparr>,
       ow, pc)"
| x_worker: "handleStep (sessWorker ce (p_root (cs_proxy cs)) root) (cs_docs cs) (handleOf root (cs_pool cs)) h \<Longrightarrow>
    sessStep ce strict (cs, ow, pc)
      (cs\<lparr>cs_pool := storeHandle root h (snd (workerFor root (cs_pool cs)))\<rparr>, ow, pc)"
| x_create: "sessStep ce strict (cs, ow, pc) (cs\<lparr>cs_pool := snd (workerFor root (cs_pool cs))\<rparr>, ow, pc)"

text \<open>A session starts with the \<open>initialize\<close> request.\<close>

inductive sessStart :: "clientEnv \<Rightarrow> sess \<Rightarrow> bool" for ce where
  sess_start: "m_method m = ''initialize'' \<Longrightarrow> m_params m = Some (JObj params) \<Longrightarrow>
    cs_proxy cs0 = freshProxy \<Longrightarrow> cs_held cs0 = noHeld \<Longrightarrow> cs_docs cs0 = [] \<Longrightarrow>
    cs_pool cs0 = \<lparr>wp_main = newHandle '''', wp_subs = []\<rparr> \<Longrightarrow>
    md_modRoots (cs_mod cs0) = Some emptyCache \<Longrightarrow> cs_builds cs0 = [] \<Longrightarrow>
    md_graph (cs_mod cs0) \<in> {None, Some \<lparr>gs_root = '''', gs_main = emptySlot, gs_subslots = []\<rparr>} \<Longrightarrow>
    clientMessage ce now m cs0 = Some cs \<Longrightarrow> sessStart ce (cs, freshOwn, PcIdle)"

inductive sessReachable :: "clientEnv \<Rightarrow> bool \<Rightarrow> sess \<Rightarrow> bool" for ce strict where
  sess_reach: "sessStart ce s \<Longrightarrow> (sessStep ce strict)\<^sup>*\<^sup>* s s' \<Longrightarrow> sessReachable ce strict s'"

section \<open>What is written to gopls\<close>

text \<open>The messages of a log without the held requests.\<close>

primrec sentMsgs :: "sent list \<Rightarrow> message list" where
  "sentMsgs [] = []"
| "sentMsgs (x # l) = (case x of SentHeld h \<Rightarrow> sentMsgs l | SentMsg m \<Rightarrow> m # sentMsgs l)"

lemma sentMsgs_append [simp]: "sentMsgs (l @ k) = sentMsgs l @ sentMsgs k"
  by (induction l) (auto split: sent.split)

lemma sentMsgs_map [simp]: "sentMsgs (map SentMsg ms) = ms" "sentMsgs (map SentHeld hs) = []"
  by (induction ms) (simp_all, induction hs, simp_all)

text \<open>Operations of the scope only append to what is written.\<close>

definition extends :: "proxyState \<Rightarrow> proxyState \<Rightarrow> bool" where
  "extends p p' \<longleftrightarrow> (\<exists>ws. p_toServer p' = p_toServer p @ ws)"

lemma extends_write: "extends p (writeServer m p)"
  by (simp add: extends_def writeServer_def)

lemma extends_push: "extends p (snd (pushScope p))"
  by (simp add: extends_def pushScope_def writeServer_def Let_def)

lemma extends_rescope: "extends p (rescopeFires p)"
  using extends_push [of "p\<lparr>p_rescopeTimer := False\<rparr>"] by (simp add: extends_def rescopeFires_def)

lemma extends_evict: "extends p (evictIdleUnits ttl now p)"
  using extends_push [of "p\<lparr>p_scope := s\<rparr>" for s]
  by (auto simp: extends_def evictIdleUnits_def Let_def)

lemmas extends_ops = extends_write extends_push extends_rescope extends_evict

text \<open>The two records of what was written agree.\<close>

definition log_ok :: "clientState \<Rightarrow> bool" where
  "log_ok cs \<longleftrightarrow> sentMsgs (hs_log (cs_held cs)) = p_toServer (cs_proxy cs)"

lemma log_ok_logged: "log_ok cs \<Longrightarrow> extends (cs_proxy cs) p \<Longrightarrow> log_ok (loggedProxy p cs)"
  by (auto simp: log_ok_def extends_def loggedProxy_def)

lemma log_ok_proxy: "log_ok cs \<Longrightarrow> p_toServer p = p_toServer (cs_proxy cs) \<Longrightarrow> log_ok (cs\<lparr>cs_proxy := p\<rparr>)"
  by (simp add: log_ok_def)

lemma log_ok_held:
  "log_ok cs \<Longrightarrow> sentMsgs (hs_log hs) = sentMsgs (hs_log (cs_held cs)) \<Longrightarrow> log_ok (cs\<lparr>cs_held := hs\<rparr>)"
  by (simp add: log_ok_def)

lemma log_ok_write: "log_ok cs \<Longrightarrow> log_ok (writeMessage m cs)"
  by (simp add: log_ok_def writeMessage_def writeServer_def)

lemma sentMsgs_forward [simp]: "sentMsgs (hs_log (forward h hs)) = sentMsgs (hs_log hs)"
  by (simp add: forward_def)

lemma unregister_log [simp]: "hs_log (unregisterHeldDef uri h hs) = hs_log hs"
  by (simp add: unregisterHeldDef_def Let_def)

lemma sentMsgs_release [simp]: "sentMsgs (hs_log (releaseHeldDefs uri hs)) = sentMsgs (hs_log hs)"
  using releaseHeldDefs_log [of uri hs] by auto

lemma toServer_frames [simp]:
  "p_toServer (observeOpen en now params p) = p_toServer p"
  "p_toServer (observeClose en now params p) = p_toServer p"
  "p_toServer (storeWorkerConfig m p) = p_toServer p"
  "p_toServer (diagArrived uri p) = p_toServer p"
  "p_toServer (handleServerNotification n p) = p_toServer p"
  "p_toServer (snd (ensureUnitsLocked now us p)) = p_toServer p"
  "p_toServer (snd (appliedChLocked p)) = p_toServer p"
  "p_toServer (snd (fallbackTick g d r p)) = p_toServer p"
  by (auto simp: observeOpen_def observeClose_def storeWorkerConfig_def diagArrived_def
      handleServerNotification_def onDiagnostics_def ensureUnitsLocked_def appliedChLocked_def
      fallbackTick_def Let_def split: option.split json.split prod.split)

section \<open>One message of the editor\<close>

lemma watched_proxy [simp]: "cs_proxy (observeWatchedFiles ce params cs) = cs_proxy cs"
proof -
  have "cs_proxy (foldl (\<lambda>cs uri. fileEvent ce uri cs) cs us) = cs_proxy cs" for us
    by (induction us arbitrary: cs) (simp_all add: fileEvent_def Let_def split: prod.split)
  then show ?thesis by (simp add: observeWatchedFiles_def)
qed

lemma fileEvent_proxy [simp]: "cs_proxy (fileEvent ce uri cs) = cs_proxy cs"
  by (simp add: fileEvent_def Let_def split: prod.split)

lemmas step_run = r_into_rtranclp [of "step en strict" for en strict]

text \<open>Published units stay, and keep their generation.\<close>

definition stays :: "proxyState \<Rightarrow> proxyState \<Rightarrow> bool" where
  "stays p p' \<longleftrightarrow>
     (\<forall>u e. gget (p_scope p) u = Some e \<longrightarrow> 0 < e_gen e \<longrightarrow>
        (\<exists>e'. gget (p_scope p') u = Some e' \<and> e_gen e' = e_gen e))"

lemma stays_scope: "p_scope p' = p_scope p \<Longrightarrow> stays p p'"
  by (simp add: stays_def)

lemma stays_open: "stays p (observeOpen en now params p)"
  by (auto simp: stays_def observeOpen_def Let_def split: option.split)

lemma stays_close: "stays p (observeClose en now params p)"
  by (auto simp: stays_def observeClose_def Let_def split: option.split)

lemma stays_push: "stays p (snd (pushScope p))"
  by (auto simp: stays_def pushScope_def writeServer_def Let_def)

lemma stays_rescope: "stays p (rescopeFires p)"
  using stays_push [of "p\<lparr>p_rescopeTimer := False\<rparr>"] by (simp add: stays_def rescopeFires_def)

lemma stays_ensure: "stays p (snd (ensureUnitsLocked now us p))"
  by (auto simp: stays_def split: option.split)

lemma scope_frames [simp]:
  "p_scope (storeWorkerConfig m p) = p_scope p"
  "p_scope (diagArrived uri p) = p_scope p"
  "p_scope (handleServerNotification n p) = p_scope p"
  "p_scope (snd (appliedChLocked p)) = p_scope p"
  "p_scope (advanceAppliedLocked g p) = p_scope p"
  "p_scope (snd (fallbackTick g d r p)) = p_scope p"
  "p_scope (snd (takeConfigID i p)) = p_scope p"
  by (auto simp: storeWorkerConfig_def diagArrived_def handleServerNotification_def onDiagnostics_def
      appliedChLocked_def advanceAppliedLocked_def fallbackTick_def takeConfigID_def Let_def
      split: option.split json.split)

lemma response_scope [simp]: "p_scope (snd (handleClientResponse n p)) = p_scope p"
proof (cases "m_id n")
  case (Some i)
  obtain b g q where t: "takeConfigID i p = ((b, g), q)" by (metis surj_pair)
  then have "p_scope q = p_scope p" using scope_frames(7) [of i p] by simp
  then show ?thesis
    by (simp add: handleClientResponse_def Some t patchConfigResponse_def writeServer_def Let_def)
qed (simp add: handleClientResponse_def)

lemma other_answer:
  assumes "m_method m = ''''" and "\<not> pullAnswer cs m"
  shows "fst (handleClientResponse m (cs_proxy cs)) = False \<and>
    (step en strict)\<^sup>*\<^sup>* (cs_proxy cs, PcIdle) (snd (handleClientResponse m (cs_proxy cs)), PcIdle) \<and>
    p_toServer (snd (handleClientResponse m (cs_proxy cs))) = p_toServer (cs_proxy cs)"
proof (cases "m_id m")
  case (Some i)
  obtain g p where t: "takeConfigID i (cs_proxy cs) = ((False, g), p)"
    using assms Some by (simp add: pullAnswer_def takeConfigID_def)
  have "step en strict (cs_proxy cs, PcIdle) (p, PcIdle)" by (rule s_other [OF Some t])
  moreover have "p_toServer p = p_toServer (cs_proxy cs)" using t by (auto simp: takeConfigID_def)
  ultimately show ?thesis by (auto simp: handleClientResponse_def Some t)
qed (simp add: handleClientResponse_def)

lemma clientSwitch_effect:
  assumes "clientSwitch ce now m cs = Some (fwd, cs1)" and "m_method m \<noteq> ''initialize''"
    and "\<not> pullAnswer cs m"
  shows "fwd = Some m \<and> (step (ce_env ce) strict)\<^sup>*\<^sup>* (cs_proxy cs, PcIdle) (cs_proxy cs1, PcIdle) \<and>
    p_toServer (cs_proxy cs1) = p_toServer (cs_proxy cs) \<and> stays (cs_proxy cs) (cs_proxy cs1) \<and>
    cs_held cs1 = (if m_method m = ''textDocument/didChange''
      then releaseHeldDefs (docURI (m_params m)) (cs_held cs) else cs_held cs)"
proof -
  consider (opened) "m_method m = ''textDocument/didOpen''" | (closed) "m_method m = ''textDocument/didClose''"
    | (answer) "m_method m = ''''"
    | (other) "m_method m \<notin> {''textDocument/didOpen'', ''textDocument/didClose'', ''''}" by blast
  then show ?thesis
  proof cases
    case opened
    then show ?thesis using assms(1) by (auto simp: clientSwitch_def Let_def intro!: step_run s_open stays_open)
  next
    case closed
    then show ?thesis using assms(1) by (auto simp: clientSwitch_def Let_def intro!: step_run s_close stays_close)
  next
    case answer
    from other_answer [OF this assms(3), of "ce_env ce" strict] answer assms(1)
      stays_scope [OF response_scope [where n = m and p = "cs_proxy cs"]] show ?thesis
      by (cases "handleClientResponse m (cs_proxy cs)") (auto simp: clientSwitch_def Let_def)
  next
    case other
    then show ?thesis
      using assms(1,2) by (auto simp: clientSwitch_def stays_scope Let_def split: if_splits)
  qed
qed

lemma interceptRequest_hstep:
  "interceptRequest ce m cs = (b, held) \<Longrightarrow> (hstep (ce_env ce))\<^sup>*\<^sup>* (cs_held cs) held"
  using h_hold [of "ce_env ce" "cs_held cs" "cs_proxy cs" m]
  by (auto simp: interceptRequest_def split: interception.splits)

lemma clientMessage_effect:
  assumes "clientMessage ce now m cs = Some cs'" and "m_method m \<noteq> ''initialize''"
    and "\<not> pullAnswer cs m" and "sentFilters m = None"
  shows "(step (ce_env ce) strict)\<^sup>*\<^sup>* (cs_proxy cs, PcIdle) (cs_proxy cs', PcIdle) \<and>
    (hstep (ce_env ce))\<^sup>*\<^sup>* (cs_held cs) (cs_held cs') \<and> (log_ok cs \<longrightarrow> log_ok cs') \<and>
    stays (cs_proxy cs) (cs_proxy cs')"
  using assms(1)
proof (cases rule: clientMessage_cases)
  case (taken held)
  then show ?thesis
    using interceptRequest_hstep [OF taken(2)] interceptRequest_keeps [OF taken(2)]
    by (simp add: log_ok_held stays_scope)
next
  case (handled cs1)
  then show ?thesis using clientSwitch_effect [OF handled(1) assms(2,3)] by simp
next
  case (forwarded m' cs1)
  note e = clientSwitch_effect [OF forwarded(1) assms(2,3), of strict]
  have "step (ce_env ce) strict (cs_proxy cs1, PcIdle) (writeServer m (cs_proxy cs1), PcIdle)"
    by (rule s_forward [OF assms(4)])
  moreover have "hstep (ce_env ce) (cs_held cs) (cs_held cs')"
  proof (cases "m_method m = ''textDocument/didChange''")
    case True
    then have "cs_held cs' = forwardDidChange m (cs_held cs)"
      using e forwarded(2) by (simp add: writeMessage_def toWorkers_def forwardDidChange_def Let_def)
    then show ?thesis using h_change by metis
  next
    case False
    then show ?thesis using e forwarded(2) by (simp add: writeMessage_def toWorkers_def h_other)
  qed
  moreover have "stays (cs_proxy cs) (cs_proxy cs')"
    using e forwarded(2) by (simp add: writeMessage_def toWorkers_def stays_def)
  moreover have "log_ok cs \<longrightarrow> log_ok cs'"
    using e forwarded(2) by (auto simp: log_ok_def writeMessage_def toWorkers_def writeServer_def)
  ultimately show ?thesis
    using e forwarded(2) by (auto simp: writeMessage_def toWorkers_def intro: rtranclp.rtrancl_into_rtrancl)
qed

section \<open>A session is a run of each component\<close>

definition proxyOf :: "sess \<Rightarrow> sys" where
  "proxyOf s = (cs_proxy (fst s), snd (snd s))"

definition heldOf :: "sess \<Rightarrow> heldState" where
  "heldOf s = cs_held (fst s)"

definition ownOf :: "sess \<Rightarrow> ownState" where
  "ownOf s = fst (snd s)"

lemma parts_simps [simp]:
  "proxyOf (cs, ow, pc) = (cs_proxy cs, pc)" "heldOf (cs, ow, pc) = cs_held cs" "ownOf (cs, ow, pc) = ow"
  by (simp_all add: proxyOf_def heldOf_def ownOf_def)

lemma hsteps_other: "(hstep en)\<^sup>*\<^sup>* hs (hs\<lparr>hs_log := hs_log hs @ map SentMsg ms\<rparr>)"
proof (induction ms rule: rev_induct)
  case (snoc m ms)
  from h_other [of en "hs\<lparr>hs_log := hs_log hs @ map SentMsg ms\<rparr>" m] snoc
  show ?case by (simp add: rtranclp.rtrancl_into_rtrancl)
qed simp

lemma loggedProxy_frame [simp]:
  "cs_proxy (loggedProxy p cs) = p" "cs_docs (loggedProxy p cs) = cs_docs cs"
  by (simp_all add: loggedProxy_def)

lemma hsteps_logged: "(hstep en)\<^sup>*\<^sup>* (cs_held cs) (cs_held (loggedProxy p cs))"
  by (simp add: loggedProxy_def hsteps_other)

lemma serverMessage_parts:
  "serverMessage m (p, ow) = (p', ow') \<Longrightarrow>
     (p' = p \<or> p' = handleServerNotification m p) \<and> ow' = snd (serverMessage m (p, ow))"
  by (auto simp: serverMessage_def split: prod.splits bool.splits)

lemma sentFilters_None: "m_method m \<notin> {'''', ''initialize''} \<Longrightarrow> sentFilters m = None"
  by (simp add: sentFilters_def)

lemma writeMessage_frame [simp]:
  "cs_proxy (writeMessage m cs) = writeServer m (cs_proxy cs)"
  "cs_held (writeMessage m cs) = (cs_held cs)\<lparr>hs_log := hs_log (cs_held cs) @ [SentMsg m]\<rparr>"
  by (simp_all add: writeMessage_def)

lemma sess_proxy: "sessStep ce strict s s' \<Longrightarrow> (step (ce_env ce) strict)\<^sup>*\<^sup>* (proxyOf s) (proxyOf s')"
proof (induction rule: sessStep.induct)
  case (e_message now m cs cs' ow)
  then show ?case using clientMessage_effect by simp
next
  case (g_message m cs ow p ow' pc)
  then show ?case
    using serverMessage_parts [OF g_message] step_run [OF s_server [of "ce_env ce" strict "cs_proxy cs" pc m]]
    by auto
qed (simp_all add: step.intros step_run sentFilters_None)

lemma sess_held: "sessStep ce strict s s' \<Longrightarrow> (hstep (ce_env ce))\<^sup>*\<^sup>* (heldOf s) (heldOf s')"
proof (induction rule: sessStep.induct)
  case (e_message now m cs cs' ow)
  then show ?case using clientMessage_effect by simp
qed (simp_all add: hsteps_logged r_into_rtranclp [of "hstep en" for en] hstep.intros)

lemma sess_own: "sessStep ce strict s s' \<Longrightarrow> ownStep\<^sup>*\<^sup>* (ownOf s) (ownOf s')"
proof (induction rule: sessStep.induct)
  case (g_message m cs ow p ow' pc)
  then show ?case using serverMessage_parts [OF g_message] ow_server [of ow m "cs_proxy cs"] by auto
qed (simp_all add: r_into_rtranclp [of ownStep] ownStep.intros)

lemma sess_log: "sessStep ce strict s s' \<Longrightarrow> log_ok (fst s) \<Longrightarrow> log_ok (fst s')"
proof (induction rule: sessStep.induct)
  case (e_message now m cs cs' ow)
  then show ?case using clientMessage_effect by simp
next
  case (e_take cs m i g p ow)
  then show ?case by (auto simp: takeConfigID_def intro: log_ok_proxy)
next
  case (e_advance cs ow g)
  then show ?case by (simp add: log_ok_def)
next
  case (g_message m cs ow p ow' pc)
  then show ?case using serverMessage_parts [OF g_message(1)] by (auto intro: log_ok_proxy)
qed (simp_all add: log_ok_logged extends_ops log_ok_proxy log_ok_held log_ok_write, simp_all add: log_ok_def)

interpretation pr: simulation "sessStep ce strict" "step (ce_env ce) strict" proxyOf for ce strict
  by unfold_locales (rule sess_proxy)

interpretation hl: simulation "sessStep ce strict" "hstep (ce_env ce)" heldOf for ce strict
  by unfold_locales (rule sess_held)

interpretation ow: simulation "sessStep ce strict" ownStep ownOf for ce strict
  by unfold_locales (rule sess_own)

section \<open>The start\<close>

text \<open>What the pump does with \<open>initialize\<close>.\<close>

lemma initialize_message:
  assumes "m_method m = ''initialize''" and "m_params m = Some (JObj params)"
    and "cs_proxy cs0 = freshProxy" and "cs_held cs0 = noHeld" and "clientMessage ce now m cs0 = Some cs"
  obtains m' p where "patchInitialize (env_hostOk (ce_env ce)) (ce_stat ce) now (ce_saved ce) m freshProxy =
      Some (m', p)"
    and "cs = writeMessage m' (toWorkers ce m' (startSession ce (m_params m) (cs0\<lparr>cs_proxy := p\<rparr>)))"
    and "cs_proxy cs = writeServer m' p" and "cs_held cs = noHeld\<lparr>hs_log := [SentMsg m']\<rparr>"
proof -
  have same: "cs0\<lparr>cs_held := noHeld\<rparr> = cs0" using assms(4) by simp
  have "interceptRequest ce m cs0 = (False, noHeld)"
    using assms by (simp add: interceptRequest_def interceptClientRequest_def isCrossRef_def)
  moreover obtain m' p where p: "patchInitialize (env_hostOk (ce_env ce)) (ce_stat ce) now (ce_saved ce) m
      freshProxy = Some (m', p)"
    using assms(2)
    by (cases "patchInitialize (env_hostOk (ce_env ce)) (ce_stat ce) now (ce_saved ce) m freshProxy")
      (auto simp: patchInitialize_None)
  ultimately have cs: "cs = writeMessage m' (toWorkers ce m' (startSession ce (m_params m) (cs0\<lparr>cs_proxy := p\<rparr>)))"
    using assms by (auto simp: clientMessage_def clientSwitch_def same split: if_splits)
  have "cs_proxy cs = writeServer m' p" "cs_held cs = noHeld\<lparr>hs_log := [SentMsg m']\<rparr>"
    using assms(4) by (simp_all add: cs writeMessage_def toWorkers_def noHeld_def)
  with p cs show ?thesis by (rule that)
qed

lemma start_cases:
  assumes "sessStart ce s"
  obtains m params now m' p cs where "m_method m = ''initialize''" and "m_params m = Some (JObj params)"
    and "patchInitialize (env_hostOk (ce_env ce)) (ce_stat ce) now (ce_saved ce) m freshProxy = Some (m', p)"
    and "s = (cs, freshOwn, PcIdle)" and "cs_proxy cs = writeServer m' p"
    and "cs_held cs = noHeld\<lparr>hs_log := [SentMsg m']\<rparr>" and "cs_docs cs = []"
    and "\<And>r. handleOf r (cs_pool cs) = newHandle r" and "md_modRoots (cs_mod cs) = Some emptyCache"
  using assms
proof (cases rule: sessStart.cases)
  case (sess_start m params cs0 now cs)
  obtain m' p where p: "patchInitialize (env_hostOk (ce_env ce)) (ce_stat ce) now (ce_saved ce) m
      freshProxy = Some (m', p)"
    and cs: "cs = writeMessage m' (toWorkers ce m' (startSession ce (m_params m) (cs0\<lparr>cs_proxy := p\<rparr>)))"
    and f: "cs_proxy cs = writeServer m' p" "cs_held cs = noHeld\<lparr>hs_log := [SentMsg m']\<rparr>"
    using initialize_message [OF sess_start(2,3,4,5,11)] by blast
  have "cs_docs cs = []" using sess_start by (simp add: cs writeMessage_def toWorkers_def)
  moreover have "handleOf r (cs_pool cs) = newHandle r" for r
  proof -
    have "handleOf r \<lparr>wp_main = newHandle '''', wp_subs = []\<rparr> = newHandle r"
      by (simp add: handleOf_def workerFor_def)
    then show ?thesis using sess_start by (simp add: cs writeMessage_def toWorkers_def handleOf_observe)
  qed
  moreover have "md_modRoots (cs_mod cs) = Some emptyCache"
    using sess_start
    by (simp add: cs writeMessage_def toWorkers_def startSession_def graphSetRoot_def case_prod_unfold Let_def
        split: option.split json.split)
  ultimately show ?thesis using that sess_start p f by blast
qed

lemma reach_proxy: "sessReachable ce strict s \<Longrightarrow> sessionReachable (ce_env ce) strict (proxyOf s)"
proof (induction rule: sessReachable.induct)
  case (sess_reach s s')
  have "sessionReachable (ce_env ce) strict (proxyOf s)"
    using sess_reach(1) by (rule start_cases) (auto intro: sessionReachable.start)
  with pr.run [OF sess_reach(2)] show ?case
    by (induction rule: rtranclp_induct) (auto intro: sessionReachable.later)
qed

lemma reach_held: "sessReachable ce strict s \<Longrightarrow> (hstep (ce_env ce))\<^sup>*\<^sup>* noHeld (heldOf s)"
proof (induction rule: sessReachable.induct)
  case (sess_reach s s')
  obtain m' where "heldOf s = noHeld\<lparr>hs_log := hs_log noHeld @ [SentMsg m']\<rparr>"
    using sess_reach(1) by (rule start_cases) (auto simp: noHeld_def)
  then have "hstep (ce_env ce) noHeld (heldOf s)" using h_other by metis
  then show ?case using hl.run [OF sess_reach(2)] by (rule converse_rtranclp_into_rtranclp)
qed

lemma reach_own: "sessReachable ce strict s \<Longrightarrow> ownStep\<^sup>*\<^sup>* freshOwn (ownOf s)"
proof (induction rule: sessReachable.induct)
  case (sess_reach s s')
  have "ownOf s = freshOwn" using sess_reach(1) by (rule start_cases) simp
  with ow.run [OF sess_reach(2)] show ?case by simp
qed

lemma reach_log: "sessReachable ce strict s \<Longrightarrow> log_ok (fst s)"
proof (induction rule: sessReachable.induct)
  case (sess_reach s s')
  have "log_ok (fst s)"
    using sess_reach(1)
    by (rule start_cases)
      (auto simp: log_ok_def writeServer_def patchInitialize_proxy_frame noHeld_def freshProxy_def
        dest!: patchInitialize_proxy_frame)
  with sess_reach(2) show ?case by (induction rule: rtranclp_induct) (auto intro: sess_log)
qed

text \<open>
  The atomic model of the pump (\<open>clientMessage\<close>) is one of the interleavings: the answer to a pull,
  handled without interruption, is the run through the points of the pump.
\<close>

lemma clientMessage_pull:
  assumes "clientMessage ce now m cs = Some cs'" and "pullAnswer cs m" and "strict \<longrightarrow> answersPull m"
  shows "(sessStep ce strict)\<^sup>*\<^sup>* (cs, ow, PcIdle) (cs', ow, PcIdle)"
proof -
  obtain i where i: "m_id m = Some i" "i \<in> p_configIDs (cs_proxy cs)" "m_method m = ''''"
    using assms(2) by (auto simp: pullAnswer_def)
  obtain g p where t: "takeConfigID i (cs_proxy cs) = ((True, g), p)"
    using i(2) by (simp add: takeConfigID_def)
  let ?p2 = "storeWorkerConfig m p" and ?r = "sessStep ce strict"
  let ?m = "patchedResponse (filtersLocked ?p2) m"
  let ?cs1 = "cs\<lparr>cs_proxy := p\<rparr>" and ?cs2 = "cs\<lparr>cs_proxy := ?p2\<rparr>"
  let ?cs3 = "loggedProxy (writeServer ?m ?p2) ?cs2"
  let ?cs4 = "?cs3\<lparr>cs_proxy := advanceAppliedLocked g (cs_proxy ?cs3),
        cs_pool := broadcastObserve (gget (cs_docs ?cs3)) configNote (cs_pool ?cs3)\<rparr>"
  have "?r (cs, ow, PcIdle) (?cs1, ow, PcTaken m g)"
    by (rule e_take [OF assms(2) i(1) t assms(3)])
  moreover have "?r (?cs1, ow, PcTaken m g) (?cs2, ow, PcStored m g)"
    using e_store [of ce strict ?cs1] by simp
  moreover have "?r (?cs2, ow, PcStored m g) (?cs2, ow, PcPatched ?m g)"
    using e_patch [of ce strict ?cs2] by simp
  moreover have "?r (?cs2, ow, PcPatched ?m g) (?cs3, ow, PcWritten g)"
    using e_write [of ce strict ?cs2] by simp
  moreover have "?r (?cs3, ow, PcWritten g) (?cs4, ow, PcIdle)" by (rule e_advance)
  moreover have "cs' = ?cs4"
  proof -
    have "interceptRequest ce m cs = (False, cs_held cs)"
      using i(3) by (simp add: interceptRequest_def interceptClientRequest_def isCrossRef_def)
    then show ?thesis
      using assms(1) i t
      by (cases cs) (auto simp: clientMessage_def clientSwitch_def handleClientResponse_def
          patchConfigResponse_def loggedProxy_def writeServer_def)
  qed
  ultimately show ?thesis by (meson rtranclp.rtrancl_into_rtrancl rtranclp.rtrancl_refl)
qed

section \<open>Well-formed sessions\<close>

text \<open>What a held request is: a request with an id, of a held method, under its own document.\<close>

definition heldKind :: "message \<times> string \<Rightarrow> bool" where
  "heldKind r \<longleftrightarrow> m_id (fst r) \<noteq> None \<and> snd r = docURI (m_params (fst r)) \<and>
     (\<exists>t. interceptClientRequest (m_method (fst r)) = ToHold t)"

definition raws :: "heldState \<Rightarrow> (message \<times> string) list" where
  "raws hs = map (\<lambda>r. (hr_raw r, hr_uri r)) (hs_reqs hs)"

lemma raws_log [simp]: "raws (hs\<lparr>hs_log := l\<rparr>) = raws hs"
  by (simp add: raws_def)

lemma raws_forward [simp]: "raws (forward h hs) = raws hs"
  by (rule nth_equalityI) (auto simp: raws_def forward_req)

lemma raws_release [simp]: "raws (releaseHeldDefs uri hs) = raws hs"
proof -
  have "raws (foldl (\<lambda>hs h. forward h hs) hs' s) = raws hs'" for hs' s
    by (induction s arbitrary: hs') simp_all
  then show ?thesis by (simp add: releaseHeldDefs_def raws_def)
qed

lemma raws_unregister [simp]: "raws (unregisterHeldDef uri h hs) = raws hs"
  by (simp add: unregisterHeldDef_def raws_def Let_def)

lemma raws_intercept:
  assumes "interceptRequest ce m cs = (b, held)" and "m_id m \<noteq> None"
  shows "raws held = raws (cs_held cs) \<or> (\<exists>r. raws held = raws (cs_held cs) @ [r] \<and> heldKind r)"
  using assms
  by (auto simp: interceptRequest_def holdForRequestUnit_def registerHeldDef_def raws_def heldKind_def
      Let_def split: interception.splits option.splits if_splits)

lemma raws_message:
  assumes "clientMessage ce now m cs = Some cs'" and "m_method m \<noteq> ''initialize''" and "\<not> pullAnswer cs m"
  shows "raws (cs_held cs') = raws (cs_held cs) \<or>
    (\<exists>r. raws (cs_held cs') = raws (cs_held cs) @ [r] \<and> heldKind r)"
  using assms(1)
proof (cases rule: clientMessage_cases)
  case (taken held)
  then show ?thesis using raws_intercept by simp
next
  case (handled cs1)
  then show ?thesis using clientSwitch_effect [OF handled(1) assms(2,3)] by simp
next
  case (forwarded m' cs1)
  then show ?thesis
    using clientSwitch_effect [OF forwarded(1) assms(2,3)] by (simp add: toWorkers_def)
qed

lemma sess_raws:
  "sessStep ce strict s s' \<Longrightarrow> \<forall>r \<in> set (raws (heldOf s)). heldKind r \<Longrightarrow>
     \<forall>r \<in> set (raws (heldOf s')). heldKind r"
proof (induction rule: sessStep.induct)
  case (e_message now m cs cs' ow)
  then show ?case using raws_message [OF e_message(1-3)] by auto
qed (simp_all add: loggedProxy_def)

lemma sess_docs: "sessStep ce strict s s' \<Longrightarrow> docs_ok (cs_docs (fst s)) \<Longrightarrow> docs_ok (cs_docs (fst s'))"
proof (induction rule: sessStep.induct)
  case (e_message now m cs cs' ow)
  then show ?case using dt.good_track clientMessage_docs [OF e_message(1)] by simp
qed (simp_all add: writeMessage_def)

text \<open>A unit that is published with a generation up to \<open>g\<close>.\<close>

definition stamped :: "string \<Rightarrow> nat \<Rightarrow> proxyState \<Rightarrow> bool" where
  "stamped u g p \<longleftrightarrow> (\<exists>e. gget (p_scope p) u = Some e \<and> 0 < e_gen e \<and> e_gen e \<le> g)"

lemma stamped_stays: "stamped u g p \<Longrightarrow> stays p p' \<Longrightarrow> stamped u g p'"
  unfolding stamped_def stays_def by fastforce

lemma stamped_evict:
  assumes "stamped u g p" and "wf_map (p_scope p)" and "gget (p_scope (evictIdleUnits ttl now p)) u \<noteq> None"
  shows "stamped u g (evictIdleUnits ttl now p)"
proof -
  define q where "q = p\<lparr>p_scope := filter (\<lambda>x. \<not> (case x of (u, e) \<Rightarrow> e_open e = {} \<and> now - e_lastActive e > ttl))
    (p_scope p)\<rparr>"
  have ev: "evictIdleUnits ttl now p = q \<or> evictIdleUnits ttl now p = snd (pushScope q)"
    by (simp add: evictIdleUnits_def q_def Let_def)
  then have "gget (p_scope q) u \<noteq> None"
    using assms(3) by (auto simp: pushScope_def writeServer_def Let_def)
  then have "gget (p_scope q) u = gget (p_scope p) u"
    using gget_filter [OF assms(2), of "\<lambda>u e. \<not> (e_open e = {} \<and> now - e_lastActive e > ttl)" u]
    by (auto simp: q_def case_prod_unfold split: option.splits if_splits)
  then have "stamped u g q" using assms(1) by (simp add: stamped_def)
  then show ?thesis using ev stamped_stays stays_push by metis
qed

definition unitInScope :: "string \<Rightarrow> sess \<Rightarrow> bool" where
  "unitInScope u s \<longleftrightarrow> gget (p_scope (cs_proxy (fst s))) u \<noteq> None"

lemma stays_write: "stays p (writeServer m p)"
  by (simp add: stays_def)

lemmas stays_ops = stays_push stays_rescope stays_ensure stays_write

lemma sess_stamped:
  assumes "sessStep ce strict s s'" and "wf_map (p_scope (cs_proxy (fst s)))"
    and "stamped u g (cs_proxy (fst s))" and "unitInScope u s'"
  shows "stamped u g (cs_proxy (fst s'))"
proof -
  have "stays (cs_proxy (fst s)) (cs_proxy (fst s')) \<or>
      (\<exists>ttl now. cs_proxy (fst s') = evictIdleUnits ttl now (cs_proxy (fst s)))"
    using assms(1)
  proof (induction rule: sessStep.induct)
    case (e_message now m cs cs' ow)
    then show ?case using clientMessage_effect by simp
  next
    case (e_take cs m i g p ow)
    then have "p = snd (takeConfigID i (cs_proxy cs))" by simp
    then show ?case by (simp add: stays_scope)
  next
    case (g_message m cs ow p ow' pc)
    then show ?case using serverMessage_parts [OF g_message] by (auto simp: stays_scope)
  next
    case (t_evict cs ow pc ttl now)
    then show ?case by auto
  qed (simp_all add: stays_ops, simp_all add: stays_scope)
  then show ?thesis
    using assms(2-4) stamped_stays stamped_evict unfolding unitInScope_def by metis
qed

section \<open>Reachable sessions\<close>

lemma reach_steps:
  "sessReachable ce strict s \<Longrightarrow> (sessStep ce strict)\<^sup>*\<^sup>* s s' \<Longrightarrow> sessReachable ce strict s'"
  by (auto elim!: sessReachable.cases intro: sess_reach rtranclp_trans)

lemma reach_step: "sessReachable ce strict s \<Longrightarrow> sessStep ce strict s s' \<Longrightarrow> sessReachable ce strict s'"
  using reach_steps r_into_rtranclp [of "sessStep ce strict" s s'] by blast

lemma reach_raws: "sessReachable ce strict s \<Longrightarrow> \<forall>r \<in> set (raws (heldOf s)). heldKind r"
proof (induction rule: sessReachable.induct)
  case (sess_reach s s')
  have "\<forall>r \<in> set (raws (heldOf s)). heldKind r"
    using sess_reach(1) by (rule start_cases) (simp add: raws_def noHeld_def)
  with sess_reach(2) show ?case by (induction rule: rtranclp_induct) (simp, rule sess_raws)
qed

lemma reach_docs: "sessReachable ce strict s \<Longrightarrow> docs_ok (cs_docs (fst s))"
proof (induction rule: sessReachable.induct)
  case (sess_reach s s')
  have "docs_ok (cs_docs (fst s))" using sess_reach(1) by (rule start_cases) simp
  with sess_reach(2) show ?case by (induction rule: rtranclp_induct) (auto intro: sess_docs)
qed

lemma reach_covered:
  assumes "sessReachable ce True (cs, ow, pc)"
  shows "covered (lastFilters (sentMsgs (hs_log (cs_held cs)))) (p_appliedGen (cs_proxy cs)) (cs_proxy cs)"
  using reachable_inv [OF reach_proxy [OF assms]] reach_log [OF assms]
  by (simp add: sys_inv_def log_ok_def)

text \<open>Every state of a session is well formed: the generations and the pulls are consistent, each
  document is stored under its URI, each held request is of a held kind and is in the log as often
  as its \<open>Once\<close> says, each own request has its waiter, and the two records of what was written to
  gopls agree.\<close>

definition session_ok :: "sess \<Rightarrow> bool" where
  "session_ok s \<longleftrightarrow>
     gens_ok (cs_proxy (fst s)) \<and> pulls_ok (cs_proxy (fst s)) \<and> docs_ok (cs_docs (fst s)) \<and>
     held_ok (heldOf s) \<and> (\<forall>r \<in> set (raws (heldOf s)). heldKind r) \<and> own_inv (ownOf s) \<and> log_ok (fst s)"

lemma session_inv:
  assumes "sessReachable ce strict s"
  shows "session_ok s"
proof -
  have "sys_inv strict (proxyOf s)" by (rule reachable_inv [OF reach_proxy [OF assms]])
  then show ?thesis
    using held_ok_reachable [OF reach_held [OF assms]] own_inv_reachable [OF reach_own [OF assms]]
      reach_raws [OF assms] reach_docs [OF assms] reach_log [OF assms]
    by (simp add: session_ok_def sys_inv_def proxyOf_def case_prod_unfold)
qed

text \<open>C11: every reachable state of the whole session is well formed, however its pumps, timers and
  goroutines interleave.\<close>

theorem session_well_formed:
  assumes "sessReachable ce strict s"
  shows "session_ok s"
  by (rule session_inv [OF assms])


text \<open>C1: a held request meets its unit. In a session in which the editor answers its pulls, when the
  wait of a held request for its unit succeeds and it was not forwarded before, it is not yet in
  what gopls was sent, the waiter appends it there, and the last settings before it admit its unit.\<close>

theorem held_request_meets_unit:
  assumes "sessReachable ce True (cs, ow, pc)" and "h < length (hs_reqs (cs_held cs))"
    and "\<not> hr_once (hs_reqs (cs_held cs) ! h)"
    and "unitForURI (ce_env ce) (hr_uri (hs_reqs (cs_held cs) ! h)) (cs_proxy cs) = Some u"
    and "awaitUnitApplied u [cs_proxy cs]"
  shows "sessStep ce True (cs, ow, pc) (cs\<lparr>cs_held := forward h (cs_held cs)\<rparr>, ow, pc) \<and>
    hs_log (forward h (cs_held cs)) = hs_log (cs_held cs) @ [SentHeld h] \<and>
    logCount h (hs_log (cs_held cs)) = 0 \<and> admits (lastFilters (sentMsgs (hs_log (cs_held cs)))) u"
proof (intro conjI)
  have applied: "unitDone u (cs_proxy cs)" using assms(5) by (simp split: if_splits)
  then show "sessStep ce True (cs, ow, pc) (cs\<lparr>cs_held := forward h (cs_held cs)\<rparr>, ow, pc)"
    using assms(2,4) by (intro h_done)
  show "hs_log (forward h (cs_held cs)) = hs_log (cs_held cs) @ [SentHeld h]"
    using assms(3) by (simp add: forward_def)
  show "logCount h (hs_log (cs_held cs)) = 0"
    using held_ok_reachable [OF reach_held [OF assms(1)]] assms(2,3) by (simp add: held_ok_def)
  show "admits (lastFilters (sentMsgs (hs_log (cs_held cs)))) u"
    using reach_covered [OF assms(1)] applied
    by (auto simp: covered_def unitDone_def split: option.splits)
qed

lemma publish_steps:
  assumes "publishUnitsLogged now us cs = (g, cs1)"
  shows "(sessStep ce strict)\<^sup>*\<^sup>* (cs, ow, pc) (cs1, ow, pc) \<and>
    publishUnits now us (cs_proxy cs) = (g, cs_proxy cs1)"
proof -
  let ?cs0 = "cs\<lparr>cs_proxy := snd (ensureUnitsLocked now us (cs_proxy cs))\<rparr>"
  have "sessStep ce strict (cs, ow, pc) (?cs0, ow, pc)" by (rule x_ensure)
  moreover have "sessStep ce strict (?cs0, ow, pc) (loggedProxy (snd (pushScope (cs_proxy ?cs0))) ?cs0, ow, pc)"
    by (rule x_push)
  moreover have "cs1 = ?cs0 \<or> cs1 = loggedProxy (snd (pushScope (cs_proxy ?cs0))) ?cs0"
    using assms
    by (auto simp: publishUnitsLogged_def publishUnits_def loggedProxy_def Let_def case_prod_unfold
        split: if_splits)
  moreover have "publishUnits now us (cs_proxy cs) = (g, cs_proxy cs1)"
    using assms by (auto simp: publishUnitsLogged_def case_prod_unfold Let_def)
  ultimately show ?thesis by (meson rtranclp.rtrancl_into_rtrancl rtranclp.rtrancl_refl)
qed

text \<open>
  The goroutine of a cross reference is one of the interleavings as well: whatever is decided,
  what it writes to gopls and to the editor are steps of the session.
\<close>

abbreviation sessRun :: "clientEnv \<Rightarrow> bool \<Rightarrow> clientPc \<Rightarrow> session \<Rightarrow> session \<Rightarrow> bool" where
  "sessRun ce strict pc s s' \<equiv> (sessStep ce strict)\<^sup>*\<^sup>* (fst s, snd s, pc) (fst s', snd s', pc)"

lemma sessRun_trans: "sessRun ce strict pc s s1 \<Longrightarrow> sessRun ce strict pc s1 s2 \<Longrightarrow> sessRun ce strict pc s s2"
  by (rule rtranclp_trans)

lemma forwardHeld_run:
  "m_method held \<notin> {'''', ''initialize''} \<Longrightarrow> sessRun ce strict pc s (forwardHeld held s)"
  using x_forward [of held ce strict "fst s" "snd s" pc]
    r_into_rtranclp [of "sessStep ce strict"] by (simp add: forwardHeld_def)

lemma toClient_run: "sessRun ce strict pc (cs, ow) (cs, toClient m ow)"
  using x_answer [of ce strict cs ow pc m] r_into_rtranclp [of "sessStep ce strict"] by simp

lemma react_run:
  assumes "m_method held \<notin> {'''', ''initialize''}"
  shows "sessRun ce strict pc s (react held err r s)"
proof (cases r)
  case WarnAndForward
  let ?s1 = "(fst s, showMessage ''2''
      (''gopls-lazy: '' @ m_method held @ '' results may be incomplete: '' @ err) (snd s))"
  have "sessRun ce strict pc s ?s1"
    using toClient_run [of ce strict "fst s" "snd s" pc] by (simp add: showMessage_def)
  then have "sessRun ce strict pc s (forwardHeld held ?s1)"
    by (rule sessRun_trans) (rule forwardHeld_run [OF assms])
  then show ?thesis using WarnAndForward by (simp add: react_def)
qed (use toClient_run [of ce strict "fst s" "snd s" pc] forwardHeld_run [OF assms] in
    \<open>simp_all add: react_def respond_def respondError_def\<close>)

lemma serveRequest_run:
  assumes "m_method held \<notin> {'''', ''initialize''}"
  shows "sessRun ce strict pc (cs, ow) (serveRequest modRoot held result err (cs, ow))"
proof -
  obtain h pool1 where w: "workerFor modRoot (cs_pool cs) = (h, pool1)" by fastforce
  obtain warn h1 where l: "shouldWarnLoading h = (warn, h1)" by fastforce
  have h: "handleOf modRoot (cs_pool cs) = h" by (simp add: handleOf_def w)
  have "handleStep (sessWorker ce (p_root (cs_proxy cs)) modRoot) (cs_docs cs) h h1"
    using ho_warn [of _ "cs_docs cs" h] by (simp add: l)
  from x_worker [OF this [folded h], of strict ow pc]
  have warned: "sessRun ce strict pc (cs, ow) (cs\<lparr>cs_pool := storeHandle modRoot h1 pool1\<rparr>, ow)"
    using r_into_rtranclp [of "sessStep ce strict"] by (simp add: w)
  have created: "sessRun ce strict pc (cs, ow) (cs\<lparr>cs_pool := pool1\<rparr>, ow)"
    using x_create [of ce strict cs ow pc modRoot] r_into_rtranclp [of "sessStep ce strict"] by (simp add: w)
  let ?cs1 = "cs\<lparr>cs_pool := storeHandle modRoot h1 pool1\<rparr>"
  let ?ow1 = "if warn then showMessage ''3'' (loadingText modRoot) ow else ow"
  have "sessRun ce strict pc (?cs1, ow) (?cs1, ?ow1)"
    using toClient_run [of ce strict ?cs1 ow pc] by (simp add: showMessage_def)
  with warned have "sessRun ce strict pc (cs, ow) (?cs1, ?ow1)" by (rule sessRun_trans)
  then have "sessRun ce strict pc (cs, ow)
      (react held err (serveViaWorker (m_method held) (Some held) result) (?cs1, ?ow1))"
    by (rule sessRun_trans) (rule react_run [OF assms])
  moreover have "sessRun ce strict pc (cs, ow) (forwardHeld held (cs\<lparr>cs_pool := pool1\<rparr>, ow))"
    using created by (rule sessRun_trans) (rule forwardHeld_run [OF assms])
  ultimately show ?thesis by (simp add: serveRequest_def w l)
qed

lemma crossref_run:
  assumes "m_method held \<notin> {'''', ''initialize''}"
  shows "sessRun ce strict pc s (answerCrossRef now held result err decision s)"
proof (cases decision)
  case (PublishAndForward us)
  obtain g cs1 where p: "publishUnitsLogged now us (fst s) = (g, cs1)" by fastforce
  have "sessRun ce strict pc s (cs1, snd s)" using publish_steps [OF p] by simp
  then have "sessRun ce strict pc s (forwardHeld held (cs1, snd s))"
    by (rule sessRun_trans) (rule forwardHeld_run [OF assms])
  then show ?thesis using PublishAndForward p by (simp add: answerCrossRef_def)
next
  case (ServeViaWorker r)
  then show ?thesis
    using serveRequest_run [OF assms, of ce strict "fst s" "snd s" pc] by (simp add: answerCrossRef_def)
qed (simp add: answerCrossRef_def forwardHeld_run [OF assms])

lemma runCrossRef_run:
  "m_method held \<notin> {'''', ''initialize''} \<Longrightarrow> sessRun ce strict pc s (runCrossRef now held result err decision s)"
  by (cases decision) (simp_all add: runCrossRef_def crossref_run forwardHeld_run)

text \<open>C3: a cross reference meets its closure. A request whose units were published, in any session
  and with any interleaving after that in which these units stay in scope, is forwarded after the
  wait for their generation behind settings that admit every one of them.\<close>

theorem crossref_meets_closure:
  assumes "sessReachable ce True (cs, ow, pc)" and "publishUnitsLogged now us cs = (g, cs1)"
    and "(\<lambda>s s'. sessStep ce True s s' \<and> (\<forall>u \<in> set us. unitInScope u s'))\<^sup>*\<^sup>* (cs1, ow, pc) (cs2, ow2, pc2)"
    and "awaitApplied g [cs_proxy cs2]"
  shows "hs_log (cs_held (writeMessage m cs2)) = hs_log (cs_held cs2) @ [SentMsg m] \<and>
    (\<forall>u \<in> set us. admits (lastFilters (sentMsgs (hs_log (cs_held cs2)))) u)"
proof -
  have p: "publishUnits now us (cs_proxy cs) = (g, cs_proxy cs1)"
    and reach1: "sessReachable ce True (cs1, ow, pc)"
    using publish_steps [OF assms(2)] reach_steps [OF assms(1)] by auto
  have "gens_ok (cs_proxy cs)" using reachable_inv [OF reach_proxy [OF assms(1)]] by (simp add: sys_inv_def)
  then have "\<forall>u \<in> set us. stamped u g (cs_proxy (fst (cs1, ow, pc)))"
    using publishUnits_gens [OF _ p] by (simp add: stamped_def)
  with assms(3) have "sessReachable ce True (cs2, ow2, pc2) \<and>
      (\<forall>u \<in> set us. stamped u g (cs_proxy (fst (cs2, ow2, pc2))))"
  proof (induction rule: rtranclp_induct)
    case base
    then show ?case using reach1 by blast
  next
    case (step s s')
    then have "wf_map (p_scope (cs_proxy (fst s)))"
      using sys_inv_gens reachable_inv [OF reach_proxy [of ce True s]] by (simp add: proxyOf_def)
    then show ?case using step reach_step sess_stamped by blast
  qed
  then show ?thesis
    using reach_covered [of ce cs2 ow2 pc2] assms(4)
    by (fastforce simp: covered_def stamped_def split: if_splits)
qed

section \<open>Witnesses\<close>

text \<open>
  A session: the editor opens \<open>a/x.go\<close> and hovers over it before the unit \<open>a\<close> is published, so the
  request is held; the unit is published, gopls pulls its settings and the editor answers.
\<close>

definition sessionEnv :: clientEnv where
  "sessionEnv = exampleClientEnv\<lparr>ce_stat := (\<lambda>path. Some Directory), ce_saved := (\<lambda>r. Some [''pkg''])\<rparr>"

definition settingsAnswer :: message where
  "settingsAnswer = \<lparr>m_id = Some (JNum ''7''), m_method = '''', m_params = None,
     m_result = Some (JArr [JObj []]), m_error = None\<rparr>"

definition idleClient :: clientState where
  "idleClient = exampleClient\<lparr>cs_held := noHeld, cs_mod := exampleModules\<lparr>md_graph :=
     Some \<lparr>gs_root = '''', gs_main = emptySlot, gs_subslots = []\<rparr>\<rparr>\<rparr>"

definition session0 :: clientState where
  "session0 = the (clientMessage sessionEnv 0 exampleInit idleClient)"

definition session1 :: clientState where
  "session1 = the (clientMessage sessionEnv 1 exampleOpenNote session0)"

definition session2 :: clientState where
  "session2 = the (clientMessage sessionEnv 2 exampleHover session1)"

definition session3 :: clientState where
  "session3 = loggedProxy (snd (pushScope (cs_proxy session2))) session2"

definition session4 :: clientState where
  "session4 = session3\<lparr>cs_proxy := handleServerNotification examplePull (cs_proxy session3)\<rparr>"

definition session5 :: clientState where
  "session5 = the (clientMessage sessionEnv 3 settingsAnswer session4)"

definition session4Own :: ownState where
  "session4Own = toClient examplePull freshOwn"

text \<open>The same run on the state of the scope alone.\<close>

definition proxy1 :: proxyState where
  "proxy1 = writeServer exampleOpenNote (observeOpen exampleEnv 1 (m_params exampleOpenNote)
     (writeServer (fst exampleStart) (snd exampleStart)))"

definition proxy4 :: proxyState where
  "proxy4 = handleServerNotification examplePull (snd (pushScope proxy1))"

lemma sessionEnv_simps [simp]:
  "ce_env sessionEnv = exampleEnv" "ce_stat sessionEnv = (\<lambda>path. Some Directory)"
  "ce_saved sessionEnv = (\<lambda>r. Some [''pkg''])"
  by (simp_all add: sessionEnv_def exampleClientEnv_def)

lemma intercept_simps [simp]:
  "interceptRequest ce exampleInit cs = (False, cs_held cs)"
  "interceptRequest ce exampleOpenNote cs = (False, cs_held cs)"
  "interceptRequest ce settingsAnswer cs = (False, cs_held cs)"
  "interceptRequest ce exampleHover cs = holdForRequestUnit (ce_env ce) (cs_proxy cs) exampleHover (cs_held cs)"
  by (simp_all add: interceptRequest_def interceptClientRequest_def isCrossRef_def exampleInit_def
      exampleOpenNote_def settingsAnswer_def exampleHover_def)

lemma session0_run:
  "clientMessage sessionEnv 0 exampleInit idleClient = Some session0 \<and>
   cs_proxy session0 = writeServer (fst exampleStart) (snd exampleStart) \<and>
   cs_held session0 = noHeld\<lparr>hs_log := [SentMsg (fst exampleStart)]\<rparr>"
proof -
  have "m_method exampleInit = ''initialize''" "env_hostOk exampleEnv = (\<lambda>h. False)"
    "cs_proxy idleClient = freshProxy" "cs_held idleClient = noHeld"
    by (simp_all add: exampleInit_def exampleEnv_def idleClient_def exampleClient_def)
  then show ?thesis
    by (simp add: session0_def clientMessage_def clientSwitch_def exampleStart_ok case_prod_unfold
        toWorkers_def noHeld_def Let_def)
qed

lemma session1_run:
  "clientMessage sessionEnv 1 exampleOpenNote session0 = Some session1 \<and> cs_proxy session1 = proxy1 \<and>
   cs_held session1 = noHeld\<lparr>hs_log := [SentMsg (fst exampleStart), SentMsg exampleOpenNote]\<rparr>"
proof -
  have "m_method exampleOpenNote = ''textDocument/didOpen''" by (simp add: exampleOpenNote_def)
  then show ?thesis
    using session0_run
    by (simp add: session1_def clientMessage_def clientSwitch_def toWorkers_def proxy1_def Let_def)
qed

lemma session2_run:
  "clientMessage sessionEnv 2 exampleHover session1 = Some session2 \<and> cs_proxy session2 = proxy1 \<and>
   hs_reqs (cs_held session2) = [\<lparr>hr_raw = exampleHover, hr_once = False, hr_uri = ''file:///ws/a/x.go''\<rparr>]"
proof -
  have "fst (holdForRequestUnit exampleEnv proxy1 exampleHover noHeld)" by code_simp
  then have "holdForRequestUnit exampleEnv proxy1 exampleHover hs = (True, registerHeldDef ''file:///ws/a/x.go''
      (length (hs_reqs hs)) (hs\<lparr>hs_reqs := hs_reqs hs @
        [\<lparr>hr_raw = exampleHover, hr_once = False, hr_uri = ''file:///ws/a/x.go''\<rparr>]\<rparr>))" for hs
    by (auto simp: holdForRequestUnit_def exampleHover_def docURI_def jfield_def Let_def
        split: option.splits if_splits)
  moreover have "m_id exampleHover \<noteq> None" by (simp add: exampleHover_def)
  ultimately show ?thesis
    using session1_run by (simp add: session2_def clientMessage_def registerHeldDef_def noHeld_def)
qed

lemma session4_proxy: "cs_proxy session4 = proxy4" "cs_held session4 = (cs_held session2)\<lparr>hs_log :=
    hs_log (cs_held session2) @ map SentMsg (drop (length (p_toServer proxy1)) (p_toServer (snd (pushScope proxy1))))\<rparr>"
  using session2_run by (simp_all add: session4_def session3_def proxy4_def loggedProxy_def)

lemma session5_run:
  "clientMessage sessionEnv 3 settingsAnswer session4 = Some session5 \<and>
   cs_proxy session5 = snd (handleClientResponse settingsAnswer proxy4) \<and>
   hs_reqs (cs_held session5) = hs_reqs (cs_held session2)"
proof -
  have "m_method settingsAnswer = ''''" by (simp add: settingsAnswer_def)
  moreover have "fst (handleClientResponse settingsAnswer proxy4)" by code_simp
  then obtain p where "handleClientResponse settingsAnswer proxy4 = (True, p)"
    by (metis prod.collapse)
  ultimately show ?thesis
    by (simp add: session5_def clientMessage_def clientSwitch_def session4_proxy Let_def)
qed

lemma session0_start: "sessStart sessionEnv (session0, freshOwn, PcIdle)"
  by (rule sess_start [OF _ _ _ _ _ _ _ _ _ session0_run [THEN conjunct1]])
    (simp_all add: exampleInit_def idleClient_def exampleClient_def exampleModules_def)

lemma session1_reachable: "sessReachable sessionEnv True (session1, freshOwn, PcIdle)"
  by (rule reach_step [OF sess_reach [OF session0_start rtranclp.rtrancl_refl]
        e_message [OF session1_run [THEN conjunct1]]])
    (simp_all add: exampleOpenNote_def pullAnswer_def sentFilters_def)

lemma session_reachable: "sessReachable sessionEnv True (session5, session4Own, PcIdle)"
proof -
  let ?r = "sessReachable sessionEnv True"
  have r2: "?r (session2, freshOwn, PcIdle)"
    by (rule reach_step [OF session1_reachable e_message [OF session2_run [THEN conjunct1]]])
      (simp_all add: exampleHover_def pullAnswer_def sentFilters_def)
  have r3: "?r (session3, freshOwn, PcIdle)"
    unfolding session3_def by (rule reach_step [OF r2 x_push])
  have "serverMessage examplePull (cs_proxy session3, freshOwn) = (cs_proxy session4, session4Own)"
    by (simp add: serverMessage_def handleServerResponse_def session4_def session4Own_def toClient_def
        examplePull_def)
  from reach_step [OF r3 g_message [OF this]]
  have r4: "?r (session4, session4Own, PcIdle)" by (simp add: session4_def)
  have "pullAnswer session4 settingsAnswer"
    by (simp add: pullAnswer_def settingsAnswer_def session4_def handleServerNotification_def examplePull_def)
  moreover have "answersPull settingsAnswer" by (simp add: answersPull_def settingsAnswer_def)
  ultimately show ?thesis
    using reach_steps [OF r4 clientMessage_pull [OF session5_run [THEN conjunct1]]] by blast
qed

theorem session_well_formed_witness: "session_ok (session5, session4Own, PcIdle)"
  by (rule session_well_formed [OF session_reachable])


lemma session5_unit: "unitDone ''a'' (cs_proxy session5)"
proof -
  have "unitDone ''a'' (snd (handleClientResponse settingsAnswer proxy4))" by code_simp
  then show ?thesis using session5_run by simp
qed

theorem held_request_meets_unit_witness:
  "admits (lastFilters (sentMsgs (hs_log (cs_held session5)))) ''a'' \<and>
   logCount 0 (hs_log (cs_held session5)) = 0"
proof -
  have reqs: "hs_reqs (cs_held session5) =
      [\<lparr>hr_raw = exampleHover, hr_once = False, hr_uri = ''file:///ws/a/x.go''\<rparr>]"
    using session5_run session2_run by simp
  have p5: "cs_proxy session5 = snd (handleClientResponse settingsAnswer proxy4)" using session5_run by simp
  have "unitForURI exampleEnv ''file:///ws/a/x.go'' (snd (handleClientResponse settingsAnswer proxy4)) = Some ''a''"
    by code_simp
  then have "unitForURI (ce_env sessionEnv) (hr_uri (hs_reqs (cs_held session5) ! 0)) (cs_proxy session5) =
      Some ''a''"
    by (simp add: reqs p5)
  from held_request_meets_unit [OF session_reachable _ _ this] show ?thesis
    using session5_unit by (simp add: reqs)
qed

theorem crossref_meets_closure_witness:
  "admits (lastFilters (sentMsgs (hs_log (cs_held
     (snd (publishUnitsLogged 4 [''a''] session5)))))) ''a''"
proof -
  obtain g cs1 where p: "publishUnitsLogged 4 [''a''] session5 = (g, cs1)" by fastforce
  have "awaitApplied (fst (publishUnits 4 [''a''] (snd (handleClientResponse settingsAnswer proxy4))))
      [snd (publishUnits 4 [''a''] (snd (handleClientResponse settingsAnswer proxy4)))]"
    by code_simp
  moreover have "publishUnits 4 [''a''] (snd (handleClientResponse settingsAnswer proxy4)) = (g, cs_proxy cs1)"
    using publish_steps [OF p] session5_run by simp
  ultimately have "awaitApplied g [cs_proxy cs1]" by (simp only: fst_conv snd_conv)
  from crossref_meets_closure [OF session_reachable p rtranclp.rtrancl_refl this] show ?thesis
    by (simp add: p)
qed

end
