(* ===== verification/Options.thy ===== *)
theory Options
  imports Scope
begin

text \<open>
  The options of the process (\<open>main.go\<close>): defaults, the \<open>GOPLS_LAZY_*\<close> environment
  variables and the command line, whose other arguments go to gopls. A duration is its number of
  nanoseconds; \<open>time.ParseDuration\<close> is a parameter.
\<close>

section \<open>Reading values\<close>

text \<open>\<open>strconv.Atoi\<close> on 64 bits and \<open>strconv.ParseBool\<close>.\<close>

definition decimal :: "string \<Rightarrow> int option" where
  "decimal s =
     (if s = '''' \<or> \<not> list_all (\<lambda>c. c \<in> set ''0123456789'') s then None
      else Some (foldl (\<lambda>n c. 10 * n + (int (of_char c) - 48)) 0 s))"

definition atoi :: "string \<Rightarrow> int option" where
  "atoi s =
     (let n = (case s of
            [] \<Rightarrow> None
          | c # cs \<Rightarrow>
              if c = CHR ''-'' then map_option uminus (decimal cs)
              else if c = CHR ''+'' then decimal cs else decimal s)
      in case n of None \<Rightarrow> None
         | Some i \<Rightarrow> if - (2 ^ 63) \<le> i \<and> i < 2 ^ 63 then Some i else None)"

definition parseBool :: "string \<Rightarrow> bool option" where
  "parseBool s =
     (if s \<in> {''1'', ''t'', ''T'', ''true'', ''TRUE'', ''True''} then Some True
      else if s \<in> {''0'', ''f'', ''F'', ''false'', ''FALSE'', ''False''} then Some False
      else None)"

section \<open>Options\<close>

record options =
  o_gopls :: string
  o_granularity :: int
  o_debounce :: int
  o_evictTTL :: int
  o_driver :: bool
  o_logPath :: string
  o_workerTTL :: int
  o_workerTimeout :: int
  o_workerWarm :: bool
  o_goplsArgs :: "string list"

definition defaultOptions :: options where
  "defaultOptions =
     \<lparr>o_gopls = ''gopls'', o_granularity = 3, o_debounce = 500000000,
      o_evictTTL = 600000000000, o_driver = True, o_logPath = '''',
      o_workerTTL = 900000000000, o_workerTimeout = 600000000000,
      o_workerWarm = False, o_goplsArgs = []\<rparr>"

section \<open>The environment\<close>

text \<open>An error is the name of the variable or the flag it is reported for.\<close>

type_synonym 'a parsed = "string + 'a"

text \<open>The loop over the durations, and \<open>applyEnv\<close>.\<close>

fun envDurations ::
  "(string \<Rightarrow> int option) \<Rightarrow> (string \<Rightarrow> string) \<Rightarrow> (string \<times> (int \<Rightarrow> options \<Rightarrow> options)) list
   \<Rightarrow> options \<Rightarrow> options parsed" where
  "envDurations pd getenv [] opt = Inr opt"
| "envDurations pd getenv ((key, dst) # es) opt =
     (let v = getenv key
      in if v = '''' then envDurations pd getenv es opt
         else (case pd v of None \<Rightarrow> Inl key | Some d \<Rightarrow> envDurations pd getenv es (dst d opt)))"

definition durationVars :: "(string \<times> (int \<Rightarrow> options \<Rightarrow> options)) list" where
  "durationVars =
     [(''GOPLS_LAZY_DEBOUNCE'', \<lambda>d opt. opt\<lparr>o_debounce := d\<rparr>),
      (''GOPLS_LAZY_EVICT'', \<lambda>d opt. opt\<lparr>o_evictTTL := d\<rparr>),
      (''GOPLS_LAZY_WORKER_TTL'', \<lambda>d opt. opt\<lparr>o_workerTTL := d\<rparr>),
      (''GOPLS_LAZY_WORKER_TIMEOUT'', \<lambda>d opt. opt\<lparr>o_workerTimeout := d\<rparr>)]"

definition applyEnv ::
  "(string \<Rightarrow> int option) \<Rightarrow> (string \<Rightarrow> string) \<Rightarrow> options \<Rightarrow> options parsed" where
  "applyEnv pd getenv opt =
     (let g = getenv ''GOPLS_LAZY_GOPLS''; n = getenv ''GOPLS_LAZY_GRANULARITY'';
          opt1 = (if g \<noteq> '''' then opt\<lparr>o_gopls := g\<rparr> else opt)
      in case (if n = '''' then Some opt1 else map_option (\<lambda>i. opt1\<lparr>o_granularity := i\<rparr>) (atoi n)) of
           None \<Rightarrow> Inl ''GOPLS_LAZY_GRANULARITY''
         | Some opt2 \<Rightarrow>
             (case envDurations pd getenv durationVars opt2 of
                Inl e \<Rightarrow> Inl e
              | Inr opt3 \<Rightarrow>
                  let d = getenv ''GOPLS_LAZY_DRIVER''
                  in case (if d = '''' \<or> d = ''1'' then Some opt3
                           else map_option (\<lambda>b. opt3\<lparr>o_driver := b\<rparr>) (parseBool d)) of
                       None \<Rightarrow> Inl ''GOPLS_LAZY_DRIVER''
                     | Some opt4 \<Rightarrow>
                         let l = getenv ''GOPLS_LAZY_LOG''; w = getenv ''GOPLS_LAZY_WORKER_WARM'';
                             opt5 = (if l \<noteq> '''' then opt4\<lparr>o_logPath := l\<rparr> else opt4)
                         in if w = '''' then Inr opt5
                            else (case parseBool w of
                                    None \<Rightarrow> Inl ''GOPLS_LAZY_WORKER_WARM''
                                  | Some b \<Rightarrow> Inr (opt5\<lparr>o_workerWarm := b\<rparr>))))"

section \<open>The command line\<close>

text \<open>\<open>cutFlagValue\<close>: the name, and the value behind the first equals sign.\<close>

definition cutFlagValue :: "string \<Rightarrow> string \<times> string option" where
  "cutFlagValue arg =
     (case arg of
        [] \<Rightarrow> (arg, None)
      | c # cs \<Rightarrow>
          if c \<noteq> CHR ''-'' then (arg, None)
          else
            let name = takeWhile (\<lambda>x. x \<noteq> CHR ''='') cs
            in if name = cs then (arg, None) else (c # name, Some (drop (Suc (length name)) cs)))"

text \<open>
  The cases of the switch: a flag that takes a value (which may be refused), a switch that may
  have one, or an argument for gopls.
\<close>

datatype flagKind =
    TakesValue "string \<Rightarrow> options \<Rightarrow> options option"
  | Switch "bool \<Rightarrow> options \<Rightarrow> options"
  | NotOurs

definition flagKindOf :: "(string \<Rightarrow> int option) \<Rightarrow> string \<Rightarrow> flagKind" where
  "flagKindOf pd name =
     (if name \<in> {''-gopls'', ''--gopls''} then TakesValue (\<lambda>v opt. Some (opt\<lparr>o_gopls := v\<rparr>))
      else if name \<in> {''-granularity'', ''--granularity''} then
        TakesValue (\<lambda>v opt. map_option (\<lambda>n. opt\<lparr>o_granularity := n\<rparr>) (atoi v))
      else if name \<in> {''-debounce'', ''--debounce''} then
        TakesValue (\<lambda>v opt. map_option (\<lambda>d. opt\<lparr>o_debounce := d\<rparr>) (pd v))
      else if name \<in> {''-evict'', ''--evict''} then
        TakesValue (\<lambda>v opt. map_option (\<lambda>d. opt\<lparr>o_evictTTL := d\<rparr>) (pd v))
      else if name \<in> {''-driver'', ''--driver''} then Switch (\<lambda>b opt. opt\<lparr>o_driver := b\<rparr>)
      else if name \<in> {''-log'', ''--log''} then TakesValue (\<lambda>v opt. Some (opt\<lparr>o_logPath := v\<rparr>))
      else if name \<in> {''-worker-ttl'', ''--worker-ttl''} then
        TakesValue (\<lambda>v opt. map_option (\<lambda>d. opt\<lparr>o_workerTTL := d\<rparr>) (pd v))
      else if name \<in> {''-worker-timeout'', ''--worker-timeout''} then
        TakesValue (\<lambda>v opt. map_option (\<lambda>d. opt\<lparr>o_workerTimeout := d\<rparr>) (pd v))
      else if name \<in> {''-worker-warm'', ''--worker-warm''} then
        Switch (\<lambda>b opt. opt\<lparr>o_workerWarm := b\<rparr>)
      else NotOurs)"

fun parseLoop :: "(string \<Rightarrow> int option) \<Rightarrow> string list \<Rightarrow> options \<Rightarrow> options parsed" where
  "parseLoop pd [] opt = Inr opt"
| "parseLoop pd (arg # rest) opt =
     (let (name, value) = cutFlagValue arg
      in case flagKindOf pd name of
           NotOurs \<Rightarrow> parseLoop pd rest (opt\<lparr>o_goplsArgs := o_goplsArgs opt @ [arg]\<rparr>)
         | Switch f \<Rightarrow>
             (case value of
                None \<Rightarrow> parseLoop pd rest (f True opt)
              | Some v \<Rightarrow> (case parseBool v of
                            None \<Rightarrow> Inl name | Some b \<Rightarrow> parseLoop pd rest (f b opt)))
         | TakesValue f \<Rightarrow>
             (case value of
                Some v \<Rightarrow> (case f v opt of None \<Rightarrow> Inl name | Some opt' \<Rightarrow> parseLoop pd rest opt')
              | None \<Rightarrow>
                  (case rest of
                     [] \<Rightarrow> Inl name
                   | v # rest' \<Rightarrow>
                       (case f v opt of None \<Rightarrow> Inl name | Some opt' \<Rightarrow> parseLoop pd rest' opt'))))"

definition parseArgs ::
  "(string \<Rightarrow> int option) \<Rightarrow> string list \<Rightarrow> (string \<Rightarrow> string) \<Rightarrow> options parsed" where
  "parseArgs pd args getenv =
     (case applyEnv pd getenv defaultOptions of Inl e \<Rightarrow> Inl e | Inr opt \<Rightarrow> parseLoop pd args opt)"

text \<open>\<open>Run\<close>: gopls started the process as its driver.\<close>

definition runsAsDriver :: "(string \<Rightarrow> string) \<Rightarrow> bool" where
  "runsAsDriver getenv \<longleftrightarrow> getenv ''GOPLS_LAZY_DRIVER'' = ''1'' \<and> getenv ''GOPLS_LAZY_SOCK'' \<noteq> ''''"

section \<open>Lemmas\<close>

text \<open>Parsing goes on where a successful parse of the first arguments ends.\<close>

lemma parseLoop_append:
  "parseLoop pd xs opt = Inr opt' \<Longrightarrow> parseLoop pd (xs @ ys) opt = parseLoop pd ys opt'"
proof (induction pd xs opt rule: parseLoop.induct)
  case (2 pd arg rest opt)
  then show ?case
    by (auto simp: Let_def split: prod.splits flagKind.splits option.splits list.splits)
qed simp

text \<open>
  The grammar of a command line: a flag with its value in the same argument or in the next one,
  a switch, or an argument for gopls.
\<close>

datatype token = Pass string | Own string | OwnNext string string

fun tokenArgs :: "token \<Rightarrow> string list" where
  "tokenArgs (Pass a) = [a]"
| "tokenArgs (Own a) = [a]"
| "tokenArgs (OwnNext a v) = [a, v]"

text \<open>What a token does to the options, \<open>None\<close> if it is not a token or its value is refused.\<close>

definition tokenEffect :: "(string \<Rightarrow> int option) \<Rightarrow> token \<Rightarrow> options \<Rightarrow> options option" where
  "tokenEffect pd t opt =
     (case t of
        Pass a \<Rightarrow>
          (case flagKindOf pd (fst (cutFlagValue a)) of
             NotOurs \<Rightarrow> Some (opt\<lparr>o_goplsArgs := o_goplsArgs opt @ [a]\<rparr>) | _ \<Rightarrow> None)
      | Own a \<Rightarrow>
          (case (flagKindOf pd (fst (cutFlagValue a)), snd (cutFlagValue a)) of
             (TakesValue f, Some v) \<Rightarrow> f v opt
           | (Switch f, None) \<Rightarrow> Some (f True opt)
           | (Switch f, Some v) \<Rightarrow> map_option (\<lambda>b. f b opt) (parseBool v)
           | _ \<Rightarrow> None)
      | OwnNext a v \<Rightarrow>
          (case (flagKindOf pd (fst (cutFlagValue a)), snd (cutFlagValue a)) of
             (TakesValue f, None) \<Rightarrow> f v opt | _ \<Rightarrow> None))"

fun tokensEffect :: "(string \<Rightarrow> int option) \<Rightarrow> token list \<Rightarrow> options \<Rightarrow> options option" where
  "tokensEffect pd [] opt = Some opt"
| "tokensEffect pd (t # ts) opt =
     (case tokenEffect pd t opt of None \<Rightarrow> None | Some opt' \<Rightarrow> tokensEffect pd ts opt')"

lemma parse_token:
  "tokenEffect pd t opt = Some opt' \<Longrightarrow>
     parseLoop pd (tokenArgs t @ rest) opt = parseLoop pd rest opt'"
  by (cases t) (auto simp: tokenEffect_def split: prod.splits flagKind.splits option.splits)

lemma parse_tokens:
  "tokensEffect pd ts opt = Some opt' \<Longrightarrow> parseLoop pd (concat (map tokenArgs ts)) opt = Inr opt'"
  by (induction ts arbitrary: opt) (auto simp: parse_token split: option.splits)

lemma tokens_parse:
  "parseLoop pd args opt = Inr opt' \<Longrightarrow>
     \<exists>ts. args = concat (map tokenArgs ts) \<and> tokensEffect pd ts opt = Some opt'"
proof (induction pd args opt rule: parseLoop.induct)
  case (1 pd opt)
  then show ?case by (intro exI [of _ "[]"]) simp
next
  case (2 pd arg rest opt)
  have more: "\<exists>ts. arg # rest = concat (map tokenArgs ts) \<and> tokensEffect pd ts opt = Some opt'"
    if t: "tokenArgs t @ rest' = arg # rest" "tokenEffect pd t opt = Some opt1"
      and r: "\<exists>ts. rest' = concat (map tokenArgs ts) \<and> tokensEffect pd ts opt1 = Some opt'"
    for t rest' opt1
  proof -
    obtain ts where "rest' = concat (map tokenArgs ts)" "tokensEffect pd ts opt1 = Some opt'"
      using r by blast
    then show ?thesis using t by (intro exI [of _ "t # ts"]) simp
  qed
  obtain name val where c: "cutFlagValue arg = (name, val)" by fastforce
  show ?case
  proof (cases "flagKindOf pd name")
    case NotOurs
    then show ?thesis
      using 2(5,6) c
      by (intro more [of "Pass arg" rest "opt\<lparr>o_goplsArgs := o_goplsArgs opt @ [arg]\<rparr>"])
        (auto simp: tokenEffect_def)
  next
    case (Switch f)
    show ?thesis
    proof (cases val)
      case None
      then show ?thesis
        using 2(3,6) c Switch
        by (intro more [of "Own arg" rest "f True opt"]) (auto simp: tokenEffect_def)
    next
      case (Some v)
      then obtain b where "parseBool v = Some b" "parseLoop pd rest (f b opt) = Inr opt'"
        using 2(6) c Switch by (auto split: option.splits)
      then show ?thesis
        using 2(4) c Switch Some by (intro more [of "Own arg" rest "f b opt"]) (auto simp: tokenEffect_def)
    qed
  next
    case (TakesValue f)
    show ?thesis
    proof (cases val)
      case (Some v)
      then obtain opt1 where "f v opt = Some opt1" "parseLoop pd rest opt1 = Inr opt'"
        using 2(6) c TakesValue by (auto split: option.splits)
      then show ?thesis
        using 2(2) c TakesValue Some by (intro more [of "Own arg" rest opt1]) (auto simp: tokenEffect_def)
    next
      case None
      then obtain v rest' opt1 where "rest = v # rest'" "f v opt = Some opt1" "parseLoop pd rest' opt1 = Inr opt'"
        using 2(6) c TakesValue by (auto split: option.splits list.splits)
      then show ?thesis
        using 2(1) c TakesValue None by (intro more [of "OwnNext arg v" rest' opt1]) (auto simp: tokenEffect_def)
    qed
  qed
qed

lemma parseLoop_iff:
  "parseLoop pd args opt = Inr opt' \<longleftrightarrow>
     (\<exists>ts. args = concat (map tokenArgs ts) \<and> tokensEffect pd ts opt = Some opt')"
  using tokens_parse [of pd args opt opt'] parse_tokens [of pd _ opt opt'] by blast

lemma quiet_env [simp]: "applyEnv pd (\<lambda>key. '''') opt = Inr opt"
  by (simp add: applyEnv_def durationVars_def)

section \<open>Properties\<close>

text \<open>C23: the command line has one reading. Parsing succeeds with some options if and only if
  the environment is accepted and the arguments are a sequence of flags with their values, switches and
  other arguments whose effects, in order, lead from the options of the environment to these;
  the arguments that are not flags of the proxy are handed to gopls unchanged and in order.\<close>

theorem parseArgs_grammar:
  "parseArgs pd args getenv = Inr opt' \<longleftrightarrow>
     (\<exists>opt ts. applyEnv pd getenv defaultOptions = Inr opt \<and>
        args = concat (map tokenArgs ts) \<and> tokensEffect pd ts opt = Some opt')"
  by (auto simp: parseArgs_def parseLoop_iff split: sum.split)

text \<open>a later flag wins. Appending a flag of the proxy to arguments that parse changes its
  option and no other, whatever the environment and the earlier arguments said.\<close>

theorem later_flag_wins:
  assumes "parseArgs pd args getenv = Inr opt" and "flagKindOf pd name = TakesValue f"
    and "cutFlagValue name = (name, None)" and "f v opt = Some opt'"
  shows "parseArgs pd (args @ [name, v]) getenv = Inr opt'"
proof -
  obtain opt0 where env: "applyEnv pd getenv defaultOptions = Inr opt0"
    and p: "parseLoop pd args opt0 = Inr opt"
    using assms(1) by (auto simp: parseArgs_def split: sum.splits)
  show ?thesis
    using parseLoop_append [OF p, of "[name, v]"] assms(2-4) by (simp add: parseArgs_def env)
qed

theorem later_flag_wins_witness:
  "parseArgs (\<lambda>s. None) ([''-granularity=2'', ''serve''] @ [''-granularity'', ''5'']) (\<lambda>key. '''') =
     Inr (defaultOptions\<lparr>o_granularity := 5, o_goplsArgs := [''serve'']\<rparr>)"
proof (rule later_flag_wins)
  show "parseArgs (\<lambda>s. None) [''-granularity=2'', ''serve''] (\<lambda>key. '''') =
      Inr (defaultOptions\<lparr>o_granularity := 2, o_goplsArgs := [''serve'']\<rparr>)"
    by (simp add: parseArgs_def cutFlagValue_def flagKindOf_def atoi_def decimal_def defaultOptions_def)
  show "flagKindOf (\<lambda>s. None) ''-granularity'' =
      TakesValue (\<lambda>v opt. map_option (\<lambda>n. opt\<lparr>o_granularity := n\<rparr>) (atoi v))"
    by (simp add: flagKindOf_def)
qed (simp_all add: cutFlagValue_def atoi_def decimal_def)

text \<open>a negative granularity is accepted and crashes the proxy. The option is taken over
  as it is, and with it \<open>scopeUnit\<close> slices out of range for every directory.\<close>

theorem negative_granularity_panics:
  "\<exists>opt. parseArgs pd [''-granularity=-1''] (\<lambda>key. '''') = Inr opt \<and> o_granularity opt = - 1 \<and>
     scopeUnitInt rel (o_granularity opt) = None"
  by (simp add: parseArgs_def cutFlagValue_def flagKindOf_def atoi_def decimal_def
      defaultOptions_def scopeUnitInt_def Let_def)

end
