(* ===== verification/Driver.thy ===== *)
theory Driver
  imports Modules Options
begin

text \<open>
  The driver side (\<open>driver.go\<close>, \<open>proxy.go\<close>, \<open>worker.go\<close>, \<open>graph.go\<close>): the environment in which the
  proxy starts gopls and its own builds, the process gopls starts to load packages, and the
  connection that takes its query to the graph server and the answer back.
\<close>

section \<open>Environments\<close>

text \<open>
  An environment is the list of its \<open>key=value\<close> strings; \<open>exec.Cmd\<close> keeps the last one of a key, so
  that is what the started process reads.
\<close>

definition setting :: "string \<Rightarrow> string \<Rightarrow> string" where
  "setting k v = k @ ''='' @ v"

fun lookupEnv :: "string list \<Rightarrow> string \<Rightarrow> string option" where
  "lookupEnv [] k = None"
| "lookupEnv (e # es) k =
     (case lookupEnv es k of Some v \<Rightarrow> Some v | None \<Rightarrow> cutPrefix e (k @ ''=''))"

definition Getenv :: "string list \<Rightarrow> string \<Rightarrow> string" where
  "Getenv env k = (case lookupEnv env k of None \<Rightarrow> '''' | Some v \<Rightarrow> v)"

text \<open>
  The environment of gopls. \<open>sock\<close>: where the graph server listens, absent when it did not start;
  \<open>exe\<close>: the path of this program, if the system tells it.
\<close>

definition driverSettings :: "string \<Rightarrow> string \<Rightarrow> string list" where
  "driverSettings x s = [setting ''GOPACKAGESDRIVER'' x, setting ''GOPLS_LAZY_DRIVER'' ''1'',
     setting ''GOPLS_LAZY_SOCK'' s]"

definition goplsEnv :: "bool \<Rightarrow> string option \<Rightarrow> string option \<Rightarrow> string list \<Rightarrow> string list" where
  "goplsEnv driver sock exe environ =
     (if driver then
        (case sock of
           None \<Rightarrow> environ
         | Some s \<Rightarrow>
             (case exe of
                None \<Rightarrow> environ
              | Some x \<Rightarrow>
                  environ @ driverSettings x s))
      else environ)"

text \<open>The environment of a worker gopls: \<open>graph\<close> is the socket of the proxy's graph server.\<close>

definition workerGoplsEnv :: "bool \<Rightarrow> string option \<Rightarrow> string option \<Rightarrow> string list \<Rightarrow> string list" where
  "workerGoplsEnv driver graph exe environ =
     (if driver \<and> graph \<noteq> None \<and> exe \<noteq> None then
        environ @ driverSettings (the exe) (the graph)
      else environ)"

text \<open>The environment of the builds of the graph server.\<close>

definition buildEnv :: "string list \<Rightarrow> string list" where
  "buildEnv environ = environ @ [''GOPACKAGESDRIVER=off'']"

section \<open>The driver process\<close>

definition notHandled :: string where
  "notHandled = ''{'' @ [quoteChar] @ ''NotHandled'' @ [quoteChar] @ '':true}''"

definition writeNotHandled :: "int \<times> string" where
  "writeNotHandled = (0, notHandled)"

text \<open>The query on the wire; the request is JSON the driver does not look into.\<close>

record wireQuery =
  w_patterns :: "string list"
  w_dir :: string
  w_request :: json

text \<open>
  \<open>runDriver\<close>: the exit code and what is printed. \<open>stdin\<close>: absent if it cannot be read, then absent
  if it is not JSON, on which the encoder fails. \<open>dial\<close> gives the connection to a socket: what is
  read from it after the query was sent, absent on an error or when the deadline passes.
\<close>

definition runDriver ::
  "(string \<Rightarrow> string) \<Rightarrow> (string \<Rightarrow> (wireQuery \<Rightarrow> string option) option) \<Rightarrow> string list \<Rightarrow> string
   \<Rightarrow> json option option \<Rightarrow> int \<times> string" where
  "runDriver getenv dial args wd stdin =
     (case stdin of
        None \<Rightarrow> writeNotHandled
      | Some req \<Rightarrow>
          let sock = getenv ''GOPLS_LAZY_SOCK''
          in if sock = '''' then writeNotHandled
             else (case dial sock of
                     None \<Rightarrow> writeNotHandled
                   | Some conn \<Rightarrow>
                       (case req of
                          None \<Rightarrow> writeNotHandled
                        | Some r \<Rightarrow>
                            (case conn \<lparr>w_patterns = args, w_dir = wd, w_request = r\<rparr> of
                               None \<Rightarrow> writeNotHandled
                             | Some data \<Rightarrow> if data = '''' then writeNotHandled else (0, data)))))"

section \<open>The connection\<close>

text \<open>
  What the graph server takes out of the request of go/packages, a type outside this repository:
  its build flags and its overlay. \<open>readRequest\<close> unmarshals it.
\<close>

type_synonym requestReader = "json \<Rightarrow> (string list \<times> (string \<times> string) list) option"

definition queryOf :: "requestReader \<Rightarrow> wireQuery \<Rightarrow> driverQuery option" where
  "queryOf readRequest w =
     map_option (\<lambda>(flags, overlay). \<lparr>q_patterns = w_patterns w, q_dir = w_dir w,
       q_buildFlags = flags, q_overlay = overlay\<rparr>) (readRequest (w_request w))"

definition answerBytes :: "answer \<Rightarrow> string" where
  "answerBytes a = (case a of NotHandled \<Rightarrow> notHandled | Served resp \<Rightarrow> resp)"

text \<open>
  \<open>answer\<close> to the end: a query that has to build its module's slot waits for \<open>load\<close>, which gives the
  response of the build, absent when it fails.
\<close>

definition answerWire ::
  "(string \<Rightarrow> string \<Rightarrow> string) option \<Rightarrow> (string \<Rightarrow> (string \<Rightarrow> string \<Rightarrow> bool) option)
   \<Rightarrow> (buildJob \<Rightarrow> string option) \<Rightarrow> driverQuery option \<Rightarrow> graphServer \<Rightarrow> string \<times> graphServer" where
  "answerWire modRoots idxOf load q g =
     (case answerQuery modRoots idxOf q g of
        (FromMain a job, g1) \<Rightarrow> (answerBytes a, g1)
      | (FromNested modRoot (Answered a job), g1) \<Rightarrow> (answerBytes a, g1)
      | (FromNested modRoot (MustBuild job), g1) \<Rightarrow>
          let slot = finishBuild job (load job) (fst (subslotFor modRoot g1))
          in (answerBytes (nestedAfterBuild slot),
              g1\<lparr>gs_subslots := gput modRoot slot (gs_subslots g1)\<rparr>))"

text \<open>\<open>handle\<close>: the query is absent when it does not decode; then nothing is written.\<close>

definition handleConn ::
  "(string \<Rightarrow> string \<Rightarrow> string) option \<Rightarrow> (string \<Rightarrow> (string \<Rightarrow> string \<Rightarrow> bool) option)
   \<Rightarrow> (buildJob \<Rightarrow> string option) \<Rightarrow> requestReader \<Rightarrow> wireQuery option \<Rightarrow> graphServer
   \<Rightarrow> string \<times> graphServer" where
  "handleConn modRoots idxOf load readRequest w g =
     (case w of None \<Rightarrow> ('''', g) | Some w' \<Rightarrow> answerWire modRoots idxOf load (queryOf readRequest w') g)"

section \<open>Lemmas\<close>

lemma takeWhile_key: "CHR ''='' \<notin> set k \<Longrightarrow> takeWhile (\<lambda>c. c \<noteq> CHR ''='') (k @ CHR ''='' # v) = k"
  by (induction k) auto

lemma cutPrefix_setting:
  assumes "CHR ''='' \<notin> set k" and "CHR ''='' \<notin> set k'"
  shows "cutPrefix (setting k' v) (k @ ''='') = (if k = k' then Some v else None)"
proof -
  have "k = k'" if "k @ CHR ''='' # w = k' @ CHR ''='' # v" for w
    using arg_cong [OF that, of "takeWhile (\<lambda>c. c \<noteq> CHR ''='')"] takeWhile_key assms by metis
  then show ?thesis by (auto simp: cutPrefix_def setting_def prefix_def)
qed

lemma lookupEnv_append:
  "lookupEnv (xs @ ys) k = (case lookupEnv ys k of Some v \<Rightarrow> Some v | None \<Rightarrow> lookupEnv xs k)"
  by (induction xs) (auto split: option.splits)

text \<open>A process with these settings reads the three variables as they were set.\<close>

lemma lookup_driverSettings:
  "CHR ''='' \<notin> set k \<Longrightarrow> lookupEnv (driverSettings x s) k =
     (if k = ''GOPLS_LAZY_SOCK'' then Some s else if k = ''GOPLS_LAZY_DRIVER'' then Some ''1''
      else if k = ''GOPACKAGESDRIVER'' then Some x else None)"
  by (simp add: driverSettings_def cutPrefix_setting)

lemma Getenv_driver:
  "Getenv (environ @ driverSettings x s) ''GOPLS_LAZY_SOCK'' = s"
  "Getenv (environ @ driverSettings x s) ''GOPLS_LAZY_DRIVER'' = ''1''"
  "Getenv (environ @ driverSettings x s) ''GOPACKAGESDRIVER'' = x"
  by (simp_all add: Getenv_def lookupEnv_append lookup_driverSettings)

section \<open>Properties\<close>

text \<open>C31: gopls loads packages through this proxy. Whatever the proxy's own environment holds, the
  gopls it starts and the gopls of each worker load packages with this program, which then runs as a
  driver and reads the socket of this proxy; and the builds of the graph server do not load packages
  through it, so a query never starts another one.\<close>

theorem gopls_uses_this_driver:
  assumes "s \<noteq> ''''"
  shows "Getenv (goplsEnv True (Some s) (Some x) environ) ''GOPACKAGESDRIVER'' = x \<and>
    runsAsDriver (Getenv (goplsEnv True (Some s) (Some x) environ)) \<and>
    Getenv (goplsEnv True (Some s) (Some x) environ) ''GOPLS_LAZY_SOCK'' = s \<and>
    workerGoplsEnv True (Some s) (Some x) environ = goplsEnv True (Some s) (Some x) environ \<and>
    Getenv (buildEnv environ) ''GOPACKAGESDRIVER'' = ''off''"
  using assms
  by (simp add: goplsEnv_def workerGoplsEnv_def runsAsDriver_def Getenv_driver buildEnv_def Getenv_def
      lookupEnv_append lookup_driverSettings cutPrefix_def)

theorem gopls_uses_this_driver_witness:
  "runsAsDriver (Getenv (goplsEnv True (Some ''/tmp/s'') (Some ''/bin/x'')
     [''GOPLS_LAZY_DRIVER=0'', ''GOPACKAGESDRIVER=off'']))"
  using gopls_uses_this_driver [of "''/tmp/s''" "''/bin/x''"
      "[''GOPLS_LAZY_DRIVER=0'', ''GOPACKAGESDRIVER=off'']"] by simp

text \<open>C32: a driver failure is never worse than no driver. The driver process always exits with 0, and
  it prints either that it does not handle the query or a non-empty answer it read from the
  connection to the query it was started with.\<close>

theorem driver_degrades:
  "fst (runDriver getenv dial args wd stdin) = 0 \<and>
   (snd (runDriver getenv dial args wd stdin) = notHandled \<or>
    (\<exists>r conn. stdin = Some (Some r) \<and> dial (getenv ''GOPLS_LAZY_SOCK'') = Some conn \<and>
       conn \<lparr>w_patterns = args, w_dir = wd, w_request = r\<rparr> = Some (snd (runDriver getenv dial args wd stdin)) \<and>
       snd (runDriver getenv dial args wd stdin) \<noteq> ''''))"
  by (auto simp: runDriver_def writeNotHandled_def Let_def split: option.splits)

text \<open>what gopls loads is the right graph. A query of the main module that gopls asks through the
  driver, in the environment the proxy gave it, ends with the answer that it is not handled or with
  a response \<open>go list\<close> returned for the patterns and the build flags of the query, in a directory
  that contains the query's, while no overlay changes the imports of a file; and when the main slot
  serves a response, that is what the driver prints.\<close>

theorem driver_prints_matching_graph:
  assumes "slotReachable loaded (gs_main g, jobs)" and "readRequest req = Some (flags, overlay)"
    and "queryOk args flags" and "sock \<noteq> ''''"
    and "dial sock = Some (\<lambda>w. Some (fst (handleConn modRoots idxOf load readRequest (Some w) g)))"
    and "resolveModRootForQuery modRoots g \<lparr>q_patterns = args, q_dir = wd, q_buildFlags = flags,
           q_overlay = overlay\<rparr> = ''''"
    and "runDriver (Getenv (goplsEnv True (Some sock) (Some exe) environ)) dial args wd (Some (Some req)) =
           (code, out)"
  shows "code = 0 \<and> (out = notHandled \<or>
    (\<exists>dir. loaded args dir flags out \<and> dirCompatible wd dir \<and> \<not> overlayDirty (idxOf '''') overlay)) \<and>
    (\<forall>resp. fst (answerSlot (idxOf '''') \<lparr>q_patterns = args, q_dir = wd, q_buildFlags = flags,
        q_overlay = overlay\<rparr> (canonicalKey args flags) (gs_main g)) = Served resp \<longrightarrow> resp \<noteq> '''' \<longrightarrow> out = resp)"
proof -
  let ?q = "\<lparr>q_patterns = args, q_dir = wd, q_buildFlags = flags, q_overlay = overlay\<rparr>"
  obtain a j slot where ans: "answerSlot (idxOf '''') ?q (canonicalKey args flags) (gs_main g) = (a, j, slot)"
    by (metis prod.collapse)
  have "fst (handleConn modRoots idxOf load readRequest
      (Some \<lparr>w_patterns = args, w_dir = wd, w_request = req\<rparr>) g) = answerBytes a"
    using assms(2,6) ans by (simp add: handleConn_def answerWire_def queryOf_def answerQuery_def)
  then have out: "code = 0" "out = notHandled \<or> out = answerBytes a"
    "answerBytes a \<noteq> '''' \<longrightarrow> out = answerBytes a"
    using assms(4,5,7)
    by (auto simp: runDriver_def writeNotHandled_def goplsEnv_def Getenv_driver split: if_splits)
  show ?thesis
  proof (cases a)
    case (Served resp)
    from served_slot [OF assms(1), of ?q "idxOf ''''" resp j slot] show ?thesis
      using out assms(3) ans Served by (auto simp: answerBytes_def)
  qed (use out ans in \<open>auto simp: answerBytes_def\<close>)
qed

text \<open>The query \<open>./...\<close> to a server with a graph for it.\<close>

definition driverServer :: graphServer where
  "driverServer = \<lparr>gs_root = ''/w'', gs_main = exampleSlot, gs_subslots = []\<rparr>"

definition driverConn :: "wireQuery \<Rightarrow> string option" where
  "driverConn w = Some (fst (handleConn None (\<lambda>m. None) (\<lambda>job. None) (\<lambda>req. Some ([], [])) (Some w)
     driverServer))"

theorem driver_prints_matching_graph_witness:
  "snd (runDriver (Getenv (goplsEnv True (Some ''/tmp/s'') (Some ''/bin/x'') []))
     (\<lambda>s. if s = ''/tmp/s'' then Some driverConn else None) [''./...''] ''/w/pkg'' (Some (Some (JObj [])))) = ''G''"
proof -
  let ?dial = "\<lambda>s. if s = ''/tmp/s'' then Some driverConn else None"
  obtain code out where run: "runDriver (Getenv (goplsEnv True (Some ''/tmp/s'') (Some ''/bin/x'') [])) ?dial
      [''./...''] ''/w/pkg'' (Some (Some (JObj []))) = (code, out)"
    by fastforce
  have "slotReachable (\<lambda>ps d fs b. b = ''G'') (gs_main driverServer, [])"
    using exampleSlot_reachable by (simp add: driverServer_def)
  from driver_prints_matching_graph [OF this _ exampleQuery_ok _ _ _ run,
      where modRoots = None and idxOf = "\<lambda>m. None" and load = "\<lambda>job. None"
        and readRequest = "\<lambda>req. Some ([], [])" and overlay = "[]"]
  have "\<forall>resp. fst (answerSlot None exampleQuery (canonicalKey [''./...''] []) exampleSlot) = Served resp \<longrightarrow>
      resp \<noteq> '''' \<longrightarrow> out = resp"
    by (simp add: driverServer_def driverConn_def [abs_def] exampleQuery_def resolveModRootForQuery_def
        resolveModRoot_def queryFileTargets.simps cutPrefix_def)
  then have "out = ''G''" using exampleSlot_serves by (simp add: exampleQuery_def)
  then show ?thesis using run by simp
qed

end
