(* ===== verification/DiskCache.thy ===== *)
theory DiskCache
  imports Modules
begin

text \<open>
  The cache files of the proxy (\<open>graph.go\<close>, \<open>scope.go\<close>): under which name the graph and the scope of a
  root are kept, what a graph read back from disk is worth, and the replacement of a file through
  its temporary name, byte by byte and by several writers.
\<close>

section \<open>Names\<close>

text \<open>\<open>strings.SplitN(s, c, n)\<close> for \<open>n > 0\<close>: the last piece is the unsplit rest.\<close>

fun splitN :: "nat \<Rightarrow> char \<Rightarrow> string \<Rightarrow> string list" where
  "splitN 0 c s = []"
| "splitN (Suc 0) c s = [s]"
| "splitN (Suc (Suc n)) c s =
     (let a = takeWhile (\<lambda>x. x \<noteq> c) s
      in if length a = length s then [s] else a # splitN (Suc n) c (drop (Suc (length a)) s))"

text \<open>The loop over the first lines of \<open>go.mod\<close> in \<open>graphCacheKey\<close>.\<close>

fun moduleLine :: "string list \<Rightarrow> string option" where
  "moduleLine [] = None"
| "moduleLine (line # lines) =
     (case cutPrefix line ''module '' of
        Some m \<Rightarrow> if trimSpace m \<noteq> '''' then Some (trimSpace m) else moduleLine lines
      | None \<Rightarrow> moduleLine lines)"

text \<open>
  \<open>graphCacheKey\<close>: \<open>git\<close> is the output of \<open>git rev-parse --git-common-dir\<close> in a directory, absent
  when the command fails (\<open>runGit\<close>).
\<close>

definition graphCacheKey ::
  "(string \<Rightarrow> string option) \<Rightarrow> (string \<Rightarrow> string option) \<Rightarrow> string \<Rightarrow> string" where
  "graphCacheKey git readFile root =
     (case git root of
        Some out \<Rightarrow>
          (let dir = trimSpace out in if \<not> filepathIsAbs dir then filepathJoin root dir else dir)
      | None \<Rightarrow>
          (case readFile (filepathJoin root ''go.mod'') of
             None \<Rightarrow> root
           | Some b \<Rightarrow>
               (case moduleLine (splitN 20 newlineChar b) of Some m \<Rightarrow> m | None \<Rightarrow> root)))"

text \<open>
  \<open>graphCacheFile\<close>: \<open>hash\<close> is the hexadecimal form of the first eight bytes of the SHA-256 sum,
  \<open>cacheDir\<close> the cache directory of the user, absent when the system does not tell it.
\<close>

definition graphCacheFile ::
  "(string \<Rightarrow> string) \<Rightarrow> string option \<Rightarrow> string \<Rightarrow> string \<Rightarrow> string" where
  "graphCacheFile hash cacheDir home key =
     (let base = (case cacheDir of Some d \<Rightarrow> d | None \<Rightarrow> filepathJoin home ''.cache'')
      in filepathJoin (filepathJoin base ''gopls-lazy'') (''graph-'' @ hash key @ ''.json''))"

section \<open>After loading\<close>

text \<open>
  \<open>setEmbedFromResp\<close>: \<open>unmarshal\<close> reads the packages out of a response, as far as the footprint
  needs them; and the delay of the deferred revalidation, in seconds.
\<close>

definition setEmbedFromResp ::
  "(string \<Rightarrow> embedPkg list option) \<Rightarrow> string \<Rightarrow> graphSlot \<Rightarrow> graphSlot" where
  "setEmbedFromResp unmarshal resp slot =
     (case unmarshal resp of
        None \<Rightarrow> slot
      | Some pkgs \<Rightarrow> (let (files, prefixSet) = embedFootprint pkgs in storeEmbedSlot files prefixSet slot))"

definition revalidateDelay :: "bool \<Rightarrow> int" where
  "revalidateDelay fresh = (if fresh then 120 else 15)"

section \<open>Replacing a file\<close>

text \<open>
  The files under a cache directory: a name refers to an inode, whose content is a string of bytes.
  \<open>os.WriteFile\<close> opens its file, creating or emptying it, and writes from the start; \<open>os.Rename\<close>
  replaces the target and fails if the source is gone.
\<close>

record files =
  f_names :: "(string, nat) gomap"
  f_data :: "string list"

definition readName :: "string \<Rightarrow> files \<Rightarrow> string option" where
  "readName name fs = map_option ((!) (f_data fs)) (gget (f_names fs) name)"

definition openTrunc :: "string \<Rightarrow> files \<Rightarrow> nat \<times> files" where
  "openTrunc name fs =
     (case gget (f_names fs) name of
        Some i \<Rightarrow> (i, fs\<lparr>f_data := (f_data fs)[i := '''']\<rparr>)
      | None \<Rightarrow> (length (f_data fs),
          fs\<lparr>f_names := gput name (length (f_data fs)) (f_names fs), f_data := f_data fs @ ['''']\<rparr>))"

definition writeAt :: "nat \<Rightarrow> nat \<Rightarrow> string \<Rightarrow> files \<Rightarrow> files" where
  "writeAt i off b fs =
     fs\<lparr>f_data := (f_data fs)[i := take off (f_data fs ! i) @ b @ drop (off + length b) (f_data fs ! i)]\<rparr>"

definition renameFile :: "string \<Rightarrow> string \<Rightarrow> files \<Rightarrow> bool \<times> files" where
  "renameFile from to fs =
     (case gget (f_names fs) from of
        None \<Rightarrow> (False, fs)
      | Some i \<Rightarrow> (True, fs\<lparr>f_names := gput to i (gdel from (f_names fs))\<rparr>))"

definition removeFile :: "string \<Rightarrow> files \<Rightarrow> files" where
  "removeFile name fs = fs\<lparr>f_names := gdel name (f_names fs)\<rparr>"

text \<open>
  The end of \<open>saveDiskCache\<close> (and of \<open>saveScope\<close>, which is written the same way): the goroutines of
  \<open>texts\<close> write the same file \<open>path\<close>. A crash stops all of them after any step, so what it leaves is
  the state of some reachable point. \<open>SvWriting i n\<close>: \<open>n\<close> bytes are written to inode \<open>i\<close>; a write that
  fails (\<open>sv_fail\<close>) ends the goroutine and leaves the temporary file.
\<close>

datatype saver = SvStart | SvWriting nat nat | SvWritten | SvDone

definition tmpName :: "string \<Rightarrow> string" where
  "tmpName path = path @ ''.tmp''"

inductive saveStep :: "string \<Rightarrow> string list \<Rightarrow> files \<times> saver list \<Rightarrow> files \<times> saver list \<Rightarrow> bool"
  for path texts where
  sv_open: "k < length pcs \<Longrightarrow> pcs ! k = SvStart \<Longrightarrow> openTrunc (tmpName path) fs = (i, fs') \<Longrightarrow>
    saveStep path texts (fs, pcs) (fs', pcs[k := SvWriting i 0])"
| sv_write: "k < length pcs \<Longrightarrow> pcs ! k = SvWriting i n \<Longrightarrow> n + length b \<le> length (texts ! k) \<Longrightarrow>
    b = take (length b) (drop n (texts ! k)) \<Longrightarrow>
    saveStep path texts (fs, pcs) (writeAt i n b fs, pcs[k := SvWriting i (n + length b)])"
| sv_close: "k < length pcs \<Longrightarrow> pcs ! k = SvWriting i (length (texts ! k)) \<Longrightarrow>
    saveStep path texts (fs, pcs) (fs, pcs[k := SvWritten])"
| sv_fail: "k < length pcs \<Longrightarrow> pcs ! k = SvWriting i n \<Longrightarrow>
    saveStep path texts (fs, pcs) (fs, pcs[k := SvDone])"
| sv_rename: "k < length pcs \<Longrightarrow> pcs ! k = SvWritten \<Longrightarrow> renameFile (tmpName path) path fs = (ok, fs') \<Longrightarrow>
    saveStep path texts (fs, pcs) (if ok then fs' else removeFile (tmpName path) fs', pcs[k := SvDone])"

text \<open>Distinct names of distinct files that exist.\<close>

definition files_ok :: "files \<Rightarrow> bool" where
  "files_ok fs \<longleftrightarrow> wf_map (f_names fs) \<and> (\<forall>n i. gget (f_names fs) n = Some i \<longrightarrow> i < length (f_data fs)) \<and>
     (\<forall>n m i. gget (f_names fs) n = Some i \<longrightarrow> gget (f_names fs) m = Some i \<longrightarrow> n = m)"

section \<open>One writer\<close>

lemma tmpName_neq [simp]: "tmpName path \<noteq> path" "path \<noteq> tmpName path"
  by (auto simp: tmpName_def)

lemma readName_simps [simp]:
  "readName n (fs\<lparr>f_names := gdel m (f_names fs)\<rparr>) = (if n = m then None else readName n fs)"
  "readName n (removeFile m fs) = (if n = m then None else readName n fs)"
  by (simp_all add: readName_def removeFile_def)

lemma files_ok_open:
  assumes "files_ok fs" and "openTrunc name fs = (i, fs')"
  shows "files_ok fs' \<and> gget (f_names fs') name = Some i \<and> f_data fs' ! i = '''' \<and>
    (\<forall>n. n \<noteq> name \<longrightarrow> readName n fs' = readName n fs)"
proof (cases "gget (f_names fs) name")
  case (Some j)
  then have j: "j < length (f_data fs)" "n \<noteq> name \<Longrightarrow> gget (f_names fs) n \<noteq> Some j" for n
    using assms(1) by (auto simp: files_ok_def)
  have "i = j" "fs' = fs\<lparr>f_data := (f_data fs)[j := '''']\<rparr>"
    using assms(2) Some by (auto simp: openTrunc_def)
  moreover have "map_option ((!) ((f_data fs)[j := ''''])) (gget (f_names fs) n) =
      map_option ((!) (f_data fs)) (gget (f_names fs) n)" if "n \<noteq> name" for n
    using j(2) [OF that] by (cases "gget (f_names fs) n") auto
  ultimately show ?thesis using assms(1) Some j(1) by (auto simp: files_ok_def readName_def)
next
  case None
  have lt: "gget (f_names fs) n = Some k \<Longrightarrow> k < length (f_data fs)" for n k
    using assms(1) by (simp add: files_ok_def)
  moreover have "i = length (f_data fs)"
    "fs' = fs\<lparr>f_names := gput name i (f_names fs), f_data := f_data fs @ ['''']\<rparr>"
    using assms(2) None by (auto simp: openTrunc_def)
  moreover have "map_option ((!) (f_data fs @ [''''])) (gget (f_names fs) n) =
      map_option ((!) (f_data fs)) (gget (f_names fs) n)" for n
    using lt [of n] by (cases "gget (f_names fs) n") (auto simp: nth_append)
  ultimately show ?thesis
    using assms(1) by (fastforce simp: files_ok_def readName_def)
qed

lemma files_ok_write:
  assumes "files_ok fs" and "gget (f_names fs) name = Some i"
  shows "files_ok (writeAt i off b fs) \<and> gget (f_names (writeAt i off b fs)) name = Some i \<and>
    f_data (writeAt i off b fs) ! i = take off (f_data fs ! i) @ b @ drop (off + length b) (f_data fs ! i) \<and>
    (\<forall>n. n \<noteq> name \<longrightarrow> readName n (writeAt i off b fs) = readName n fs)"
proof -
  have i: "i < length (f_data fs)" "n \<noteq> name \<Longrightarrow> gget (f_names fs) n \<noteq> Some i" for n
    using assms by (auto simp: files_ok_def)
  have "map_option ((!) ((f_data fs)[i := v])) (gget (f_names fs) n) =
      map_option ((!) (f_data fs)) (gget (f_names fs) n)" if "n \<noteq> name" for n v
    using i(2) [OF that] by (cases "gget (f_names fs) n") auto
  then show ?thesis using i(1) assms by (auto simp: files_ok_def readName_def writeAt_def)
qed

lemma files_ok_rename:
  assumes "files_ok fs" and "gget (f_names fs) from = Some i" and "from \<noteq> to"
    and "renameFile from to fs = (ok, fs')"
  shows "ok \<and> files_ok fs' \<and> readName to fs' = Some (f_data fs ! i) \<and>
    (\<forall>n. n \<notin> {from, to} \<longrightarrow> readName n fs' = readName n fs)"
proof -
  have "ok" "fs' = fs\<lparr>f_names := gput to i (gdel from (f_names fs))\<rparr>"
    using assms(2,4) by (auto simp: renameFile_def)
  then show ?thesis
    using assms(1-3) by (auto simp: files_ok_def readName_def split: if_splits)
qed

text \<open>What holds at each point of a single writer of \<open>t\<close> that found \<open>fs0\<close>.\<close>

definition writer_inv :: "string \<Rightarrow> string \<Rightarrow> files \<Rightarrow> files \<times> saver list \<Rightarrow> bool" where
  "writer_inv path t fs0 s \<longleftrightarrow>
     (case s of (fs, pcs) \<Rightarrow>
        length pcs = 1 \<and> files_ok fs \<and>
        (\<forall>n. n \<notin> {path, tmpName path} \<longrightarrow> readName n fs = readName n fs0) \<and>
        (pcs ! 0 \<noteq> SvDone \<longrightarrow> readName path fs = readName path fs0) \<and>
        readName path fs \<in> {readName path fs0, Some t} \<and>
        (\<forall>i n. pcs ! 0 = SvWriting i n \<longrightarrow>
           n \<le> length t \<and> gget (f_names fs) (tmpName path) = Some i \<and> f_data fs ! i = take n t) \<and>
        (pcs ! 0 = SvWritten \<longrightarrow>
           (\<exists>i. gget (f_names fs) (tmpName path) = Some i \<and> f_data fs ! i = t)))"

lemma writer_inv_step:
  assumes "saveStep path [t] s s'" and "writer_inv path t fs0 s"
  shows "writer_inv path t fs0 s'"
  using assms
proof (induction rule: saveStep.induct)
  case (sv_open k pcs fs i fs')
  then show ?case using files_ok_open [of fs "tmpName path" i fs'] by (auto simp: writer_inv_def)
next
  case (sv_write k pcs i n b fs)
  then have k: "k = 0" "length pcs = 1" by (auto simp: writer_inv_def)
  then have w: "files_ok fs" "gget (f_names fs) (tmpName path) = Some i" "f_data fs ! i = take n t"
    and b: "take n t @ b = take (n + length b) t"
    using sv_write by (auto simp: writer_inv_def take_add)
  have "f_data (writeAt i n b fs) ! i = take (n + length b) t"
    using files_ok_write [OF w(1,2), of n b] w(3) b by simp
  then show ?case
    using files_ok_write [OF w(1,2), of n b] sv_write k by (auto simp: writer_inv_def)
next
  case (sv_close k pcs i fs)
  then show ?case by (auto simp: writer_inv_def)
next
  case (sv_fail k pcs i n fs)
  then show ?case by (auto simp: writer_inv_def)
next
  case (sv_rename k pcs fs ok fs')
  then obtain i where i: "gget (f_names fs) (tmpName path) = Some i" "f_data fs ! i = t" "files_ok fs"
    by (auto simp: writer_inv_def)
  from files_ok_rename [OF i(3,1) tmpName_neq(1) sv_rename(3)] i(2) sv_rename show ?case
    by (auto simp: writer_inv_def)
qed

lemma write_all:
  assumes "files_ok fs" and "openTrunc (tmpName path) fs = (i, fs1)"
  shows "readName (tmpName path) (writeAt i 0 t fs1) = Some t"
  using files_ok_open [OF assms] files_ok_write [of fs1 "tmpName path" i 0 t] by (simp add: readName_def)

text \<open>An undisturbed writer gets to the end.\<close>

lemma writer_completes:
  assumes "files_ok fs"
  shows "\<exists>fs'. (saveStep path [t])\<^sup>*\<^sup>* (fs, [SvStart]) (fs', [SvDone]) \<and> readName path fs' = Some t"
proof -
  obtain i fs1 where o1: "openTrunc (tmpName path) fs = (i, fs1)" by fastforce
  let ?fs2 = "writeAt i 0 t fs1"
  obtain ok fs3 where r: "renameFile (tmpName path) path ?fs2 = (ok, fs3)" by fastforce
  have ok1: "files_ok fs1" "gget (f_names fs1) (tmpName path) = Some i" "f_data fs1 ! i = ''''"
    using files_ok_open [OF assms o1] by auto
  note w = files_ok_write [OF ok1(1,2), of 0 t]
  have ends: "ok" "readName path fs3 = Some t"
    using files_ok_rename [OF _ _ tmpName_neq(1) r] w ok1(3) by auto
  have "saveStep path [t] (fs, [SvStart]) (fs1, [SvWriting i 0])"
    using sv_open [of 0 "[SvStart]" path fs i fs1 "[t]"] o1 by simp
  moreover have "saveStep path [t] (fs1, [SvWriting i 0]) (?fs2, [SvWriting i (length t)])"
    using sv_write [of 0 "[SvWriting i 0]" i 0 t "[t]" path fs1] by simp
  moreover have "saveStep path [t] (?fs2, [SvWriting i (length t)]) (?fs2, [SvWritten])"
    using sv_close [of 0 "[SvWriting i (length t)]" i "[t]" path ?fs2] by simp
  moreover have "saveStep path [t] (?fs2, [SvWritten]) (fs3, [SvDone])"
    using sv_rename [of 0 "[SvWritten]" path ?fs2 ok fs3 "[t]"] r ends(1) by simp
  ultimately show ?thesis using ends(2) by (meson rtranclp.rtrancl_into_rtrancl rtranclp.rtrancl_refl)
qed

section \<open>Names of worktrees\<close>

lemma cleanSegs_append: "okSegs ss \<Longrightarrow> cleanSegs r acc (ss @ ts) = cleanSegs r (rev ss @ acc) ts"
  by (induction ss arbitrary: acc) (auto simp: okSeg_def)

text \<open>A relative path joined to a root, on segments.\<close>

lemma join_absPath:
  assumes "okSegs r" and "r \<noteq> []" and "ts \<noteq> []" and "\<forall>s \<in> set ts. sep \<notin> set s"
  shows "filepathJoin (absPath r) (joinWith ''/'' ts) = absPath (cleanSegs True (rev r) ts)"
proof -
  have path: "absPath r @ ''/'' @ joinWith ''/'' ts = ''/'' @ joinWith ''/'' (r @ ts)"
    using assms(2,3) by (simp add: absPath_def joinWith_append)
  have "splitOn sep (joinWith ''/'' (r @ ts)) = r @ ts"
    using splitOn_joinWith [of "r @ ts" sep] assms okSegs_free [OF assms(1)] by auto
  then have "cleanSegs True [] (splitOn sep (''/'' @ joinWith ''/'' (r @ ts))) = cleanSegs True (rev r) ts"
    using cleanSegs_append [OF assms(1), of True "[]" ts] by simp
  moreover have "absPath r \<noteq> ''''" by simp
  moreover have "filepathIsAbs (''/'' @ joinWith ''/'' (r @ ts))" by (simp add: filepathIsAbs_def)
  ultimately show ?thesis
    unfolding filepathJoin_def filepathClean_def path Let_def by (simp only: if_True if_False absPath_def)
qed

text \<open>What git prints, with its newline.\<close>

lemma git_output:
  assumes "asciiStr d" and "d \<noteq> []" and "\<not> isSpace (byteOf (hd d))" and "\<not> isSpace (byteOf (last d))"
  shows "trimSpace (d @ [newlineChar]) = d"
  using trimSpace_both [of "[]" d "[newlineChar]"] assms
  by (simp add: asciiStr_def newlineChar_def byteOf_def isSpace_def)

lemma git_absPath:
  assumes "asciiStr (absPath (r @ [''.git'']))"
  shows "trimSpace (absPath (r @ [''.git'']) @ [newlineChar]) = absPath (r @ [''.git''])"
proof (rule git_output [OF assms])
  have "last (absPath (r @ [''.git''])) = CHR ''t''" by (simp add: absPath_snoc)
  then show "\<not> isSpace (byteOf (last (absPath (r @ [''.git'']))))" by (simp add: byteOf_def isSpace_def)
qed (simp_all add: absPath_def byteOf_def isSpace_def)

lemma key_in_root:
  assumes "okSegs r" and "r \<noteq> []" and "git (absPath r) = Some (''.git'' @ [newlineChar])"
  shows "graphCacheKey git readFile (absPath r) = absPath (r @ [''.git''])"
proof -
  have "trimSpace (''.git'' @ [newlineChar]) = ''.git''"
    by (rule git_output) (simp_all add: asciiStr_def byteOf_def isSpace_def)
  moreover have "filepathJoin (absPath r) ''.git'' = absPath (r @ [''.git''])"
    using join_absPath [OF assms(1,2), of "[''.git'']"] by simp
  ultimately show ?thesis using assms(3) by (simp add: graphCacheKey_def filepathIsAbs_def)
qed

section \<open>Properties\<close>

text \<open>worktrees share their cache. A linked worktree of a repository, for which git prints the
  absolute path of the common directory, has the same cache key as the main checkout, where git
  prints \<open>.git\<close>; so it has the same graph file and the same scope file.\<close>

theorem worktrees_share_cache:
  assumes "okSegs r" and "r \<noteq> []" and "asciiStr (absPath (r @ [''.git'']))"
    and "git (absPath r) = Some (''.git'' @ [newlineChar])"
    and "git wt = Some (absPath (r @ [''.git'']) @ [newlineChar])"
  shows "graphCacheKey git readFile wt = graphCacheKey git readFile (absPath r) \<and>
    graphCacheKey git readFile wt = absPath (r @ [''.git''])"
  using key_in_root [where git = git, OF assms(1,2,4)] git_absPath [OF assms(3)] assms(5)
  by (simp add: graphCacheKey_def)

theorem worktrees_share_cache_witness:
  "graphCacheKey (\<lambda>d. Some (if d = ''/ws'' then ''.git'' @ [newlineChar] else ''/ws/.git'' @ [newlineChar]))
     (\<lambda>f. None) ''/wt'' = ''/ws/.git''"
proof -
  have p: "absPath [''ws''] = ''/ws''" "absPath ([''ws''] @ [''.git'']) = ''/ws/.git''"
    by (simp_all add: absPath_def)
  show ?thesis
    using conjunct2 [OF worktrees_share_cache [of "[''ws'']" "\<lambda>d. Some (if d = ''/ws'' then
        ''.git'' @ [newlineChar] else ''/ws/.git'' @ [newlineChar])" "''/wt''" "\<lambda>f. None"]]
    unfolding p by (simp add: okSeg_def asciiStr_def byteOf_def)
qed

text \<open>a directory of the repository is taken for a worktree of it. In a directory below the top
  of a checkout git prints the common directory as a path upwards, so a workspace opened there has
  the key of the whole repository. It loads the graph saved for the top as if it had been moved:
  the paths of all files are rewritten to files below the directory, and served until the deferred
  revalidation replaces them.\<close>

theorem subdirectory_takes_graph:
  assumes "okSegs r" and "r \<noteq> []" and "okSeg d" and "b \<noteq> ''''" and "b_key job \<noteq> ''''"
    and "b_dir job = absPath r" and "git (absPath r) = Some (''.git'' @ [newlineChar])"
    and "git (absPath (r @ [d])) = Some (''../.git'' @ [newlineChar])"
  shows "graphCacheKey git readFile (absPath (r @ [d])) = graphCacheKey git readFile (absPath r) \<and>
    (\<exists>slot job'. loadDiskCache (saveDiskCache b job (absPath r)) (absPath (r @ [d])) emptySlot = Some (slot, job') \<and>
       sl_resp slot = Some (rewriteRoot b (absPath r) (absPath (r @ [d]))) \<and> sl_dir slot = absPath (r @ [d]))"
proof -
  have "trimSpace (''../.git'' @ [newlineChar]) = ''../.git''"
    by (rule git_output) (simp_all add: asciiStr_def byteOf_def isSpace_def)
  moreover have "filepathJoin (absPath (r @ [d])) ''../.git'' = absPath (r @ [''.git''])"
    using join_absPath [of "r @ [d]" "[''..'', ''.git'']"] assms(1,3) by (simp add: okSeg_def)
  ultimately have "graphCacheKey git readFile (absPath (r @ [d])) = absPath (r @ [''.git''])"
    using assms(8) by (simp add: graphCacheKey_def filepathIsAbs_def)
  moreover have "absPath r \<noteq> absPath (r @ [d])" using assms(2) by (simp add: absPath_snoc)
  ultimately show ?thesis
    using key_in_root [where git = git, OF assms(1,2,7)] assms(4-6)
    by (simp add: loadDiskCache_def saveDiskCache_def retargetGraph_def)
qed

theorem subdirectory_takes_graph_witness:
  "rewriteRoot (quoteChar # ''/ws/d/x.go'' @ [quoteChar]) (absPath [''ws'']) (absPath [''ws'', ''d'']) =
     quoteChar # ''/ws/d/d/x.go'' @ [quoteChar] \<and>
   (\<exists>slot job'. loadDiskCache (saveDiskCache (quoteChar # ''/ws/d/x.go'' @ [quoteChar])
        \<lparr>b_patterns = [''./...''], b_dir = absPath [''ws''], b_key = ''k'', b_flags = []\<rparr> (absPath [''ws'']))
      (absPath [''ws'', ''d'']) emptySlot = Some (slot, job') \<and>
      sl_dir slot = absPath [''ws'', ''d''])"
proof -
  have ne: "absPath [''ws'', ''d''] \<noteq> absPath [''ws'']" by (simp add: absPath_def)
  have "rewriteRoot (quoteChar # ''/ws/d/x.go'' @ [quoteChar]) (absPath [''ws'']) (absPath [''ws'', ''d'']) =
      quoteChar # ''/ws/d/d/x.go'' @ [quoteChar]"
    by code_simp
  then show ?thesis
    using subdirectory_takes_graph [of "[''ws'']" "''d''" "quoteChar # ''/ws/d/x.go'' @ [quoteChar]"
        "\<lparr>b_patterns = [''./...''], b_dir = absPath [''ws''], b_key = ''k'', b_flags = []\<rparr>"
        "\<lambda>p. Some (if p = absPath [''ws''] then ''.git'' @ [newlineChar] else ''../.git'' @ [newlineChar])"
        "\<lambda>f. None"] ne
    by (auto simp: okSeg_def)
qed

text \<open>C21: a saved graph comes back. What a build of the main slot saves is, when the next session of
  the same root loads it, served for every query exactly as the slot served it that was built, and
  the deferred revalidation repeats that very build.\<close>

theorem saved_graph_roundtrip:
  assumes "b \<noteq> ''''" and "b_key job \<noteq> ''''" and "b_dir job \<noteq> ''''"
  shows "\<exists>slot'. loadDiskCache (saveDiskCache b job root) root emptySlot = Some (slot', job) \<and>
    fst (answerSlot si q key slot') = fst (answerSlot si q key (finishBuild job (Some b) slot))"
  using assms
  by (auto simp: loadDiskCache_def saveDiskCache_def retargetGraph_def answerSlot_def finishBuild_def
      Let_def split: if_splits)

theorem saved_graph_roundtrip_witness:
  "\<exists>slot'. loadDiskCache (saveDiskCache ''G'' (nestedJob ''/w'' []) ''/w'') ''/w'' emptySlot =
     Some (slot', nestedJob ''/w'' [])"
proof -
  have "b_key (nestedJob ''/w'' []) \<noteq> ''''" "b_dir (nestedJob ''/w'' []) \<noteq> ''''"
    by (simp_all add: nestedJob_def nestedModuleCacheKey_def nestedModuleCacheKeyBase_def)
  from saved_graph_roundtrip [OF _ this, of "''G''" "''/w''"] show ?thesis by blast
qed

text \<open>C22: a save is atomic. At every point of a save, so also after a crash there, the cache file holds
  what it held before or the whole new text, and every other file but the temporary one is as it
  was; and a save that nothing stops ends with the new text.\<close>

theorem save_is_atomic:
  assumes "files_ok fs0" and "(saveStep path [t])\<^sup>*\<^sup>* (fs0, [SvStart]) (fs, pcs)"
  shows "readName path fs \<in> {readName path fs0, Some t} \<and>
    (\<forall>n. n \<notin> {path, tmpName path} \<longrightarrow> readName n fs = readName n fs0) \<and>
    (\<exists>fs'. (saveStep path [t])\<^sup>*\<^sup>* (fs0, [SvStart]) (fs', [SvDone]) \<and> readName path fs' = Some t)"
proof -
  have "writer_inv path t fs0 (fs0, [SvStart])" using assms(1) by (simp add: writer_inv_def)
  with assms(2) have "writer_inv path t fs0 (fs, pcs)"
    by (induction rule: rtranclp_induct) (auto intro: writer_inv_step)
  then show ?thesis using writer_completes [OF assms(1)] by (simp add: writer_inv_def)
qed

text \<open>two savers at once mix their texts. The temporary name is the same for every writer of
  a cache file, in this process and in the one of another worktree of the repository: when two
  writers open it before either writes, the second text is written over the first, and what is
  renamed into place, for good, is the second text followed by the tail of the first.\<close>

theorem concurrent_saves_mix:
  assumes "files_ok fs0" and "length b \<le> length a"
  shows "\<exists>fs. (saveStep path [a, b])\<^sup>*\<^sup>* (fs0, [SvStart, SvStart]) (fs, [SvDone, SvDone]) \<and>
    readName path fs = Some (b @ drop (length b) a)"
proof -
  let ?r = "saveStep path [a, b]"
  obtain i fs1 where o1: "openTrunc (tmpName path) fs0 = (i, fs1)" by fastforce
  note ok1 = files_ok_open [OF assms(1) o1]
  obtain j fs2 where o2: "openTrunc (tmpName path) fs1 = (j, fs2)" by fastforce
  have ok2: "files_ok fs2" "gget (f_names fs2) (tmpName path) = Some i" "f_data fs2 ! i = ''''" "j = i"
    using files_ok_open [OF conjunct1 [OF ok1] o2] ok1 o2 by (auto simp: openTrunc_def)
  let ?fs3 = "writeAt i 0 a fs2"
  let ?fs4 = "writeAt i 0 b ?fs3"
  note ok3 = files_ok_write [OF ok2(1,2), of 0 a]
  have ok4: "files_ok ?fs4" "gget (f_names ?fs4) (tmpName path) = Some i"
    "f_data ?fs4 ! i = b @ drop (length b) a"
    using files_ok_write [of ?fs3 "tmpName path" i 0 b] ok3 ok2(3) by auto
  obtain ok fs5 where r: "renameFile (tmpName path) path ?fs4 = (ok, fs5)" by fastforce
  have ok5: "ok" "readName path fs5 = Some (b @ drop (length b) a)"
    using files_ok_rename [OF ok4(1,2) tmpName_neq(1) r] ok4(3) by auto
  have gone: "renameFile (tmpName path) path fs5 = (False, fs5)"
    using r ok4(2) by (auto simp: renameFile_def)
  have "?r (fs0, [SvStart, SvStart]) (fs1, [SvWriting i 0, SvStart])"
    using sv_open [of 0 "[SvStart, SvStart]" path fs0 i fs1 "[a, b]"] o1 by simp
  moreover have "?r (fs1, [SvWriting i 0, SvStart]) (fs2, [SvWriting i 0, SvWriting i 0])"
    using sv_open [of 1 "[SvWriting i 0, SvStart]" path fs1 i fs2 "[a, b]"] o2 ok2(4) by simp
  moreover have "?r (fs2, [SvWriting i 0, SvWriting i 0]) (?fs3, [SvWriting i (length a), SvWriting i 0])"
    using sv_write [of 0 "[SvWriting i 0, SvWriting i 0]" i 0 a "[a, b]" path fs2] by simp
  moreover have "?r (?fs3, [SvWriting i (length a), SvWriting i 0]) (?fs3, [SvWritten, SvWriting i 0])"
    using sv_close [of 0 "[SvWriting i (length a), SvWriting i 0]" i "[a, b]" path ?fs3] by simp
  moreover have "?r (?fs3, [SvWritten, SvWriting i 0]) (?fs4, [SvWritten, SvWriting i (length b)])"
    using sv_write [of 1 "[SvWritten, SvWriting i 0]" i 0 b "[a, b]" path ?fs3] by simp
  moreover have "?r (?fs4, [SvWritten, SvWriting i (length b)]) (?fs4, [SvWritten, SvWritten])"
    using sv_close [of 1 "[SvWritten, SvWriting i (length b)]" i "[a, b]" path ?fs4] by simp
  moreover have "?r (?fs4, [SvWritten, SvWritten]) (fs5, [SvDone, SvWritten])"
    using sv_rename [of 0 "[SvWritten, SvWritten]" path ?fs4 ok fs5 "[a, b]"] r ok5(1) by simp
  moreover have "?r (fs5, [SvDone, SvWritten]) (removeFile (tmpName path) fs5, [SvDone, SvDone])"
    using sv_rename [of 1 "[SvDone, SvWritten]" path fs5 False fs5 "[a, b]"] gone by simp
  ultimately show ?thesis
    using ok5(2)
    by (intro exI [of _ "removeFile (tmpName path) fs5"])
      (auto intro: converse_rtranclp_into_rtranclp [of "saveStep path [a, b]"])
qed

text \<open>A cache directory with the file of the last session and what a crash left.\<close>

definition exampleFiles :: files where
  "exampleFiles = \<lparr>f_names = [(''g'', 0), (''g.tmp'', 1)], f_data = [''old'', ''par'']\<rparr>"

lemma exampleFiles_ok: "files_ok exampleFiles"
  by (auto simp: files_ok_def exampleFiles_def wf_map_def split: if_splits)

theorem save_is_atomic_witness:
  "readName ''g'' exampleFiles = Some ''old'' \<and>
   (\<exists>fs'. (saveStep ''g'' [''new''])\<^sup>*\<^sup>* (exampleFiles, [SvStart]) (fs', [SvDone]) \<and>
     readName ''g'' fs' = Some ''new'')"
  using save_is_atomic [OF exampleFiles_ok rtranclp.rtrancl_refl, of "''g''" "''new''"]
  by (simp add: exampleFiles_def readName_def)

theorem concurrent_saves_mix_witness:
  "\<exists>fs. (saveStep ''g'' [''{1,2}'', ''{}''])\<^sup>*\<^sup>* (exampleFiles, [SvStart, SvStart]) (fs, [SvDone, SvDone]) \<and>
     readName ''g'' fs = Some ''{},2}''"
  using concurrent_saves_mix [OF exampleFiles_ok, of "''{}''" "''{1,2}''" "''g''"] by simp

end
