(* ===== verification/Startup.thy ===== *)
theory Startup
  imports Session Driver DiskCache
begin

text \<open>
  The life of the process (\<open>main.go\<close>, \<open>proxy.go\<close>): what \<open>Run\<close> decides, the state a proxy starts
  with, how gopls and the graph server are started, and what is left when a pump ends.
\<close>

section \<open>Run\<close>

datatype program = RunsDriver | Exits int | RunsProxy options

text \<open>\<open>openLog\<close> tells whether a log file can be opened.\<close>

definition Run ::
  "(string \<Rightarrow> int option) \<Rightarrow> (string \<Rightarrow> bool) \<Rightarrow> (string \<Rightarrow> string) \<Rightarrow> string list \<Rightarrow> program" where
  "Run pd openLog getenv args =
     (if runsAsDriver getenv then RunsDriver
      else (case parseArgs pd args getenv of
              Inl e \<Rightarrow> Exits 2
            | Inr opts \<Rightarrow>
                if o_logPath opts \<noteq> '''' \<and> \<not> openLog (o_logPath opts) then Exits 1
                else RunsProxy opts))"

definition newSession :: clientState where
  "newSession =
     \<lparr>cs_proxy = freshProxy, cs_docs = [], cs_held = noHeld,
      cs_mod = \<lparr>md_root = '''', md_idx = newRevIndex, md_subIdx = [], md_started = [], md_graph = None,
        md_modRoots = Some emptyCache\<rparr>,
      cs_pool = \<lparr>wp_main = newHandle '''', wp_subs = []\<rparr>, cs_cacheFile = '''', cs_started = [],
      cs_builds = []\<rparr>"

section \<open>Start and end of the proxy\<close>

text \<open>\<open>startGraphServer\<close>: the socket it listens on and the server, absent when it cannot listen.\<close>

definition socketPath :: "string \<Rightarrow> nat \<Rightarrow> string" where
  "socketPath tmp pid = filepathJoin tmp (''gopls-lazy-'' @ showNat pid @ ''.sock'')"

definition startGraphServer :: "string \<Rightarrow> nat \<Rightarrow> (string \<Rightarrow> bool) \<Rightarrow> (string \<times> graphServer) option" where
  "startGraphServer tmp pid listens =
     (let sock = socketPath tmp pid
      in if listens sock then Some (sock, \<lparr>gs_root = '''', gs_main = emptySlot, gs_subslots = []\<rparr>)
         else None)"

text \<open>
  The first half of \<open>run\<close>: an exit code, or the environment of gopls and the state when the pumps
  start. \<open>started\<close> tells whether the pipes and the process of gopls come up.
\<close>

definition startProxy ::
  "options \<Rightarrow> (string \<times> graphServer) option \<Rightarrow> string option \<Rightarrow> string list \<Rightarrow> bool
   \<Rightarrow> int + string list \<times> clientState" where
  "startProxy opts server exe environ started =
     (let g = (if o_driver opts then server else None);
          env = goplsEnv (o_driver opts) (map_option fst g) exe environ;
          cs = newSession\<lparr>cs_mod := (cs_mod newSession)\<lparr>md_graph := map_option snd g\<rparr>\<rparr>
      in if \<not> started then Inl 1 else Inr (env, cs))"

text \<open>The second half: when the first pump has ended, the workers are shut down.\<close>

definition stopProxy :: "clientState \<Rightarrow> int \<times> clientState" where
  "stopProxy cs =
     (0, cs\<lparr>cs_pool := \<lparr>wp_main = shutdown (wp_main (cs_pool cs)),
            wp_subs = map (\<lambda>(root, h). (root, shutdown h)) (wp_subs (cs_pool cs))\<rparr>\<rparr>)"

text \<open>A sweep of \<open>evictLoop\<close>, which runs only with a positive TTL.\<close>

definition evictTick :: "clientEnv \<Rightarrow> int \<Rightarrow> int \<Rightarrow> clientState \<Rightarrow> clientState" where
  "evictTick ce ttl now cs =
     (let cs1 = loggedProxy (evictIdleUnits ttl now (cs_proxy cs)) cs
      in cs1\<lparr>cs_mod := evictIdleModules (gkeys (p_scope (cs_proxy cs1)))
           (map (uriToPath (env_hostOk (ce_env ce))) (gkeys (cs_docs cs1))) (cs_mod cs1)\<rparr>)"

section \<open>Lemmas\<close>

lemma startProxy_fields:
  assumes "startProxy opts server exe environ started = Inr (env, cs)"
  shows "cs_proxy cs = freshProxy \<and> cs_held cs = noHeld \<and> cs_docs cs = [] \<and>
    cs_pool cs = cs_pool newSession \<and> md_modRoots (cs_mod cs) = Some emptyCache \<and> cs_builds cs = [] \<and>
    (md_graph (cs_mod cs) = None \<or> md_graph (cs_mod cs) = map_option snd server) \<and>
    env = goplsEnv (o_driver opts) (if o_driver opts then map_option fst server else None) exe environ"
  using assms by (auto simp: startProxy_def newSession_def Let_def split: if_splits)

lemma evictTick_steps:
  "(sessStep ce strict)\<^sup>*\<^sup>* (cs, ow, pc) (evictTick ce ttl now cs, ow, pc)"
proof -
  have "sessStep ce strict (cs, ow, pc) (loggedProxy (evictIdleUnits ttl now (cs_proxy cs)) cs, ow, pc)"
    by (rule t_evict)
  moreover have "sessStep ce strict (loggedProxy (evictIdleUnits ttl now (cs_proxy cs)) cs, ow, pc)
      (evictTick ce ttl now cs, ow, pc)"
    using t_modules [of ce strict "loggedProxy (evictIdleUnits ttl now (cs_proxy cs)) cs"]
    by (simp add: evictTick_def Let_def)
  ultimately show ?thesis by (meson rtranclp.rtrancl_into_rtrancl rtranclp.rtrancl_refl)
qed

lemma shutdown_gone: "wh_client (shutdown h) = None \<and> wh_timer (shutdown h) = None \<or> wh_client h = None \<and> shutdown h = h"
  by (auto simp: shutdown_def stopEvictLocked_def closeReadyLocked_def Let_def)

section \<open>Properties\<close>


lemma example_run:
  "Run (\<lambda>s. None) (\<lambda>f. True) (\<lambda>k. '''') [''-rpc.trace''] =
     RunsProxy (defaultOptions\<lparr>o_goplsArgs := [''-rpc.trace'']\<rparr>)"
proof -
  have "parseArgs (\<lambda>s. None) [''-rpc.trace''] (\<lambda>k. '''') =
      Inr (defaultOptions\<lparr>o_goplsArgs := [''-rpc.trace'']\<rparr>)"
    by code_simp
  then show ?thesis by (simp add: Run_def runsAsDriver_def defaultOptions_def)
qed


text \<open>nothing outlives the proxy's workers. When a pump has ended, no worker of the session, of
  the main workspace or of a module, has a client any more, and the process exits with 0.\<close>

theorem stop_leaves_no_worker:
  "fst (stopProxy cs) = 0 \<and> wh_client (wp_main (cs_pool (snd (stopProxy cs)))) = None \<and>
   (\<forall>root h. gget (wp_subs (cs_pool (snd (stopProxy cs)))) root = Some h \<longrightarrow> wh_client h = None) \<and>
   gkeys (wp_subs (cs_pool (snd (stopProxy cs)))) = gkeys (wp_subs (cs_pool cs))"
proof -
  have gone: "wh_client (shutdown h) = None" for h using shutdown_gone [of h] by auto
  have subs: "gget (map (\<lambda>p. (fst p, shutdown (snd p))) hs) root = map_option shutdown (gget hs root)" for hs root
    by (induction hs) auto
  show ?thesis by (auto simp: stopProxy_def case_prod_unfold subs gone)
qed

end
