(* ===== verification/SessionWorkers.thy ===== *)
theory SessionWorkers
  imports Session
begin

text \<open>
  The workers of a session. In every interleaving of the whole proxy, the handle of the main
  worker and of each module, those included that do not exist yet, is a run of the
  interleaving of \<open>Worker\<close>, with the documents the session tracks; so each of them mirrors the
  editor.
\<close>

section \<open>What the steps leave alone\<close>

lemma modRoots_markGraph [simp]: "md_modRoots (markGraph stat path md) = md_modRoots md"
  by (simp add: markGraph_def)

lemma modRoots_fileEvent:
  "md_modRoots md = Some emptyCache \<Longrightarrow> md_modRoots (snd (observeFileEvent stat path md)) = Some emptyCache"
  by (simp add: observeFileEvent_def handleModuleFileEvent_def invalidateModuleBoundary_def Invalidate_def
      emptyCache_def Let_def split: option.split)

lemma modRoots_evict [simp]: "md_modRoots (evictIdleModules units docPaths md) = md_modRoots md"
proof -
  have "md_modRoots (foldl (evictModule units docPaths) md rs) = md_modRoots md" for rs
    by (induction rs arbitrary: md) (simp_all add: evictModule_def Let_def)
  then show ?thesis by (simp add: evictIdleModules_def Let_def)
qed

lemma modRoots_stores [simp]:
  "md_modRoots (snd (indexFor r md)) = md_modRoots md" "md_modRoots (storeIndex r ri md) = md_modRoots md"
  by (simp_all add: indexFor_def storeIndex_def split: option.split)

lemma modRoots_index [simp]: "md_modRoots (updateFileInIndex stat parse path content md) = md_modRoots md"
  by (simp add: updateFileInIndex_def Let_def case_prod_unfold)

lemma modRoots_answered [simp]: "md_modRoots (cs_mod (graphAnswered r g cs)) = md_modRoots (cs_mod cs)"
  by (simp add: graphAnswered_def split: dispatched.split)

lemma root_frames [simp]:
  "p_root (storeWorkerConfig m p) = p_root p"
  "p_root (diagArrived uri p) = p_root p"
  "p_root (handleServerNotification n p) = p_root p"
  "p_root (snd (appliedChLocked p)) = p_root p"
  "p_root (advanceAppliedLocked g p) = p_root p"
  "p_root (snd (fallbackTick g d r p)) = p_root p"
  "p_root (snd (takeConfigID i p)) = p_root p"
  "p_root (snd (ensureUnitsLocked now us p)) = p_root p"
  "p_root (snd (pushScope p)) = p_root p"
  "p_root (writeServer n p) = p_root p"
  "p_root (evictIdleUnits ttl now p) = p_root p"
  "p_root (rescopeFires p) = p_root p"
  by (auto simp: storeWorkerConfig_def diagArrived_def handleServerNotification_def onDiagnostics_def
      appliedChLocked_def advanceAppliedLocked_def fallbackTick_def takeConfigID_def ensureUnitsLocked_def
      pushScope_def writeServer_def evictIdleUnits_def rescopeFires_def Let_def
      split: option.split json.split prod.split)

lemma watched_modRoots:
  assumes "md_modRoots (cs_mod cs) = Some emptyCache"
  shows "md_modRoots (cs_mod (observeWatchedFiles ce params cs)) = Some emptyCache \<and>
    cs_pool (observeWatchedFiles ce params cs) = cs_pool cs"
proof -
  have "md_modRoots (cs_mod (foldl (\<lambda>cs uri. fileEvent ce uri cs) cs us)) = Some emptyCache \<and>
      cs_pool (foldl (\<lambda>cs uri. fileEvent ce uri cs) cs us) = cs_pool cs" for us
    using assms
  proof (induction us arbitrary: cs)
    case (Cons u us)
    show ?case
      using Cons.IH [of "fileEvent ce u cs"] Cons.prems modRoots_fileEvent
      by (simp add: fileEvent_def case_prod_unfold Let_def)
  qed simp
  then show ?thesis by (simp add: observeWatchedFiles_def)
qed

section \<open>One message of the editor\<close>

text \<open>What is not the answer to a pull reaches the pool once, after the documents are tracked.\<close>

lemma clientSwitch_pool:
  assumes "clientSwitch ce now m cs = Some (fwd, cs1)" and "m_method m \<noteq> ''initialize''"
    and "\<not> pullAnswer cs m" and "md_modRoots (cs_mod cs) = Some emptyCache"
  shows "fwd = Some m \<and> md_modRoots (cs_mod cs1) = Some emptyCache \<and> cs_pool cs1 = cs_pool cs \<and>
    p_root (cs_proxy cs1) = p_root (cs_proxy cs)"
proof (cases "m_method m = ''''")
  case True
  have "p_root (snd (handleClientResponse m (cs_proxy cs))) = p_root (cs_proxy cs)"
    using assms(3) True root_frames(7)
    by (auto simp: handleClientResponse_def pullAnswer_def takeConfigID_def split: option.split)
  then show ?thesis
    using True assms other_answer [OF True assms(3), of undefined undefined]
    by (cases "handleClientResponse m (cs_proxy cs)") (auto simp: clientSwitch_def Let_def)
next
  case False
  have "md_modRoots (cs_mod (fileEvent ce uri cs)) = Some emptyCache \<and> cs_pool (fileEvent ce uri cs) = cs_pool cs" for uri
    using modRoots_fileEvent [OF assms(4)] by (simp add: fileEvent_def case_prod_unfold Let_def)
  then show ?thesis
    using assms(1,2,4) False watched_modRoots [OF assms(4)]
    by (auto simp: clientSwitch_def Let_def split: if_splits)
qed

lemma rootForPool_walk:
  "md_modRoots (cs_mod cs) = Some emptyCache \<Longrightarrow> rootForPool ce cs = Some (nestedModuleRoot (ce_stat ce))"
  by (simp add: rootForPool_def rootForOf_def RootFor_def emptyCache_def Let_def)

lemma clientMessage_pool:
  assumes "clientMessage ce now m cs = Some cs'" and "m_method m \<noteq> ''initialize''"
    and "\<not> pullAnswer cs m" and "md_modRoots (cs_mod cs) = Some emptyCache"
  shows "md_modRoots (cs_mod cs') = Some emptyCache \<and> p_root (cs_proxy cs') = p_root (cs_proxy cs) \<and>
    (cs_docs cs' = cs_docs cs \<and> cs_pool cs' = cs_pool cs \<or>
     cs_docs cs' = trackNote (env_hostOk (ce_env ce)) (ce_readInt ce) (noteOf m) (cs_docs cs) \<and>
     cs_pool cs' = observeWorker (env_hostOk (ce_env ce)) (Some (nestedModuleRoot (ce_stat ce)))
       (p_root (cs_proxy cs)) (gget (cs_docs cs')) (noteOf m) (cs_pool cs))"
  using assms(1)
proof (cases rule: clientMessage_cases)
  case (taken held)
  then show ?thesis using assms(4) by simp
next
  case (handled cs1)
  then show ?thesis using clientSwitch_pool [OF handled(1) assms(2-4)] by simp
next
  case (forwarded m' cs1)
  note e = clientSwitch_pool [OF forwarded(1) assms(2-4)]
  then show ?thesis
    using forwarded(2) clientMessage_docs [OF assms(1)] rootForPool_walk [of cs1 ce]
    by (simp add: writeMessage_def toWorkers_def noteOf_def)
qed

section \<open>Every worker runs as in its own interleaving\<close>

definition workers_ok :: "clientEnv \<Rightarrow> clientState \<Rightarrow> bool" where
  "workers_ok ce cs \<longleftrightarrow>
     md_modRoots (cs_mod cs) = Some emptyCache \<and>
     (\<forall>r. restReachable (sessWorker ce (p_root (cs_proxy cs)) r) r (cs_docs cs) (handleOf r (cs_pool cs)))"

lemma workers_same:
  "workers_ok ce cs \<Longrightarrow> md_modRoots (cs_mod cs') = md_modRoots (cs_mod cs) \<Longrightarrow>
     p_root (cs_proxy cs') = p_root (cs_proxy cs) \<Longrightarrow> cs_docs cs' = cs_docs cs \<Longrightarrow>
     cs_pool cs' = cs_pool cs \<Longrightarrow> workers_ok ce cs'"
  by (simp add: workers_ok_def)

lemma workers_note:
  assumes "workers_ok ce cs" and "md_modRoots (cs_mod cs') = Some emptyCache"
    and "p_root (cs_proxy cs') = p_root (cs_proxy cs)"
    and "cs_docs cs' = trackNote (env_hostOk (ce_env ce)) (ce_readInt ce) n (cs_docs cs)"
    and "\<And>r. handleOf r (cs_pool cs') =
      (if delivered (sessWorker ce (p_root (cs_proxy cs)) r) n
       then observeNote (gget (cs_docs cs')) n (handleOf r (cs_pool cs)) else handleOf r (cs_pool cs))"
  shows "workers_ok ce cs'"
  unfolding workers_ok_def
proof (intro conjI allI)
  fix r
  let ?en = "sessWorker ce (p_root (cs_proxy cs)) r"
  have "cs_docs cs' = trackNote (we_hostOk ?en) (we_readInt ?en) n (cs_docs cs)"
    using assms(4) by (simp add: sessWorker_def)
  then have "restReachable ?en r (cs_docs cs')
      (if delivered ?en n then observeNote (gget (cs_docs cs')) n (handleOf r (cs_pool cs))
       else handleOf r (cs_pool cs))"
    using assms(1) by (intro rest_note) (simp_all add: workers_ok_def)
  then show "restReachable (sessWorker ce (p_root (cs_proxy cs')) r) r (cs_docs cs') (handleOf r (cs_pool cs'))"
    using assms(3,5) by simp
qed (rule assms(2))

lemma workers_handle:
  assumes "workers_ok ce cs"
    and "handleStep (sessWorker ce (p_root (cs_proxy cs)) root) (cs_docs cs) (handleOf root (cs_pool cs)) h"
  shows "workers_ok ce (cs\<lparr>cs_pool := storeHandle root h (snd (workerFor root (cs_pool cs)))\<rparr>)"
proof -
  have "restReachable (sessWorker ce (p_root (cs_proxy cs)) root) root (cs_docs cs) h"
    using assms by (intro rest_handle [OF _ assms(2)]) (simp add: workers_ok_def)
  then show ?thesis using assms(1) by (simp add: workers_ok_def)
qed

lemma sess_workers: "sessStep ce strict s s' \<Longrightarrow> workers_ok ce (fst s) \<Longrightarrow> workers_ok ce (fst s')"
proof (induction rule: sessStep.induct)
  case (e_message now m cs cs' ow)
  then have "md_modRoots (cs_mod cs) = Some emptyCache" by (simp add: workers_ok_def)
  note e = clientMessage_pool [OF e_message(1-3) this]
  show ?case
  proof (cases "cs_docs cs' = cs_docs cs \<and> cs_pool cs' = cs_pool cs")
    case True
    then show ?thesis using e_message e by (simp add: workers_ok_def)
  next
    case False
    then show ?thesis
      using e e_message.prems
      unfolding fst_conv
      by (intro workers_note [of ce cs cs' "noteOf m"])
        (auto simp: handleOf_observe delivered_def sessWorker_def)
  qed
next
  case (e_advance cs ow g)
  have ok: "workers_ok ce cs" using e_advance by simp
  have "noteURI configNote = ''''" and track: "trackNote hostOk readInt configNote docs = docs" for hostOk readInt docs
    by (simp_all add: configNote_def noteURI_def docURI_def trackNote_def isOpen_def isChange_def isClose_def)
  then have "delivered en configNote" for en by (simp add: delivered_def)
  then show ?case
    unfolding fst_conv
    by (intro workers_note [OF ok, of _ configNote]) (use ok in \<open>simp_all add: track workers_ok_def\<close>)
next
  case (g_message m cs ow p ow' pc)
  then show ?case using serverMessage_parts [OF g_message(1)] by (auto intro: workers_same)
next
  case (e_take cs m i g p ow)
  then have "p_root p = p_root (cs_proxy cs)" using root_frames(7) [of i "cs_proxy cs"] by simp
  then show ?case using e_take.prems by (simp add: workers_ok_def)
next
  case (x_worker cs root h ow pc)
  then show ?case using workers_handle by simp
qed (simp_all add: workers_ok_def loggedProxy_def writeMessage_def)

lemma reach_workers: "sessReachable ce strict s \<Longrightarrow> workers_ok ce (fst s)"
proof (induction rule: sessReachable.induct)
  case (sess_reach s s')
  have "workers_ok ce (fst s)"
    using sess_reach(1) by (rule start_cases) (simp add: workers_ok_def rest_new)
  with sess_reach(2) show ?case by (induction rule: rtranclp_induct) (auto intro: sess_workers)
qed

section \<open>Properties\<close>

text \<open>every worker of a session mirrors the editor. However the pumps, the requests, the
  processes, their initialisation and their eviction interleave, a worker that is live knows every
  document it is responsible for exactly as the editor has it, with its version and its text: the main
  worker those that no nested module owns, the worker of a nested module those below its root.\<close>

theorem session_workers_mirror:
  assumes "sessReachable ce strict (cs, ow, pc)"
    and "handleOf r (cs_pool cs) = h" and "wh_client h = Some g" and "wh_readyDone h"
    and "ownerOf (env_hostOk (ce_env ce)) (Some (nestedModuleRoot (ce_stat ce))) (p_root (cs_proxy cs)) u = r"
    and "r \<noteq> '''' \<longrightarrow> (\<exists>root d f. okSegs root \<and> okSegs d \<and> okSeg f \<and> p_root (cs_proxy cs) = absPath root \<and>
      uriToPath (env_hostOk (ce_env ce)) u = absPath (root @ d @ [f]))"
  shows "viewOf g h u = editorHas (gget (cs_docs cs) u)"
proof -
  let ?en = "sessWorker ce (p_root (cs_proxy cs)) r"
  obtain k where w: "workerReachable ?en r (cs_docs cs, h, PumpIdle, False, k)"
    using reach_workers [OF assms(1)] assms(2) by (auto simp: workers_ok_def restReachable_def)
  have "inSnap ?en r u"
  proof (cases "r = ''''")
    case False
    then obtain root d f where s: "okSegs root" "okSegs d" "okSeg f" "p_root (cs_proxy cs) = absPath root"
      "uriToPath (env_hostOk (ce_env ce)) u = absPath (root @ d @ [f])"
      using assms(6) by blast
    then have "nestedModuleRoot (ce_stat ce) (absPath (root @ d)) (absPath root) = r"
      using False assms(5) dir_absPath_snoc [of "root @ d" f]
      by (simp add: ownerOf_def Let_def split: if_splits)
    from mr.file_under_module [OF s(1-3) this False] show ?thesis
      using s(5) by (simp add: inSnap_def underRoot_def sessWorker_def Let_def)
  qed (simp add: inSnap_def)
  moreover have "we_mine ?en u" using assms(5) by (simp add: sessWorker_def)
  ultimately show ?thesis by (intro live_view [OF w assms(3,4)])
qed

section \<open>Witness\<close>

text \<open>The session of \<open>Session\<close> after its first document was opened; then its main worker is started and loads.\<close>

definition startedMain :: workerHandle where
  "startedMain = snd (ensureStartedLocked 60 True ''/ws'' (newHandle ''''))"

definition loadedMain :: workerHandle where
  "loadedMain = initWorker 1 True (snapDocs (\<lambda>h. False) ''/ws'' '''' (cs_docs session1))
     (gget (cs_docs session1)) startedMain"

definition session1Live :: clientState where
  "session1Live = session1\<lparr>cs_pool := storeHandle '''' loadedMain (storeHandle '''' startedMain (cs_pool session1))\<rparr>"

lemma session1_docs:
  "cs_docs session1 = [(''file:///ws/a/x.go'', \<lparr>d_uri = ''file:///ws/a/x.go'', d_languageId = ''go'',
     d_version = 1, d_text = ''package a''\<rparr>)]"
proof -
  have "cs_docs session0 = []" using session0_start by (rule start_cases) simp
  then have "cs_docs session1 = trackNote (\<lambda>h. False) (\<lambda>s. Some 1) (noteOf exampleOpenNote) []"
    using clientMessage_docs [OF session1_run [THEN conjunct1]]
    by (simp add: noteOf_def exampleEnv_def sessionEnv_def exampleClientEnv_def)
  moreover have "trackNote (\<lambda>h. False) (\<lambda>s. Some 1) (noteOf exampleOpenNote) [] =
      [(''file:///ws/a/x.go'', \<lparr>d_uri = ''file:///ws/a/x.go'', d_languageId = ''go'',
        d_version = 1, d_text = ''package a''\<rparr>)]"
    by code_simp
  ultimately show ?thesis by simp
qed

lemma session1_main: "handleOf '''' (cs_pool session1) = newHandle ''''" "p_root (cs_proxy session1) = ''/ws''"
proof -
  have "handleOf r (cs_pool session0) = newHandle r \<and> md_modRoots (cs_mod session0) = Some emptyCache" for r
    using session0_start by (rule start_cases) simp
  then show "handleOf '''' (cs_pool session1) = newHandle ''''"
    using clientMessage_pool [OF session1_run [THEN conjunct1]]
    by (fastforce simp: exampleOpenNote_def pullAnswer_def handleOf_observe)
  have "p_root proxy1 = ''/ws''" by code_simp
  then show "p_root (cs_proxy session1) = ''/ws''" using session1_run by simp
qed

lemma live_reachable: "sessReachable sessionEnv True (session1Live, freshOwn, PcIdle)"
proof -
  let ?en = "sessWorker sessionEnv ''/ws'' ''''"
  have en: "we_ttl ?en = 60" "we_pRoot ?en = ''/ws''" "we_hostOk ?en = (\<lambda>h. False)"
    by (simp_all add: sessWorker_def sessionEnv_def exampleClientEnv_def exampleEnv_def)
  have main: "workerFor '''' pool = (wp_main pool, pool)" for pool by (simp add: workerFor_def)
  have "wh_root startedMain = ''''"
    by (simp add: startedMain_def ensureStartedLocked_def newHandle_def armEvictLocked_def
        stopEvictLocked_def Let_def)
  then have init: "handleStep ?en (cs_docs session1) startedMain loadedMain"
    using ho_init [of 1 ?en "cs_docs session1" startedMain True] by (simp add: loadedMain_def en)
  have "handleStep ?en (cs_docs session1) (newHandle '''') startedMain"
    using ho_start [of ?en "cs_docs session1" "newHandle ''''" True] by (simp add: startedMain_def en)
  then have "sessStep sessionEnv True (session1, freshOwn, PcIdle)
      (session1\<lparr>cs_pool := storeHandle '''' startedMain (cs_pool session1)\<rparr>, freshOwn, PcIdle)"
    using x_worker [of sessionEnv session1 "''''" startedMain True freshOwn PcIdle]
    by (simp add: session1_main main)
  from reach_step [OF session1_reachable this]
  have "sessReachable sessionEnv True
      (session1\<lparr>cs_pool := storeHandle '''' startedMain (cs_pool session1)\<rparr>, freshOwn, PcIdle)" .
  moreover have "sessStep sessionEnv True
      (session1\<lparr>cs_pool := storeHandle '''' startedMain (cs_pool session1)\<rparr>, freshOwn, PcIdle)
      (session1Live, freshOwn, PcIdle)"
    using x_worker [of sessionEnv "session1\<lparr>cs_pool := storeHandle '''' startedMain (cs_pool session1)\<rparr>"
        "''''" loadedMain True freshOwn PcIdle] init
    by (simp add: session1_main main session1Live_def)
  ultimately show ?thesis by (rule reach_step)
qed

theorem session_workers_mirror_witness:
  "viewOf 1 (handleOf '''' (cs_pool session1Live)) ''file:///ws/a/x.go'' = Some (1, ''package a'')"
proof -
  have "handleOf '''' (cs_pool session1Live) = loadedMain" by (simp add: session1Live_def)
  moreover have "wh_client loadedMain = Some 1" "wh_readyDone loadedMain"
    by (simp_all add: loadedMain_def startedMain_def initWorker_def ensureStartedLocked_def newHandle_def
        replayLiveLocked_def worker_ops_defs)
  moreover have "ownerOf (\<lambda>h. False) (Some (nestedModuleRoot (\<lambda>path. Some Directory))) ''/ws''
      ''file:///ws/a/x.go'' = ''''"
    by code_simp
  moreover have "env_hostOk exampleEnv = (\<lambda>h. False)" by (simp add: exampleEnv_def)
  moreover have "p_root (cs_proxy session1Live) = ''/ws''" "cs_docs session1Live = cs_docs session1"
    by (simp_all add: session1Live_def session1_main)
  ultimately show ?thesis
    using session_workers_mirror [OF live_reachable, of "''''" loadedMain 1 "''file:///ws/a/x.go''"]
    by (simp add: session1_docs)
qed

end
