(* ===== verification/SessionGraph.thy ===== *)
theory SessionGraph
  imports SessionWorkers Driver
begin

text \<open>
  The graph server in a session: the main slot, whatever the pumps, the file events, the driver's
  queries and the builds do, is a run of the slot's own relation (\<open>GraphSlot\<close>); so the graph that
  gopls is served is the right one at every moment of the session.
\<close>

section \<open>What the editor's messages do to the main slot\<close>

text \<open>A new state of the graph server whose main slot was at most marked stale.\<close>

definition marks :: "graphServer option \<Rightarrow> graphServer option \<Rightarrow> bool" where
  "marks x y \<longleftrightarrow>
     (case x of None \<Rightarrow> y = None
      | Some g \<Rightarrow> (\<exists>g'. y = Some g' \<and> (\<lambda>s t. t = markSlotStale s)\<^sup>*\<^sup>* (gs_main g) (gs_main g')))"

lemma marks_refl [simp]: "marks x x"
  by (simp add: marks_def split: option.split)

lemma marks_trans: "marks x y \<Longrightarrow> marks y z \<Longrightarrow> marks x z"
  by (auto simp: marks_def split: option.splits intro: rtranclp_trans)

lemma marks_same: "gs_main g' = gs_main g \<Longrightarrow> marks (Some g) (Some g')"
  by (simp add: marks_def)

lemma marks_mark [simp]: "marks (md_graph md) (md_graph (markGraph stat path md))"
proof -
  have "marks (Some g) (Some (MarkStaleFor modRoots path g))" for modRoots g
  proof -
    have "gs_main (MarkStaleFor modRoots path g) \<in> {gs_main g, markSlotStale (gs_main g)}"
      by (simp add: MarkStaleFor_def MarkStale_def Let_def split: option.split)
    then show ?thesis by (auto simp: marks_def)
  qed
  then show ?thesis by (cases "md_graph md") (simp_all add: markGraph_def)
qed

lemma graph_stores [simp]:
  "md_graph (snd (indexFor r md)) = md_graph md" "md_graph (storeIndex r ri md) = md_graph md"
  "md_graph (invalidateModuleBoundary path md) = md_graph md"
  by (simp_all add: indexFor_def storeIndex_def invalidateModuleBoundary_def split: option.split)

lemma marks_fileEvent: "marks (md_graph md) (md_graph (snd (observeFileEvent stat path md)))"
proof -
  have handled: "marks (md_graph md) (md_graph (snd (handleModuleFileEvent stat path base md)))" for base
    using marks_mark [of "invalidateModuleBoundary path md" stat path] marks_mark [of md stat path]
    by (simp add: handleModuleFileEvent_def Let_def)
  obtain b md1 where h: "handleModuleFileEvent stat path (filepathBase path) md = (b, md1)"
    by (meson surj_pair)
  have "marks (md_graph md) (md_graph md1)" using handled [of "filepathBase path"] by (simp add: h)
  then show ?thesis
    using marks_trans [OF _ marks_mark [of md1 stat path]]
    by (auto simp: observeFileEvent_def h split: option.split)
qed

lemma marks_index: "marks (md_graph md) (md_graph (updateFileInIndex stat parse path content md))"
proof -
  have "marks (md_graph md) (md_graph (markGraph stat path (storeIndex r ri (snd (indexFor r md)))))" for r ri
    using marks_mark [of "storeIndex r ri (snd (indexFor r md))" stat path] by simp
  then show ?thesis by (simp add: updateFileInIndex_def Let_def case_prod_unfold)
qed

lemma marks_evict: "marks (md_graph md) (md_graph (evictIdleModules units docPaths md))"
proof -
  have one: "marks (md_graph md) (md_graph (evictModule units docPaths md r))" for md r
    by (cases "md_graph md") (auto simp: evictModule_def RemoveSlot_def Let_def intro: marks_same)
  have "marks (md_graph md) (md_graph (foldl (evictModule units docPaths) md rs))" for rs
    by (induction rs arbitrary: md) (auto intro: marks_trans [OF one])
  then show ?thesis by (simp add: evictIdleModules_def Let_def)
qed

lemma marks_watched:
  "marks (md_graph (cs_mod cs)) (md_graph (cs_mod (observeWatchedFiles ce params cs))) \<and>
   cs_builds (observeWatchedFiles ce params cs) = cs_builds cs"
proof -
  have "marks (md_graph (cs_mod cs)) (md_graph (cs_mod (foldl (\<lambda>cs uri. fileEvent ce uri cs) cs us))) \<and>
      cs_builds (foldl (\<lambda>cs uri. fileEvent ce uri cs) cs us) = cs_builds cs" for us
  proof (induction us arbitrary: cs)
    case (Cons u us)
    have "marks (md_graph (cs_mod cs)) (md_graph (cs_mod (fileEvent ce u cs)))"
      "cs_builds (fileEvent ce u cs) = cs_builds cs"
      using marks_fileEvent by (simp_all add: fileEvent_def case_prod_unfold Let_def)
    with Cons [of "fileEvent ce u cs"] show ?case by (auto intro: marks_trans)
  qed simp
  then show ?thesis by (simp add: observeWatchedFiles_def)
qed

lemma clientSwitch_graph:
  assumes "clientSwitch ce now m cs = Some (fwd, cs1)" and "m_method m \<noteq> ''initialize''"
  shows "marks (md_graph (cs_mod cs)) (md_graph (cs_mod cs1)) \<and> cs_builds cs1 = cs_builds cs"
proof -
  have "marks (md_graph (cs_mod cs)) (md_graph (cs_mod (fileEvent ce uri cs))) \<and>
      cs_builds (fileEvent ce uri cs) = cs_builds cs" for uri
    using marks_fileEvent by (simp add: fileEvent_def case_prod_unfold Let_def)
  then show ?thesis
    using assms marks_watched by (auto simp: clientSwitch_def Let_def split: if_splits prod.splits bool.splits)
qed

lemma clientMessage_graph:
  assumes "clientMessage ce now m cs = Some cs'" and "m_method m \<noteq> ''initialize''"
  shows "marks (md_graph (cs_mod cs)) (md_graph (cs_mod cs')) \<and> cs_builds cs' = cs_builds cs"
  using assms(1)
proof (cases rule: clientMessage_cases)
  case (handled cs1)
  then show ?thesis using clientSwitch_graph [OF handled(1) assms(2)] by simp
next
  case (forwarded m' cs1)
  then show ?thesis
    using clientSwitch_graph [OF forwarded(1) assms(2)] by (simp add: writeMessage_def toWorkers_def)
qed simp

section \<open>The main slot in every interleaving\<close>

definition graph_ok :: "clientEnv \<Rightarrow> clientState \<Rightarrow> bool" where
  "graph_ok ce cs \<longleftrightarrow>
     (\<forall>g. md_graph (cs_mod cs) = Some g \<longrightarrow> slotReachable (ce_loaded ce) (gs_main g, cs_builds cs))"

lemma graph_ok_marks:
  assumes "graph_ok ce cs" and "marks (md_graph (cs_mod cs)) (md_graph (cs_mod cs'))"
    and "cs_builds cs' = cs_builds cs"
  shows "graph_ok ce cs'"
proof -
  have "slotReachable (ce_loaded ce) (t, jobs)"
    if "(\<lambda>s t. t = markSlotStale s)\<^sup>*\<^sup>* s t" "slotReachable (ce_loaded ce) (s, jobs)" for s t jobs
    using that
  proof (induction rule: rtranclp_induct)
    case (step t u)
    then show ?case using sr_step [OF _ g_mark] by simp
  qed simp
  then show ?thesis using assms by (auto simp: graph_ok_def marks_def split: option.splits)
qed

lemma graph_ok_same:
  "graph_ok ce cs \<Longrightarrow> md_graph (cs_mod cs') = md_graph (cs_mod cs) \<Longrightarrow> cs_builds cs' = cs_builds cs \<Longrightarrow>
     graph_ok ce cs'"
  by (simp add: graph_ok_def)

lemma answerQuery_main:
  assumes "answerQuery modRoots idxOf (Some q) g = (r, g')"
  shows "case r of
      FromMain a job \<Rightarrow> answerSlot (idxOf '''') q (canonicalKey (q_patterns q) (q_buildFlags q)) (gs_main g) =
        (a, job, gs_main g') \<and> resolveModRootForQuery modRoots g q = ''''
    | FromNested modRoot outcome \<Rightarrow> gs_main g' = gs_main g"
  using assms
  by (auto simp: answerQuery_def subslotFor_def Let_def split: if_splits prod.splits option.splits)

lemma graph_ok_query:
  assumes "graph_ok ce cs" and "md_graph (cs_mod cs) = Some g" and "queryOk (q_patterns q) (q_buildFlags q)"
    and "answerQuery modRoots idxOf (Some q) g = (r, g')"
  shows "graph_ok ce (graphAnswered r g' cs)"
proof -
  have ok: "slotReachable (ce_loaded ce) (gs_main g, cs_builds cs)"
    using assms(1,2) by (simp add: graph_ok_def)
  show ?thesis
  proof (cases r)
    case (FromMain a job)
    then have "answerSlot (idxOf '''') q (canonicalKey (q_patterns q) (q_buildFlags q)) (gs_main g) =
        (a, job, gs_main g')"
      using answerQuery_main [OF assms(4)] by simp
    from sr_step [OF ok g_query [OF assms(3) this]] show ?thesis
      by (simp add: graph_ok_def graphAnswered_def FromMain)
  next
    case (FromNested modRoot outcome)
    then show ?thesis using ok answerQuery_main [OF assms(4)] by (simp add: graph_ok_def graphAnswered_def)
  qed
qed

lemma sess_graph: "sessStep ce strict s s' \<Longrightarrow> graph_ok ce (fst s) \<Longrightarrow> graph_ok ce (fst s')"
proof (induction rule: sessStep.induct)
  case (e_message now m cs cs' ow)
  then show ?case using clientMessage_graph graph_ok_marks by (metis fst_conv)
next
  case (t_modules cs ow pc)
  then show ?case using marks_evict by (auto intro: graph_ok_marks)
next
  case (x_index cs ow pc parseFull path content)
  then show ?case using marks_index by (auto intro: graph_ok_marks)
next
  case (d_query cs g q parseImportsOnly r g' ow pc)
  then show ?case using graph_ok_query by simp
next
  case (d_build cs g slot jobs ow pc)
  then show ?case using sr_step by (auto simp: graph_ok_def)
qed (simp_all add: graph_ok_def loggedProxy_def writeMessage_def)

text \<open>
  The cache file holds what an earlier session saved: its patterns and flags are those of a query,
  its key is theirs, and its graph, retargeted, is one \<open>go list\<close> may return.
\<close>

definition cacheOk :: "clientEnv \<Rightarrow> bool" where
  "cacheOk ce \<longleftrightarrow>
     (\<forall>f saved root slot job. ce_graph ce f = Some saved \<longrightarrow>
        loadDiskCache saved root emptySlot = Some (slot, job) \<longrightarrow>
        queryOk (sg_patterns saved) (sg_buildFlags saved) \<and>
        sg_patternsKey saved = canonicalKey (sg_patterns saved) (sg_buildFlags saved) \<and>
        ce_loaded ce (sl_patterns slot) (sl_dir slot) (sl_buildFlags slot) (the (sl_resp slot)))"

lemma graph_ok_setRoot:
  assumes "cacheOk ce" and "cs_builds cs = []"
    and "md_graph (cs_mod cs) \<in> {None, Some \<lparr>gs_root = '''', gs_main = emptySlot, gs_subslots = []\<rparr>}"
  shows "graph_ok ce (graphSetRoot ce root cs)"
proof (cases "md_graph (cs_mod cs)")
  case (Some g)
  then have g: "gs_main g = emptySlot" using assms(3) by simp
  have empty: "slotReachable (ce_loaded ce) (emptySlot, [])" by (rule sr_empty)
  have "slotReachable (ce_loaded ce) (slot, [])"
    if "ce_graph ce f = Some saved" "loadDiskCache saved root emptySlot = Some (slot, job)" for f saved slot job
    using sr_disk [OF _ _ that(2)] assms(1) that unfolding cacheOk_def by blast
  then show ?thesis
    using empty assms(2) g Some
    by (auto simp: graph_ok_def graphSetRoot_def Let_def split: option.splits if_splits prod.splits)
qed (simp add: graph_ok_def graphSetRoot_def)

lemma start_graph:
  assumes "cacheOk ce" and "sessStart ce s"
  shows "graph_ok ce (fst s)"
  using assms(2)
proof (cases rule: sessStart.cases)
  case (sess_start m params cs0 now cs)
  obtain m' p where cs: "cs = writeMessage m' (toWorkers ce m'
      (startSession ce (m_params m) (cs0\<lparr>cs_proxy := p\<rparr>)))"
    using initialize_message [OF sess_start(2,3,4,5,11)] by blast
  have empty: "slotReachable (ce_loaded ce) (emptySlot, [])" by (rule sr_empty)
  have "graph_ok ce (startSession ce (m_params m) (cs0\<lparr>cs_proxy := p\<rparr>))"
  proof (cases "initRoot (env_hostOk (ce_env ce)) params = ''''")
    case True
    then show ?thesis
      using sess_start empty by (auto simp: startSession_def graph_ok_def)
  next
    case False
    let ?cs1 = "(cs0\<lparr>cs_proxy := p, cs_mod := (cs_mod cs0)\<lparr>md_root := initRoot (env_hostOk (ce_env ce)) params\<rparr>\<rparr>)"
    have "graph_ok ce (graphSetRoot ce (initRoot (env_hostOk (ce_env ce)) params)
        (?cs1\<lparr>cs_started := cs_started ?cs1 @ [BuildIndex (initRoot (env_hostOk (ce_env ce)) params)]\<rparr>))"
      using sess_start by (intro graph_ok_setRoot [OF assms(1)]) auto
    then show ?thesis
      using False sess_start(3) by (simp add: startSession_def graph_ok_def Let_def)
  qed
  then show ?thesis using sess_start(1) by (simp add: cs graph_ok_def writeMessage_def toWorkers_def)
qed

lemma reach_graph: "sessReachable ce strict s \<Longrightarrow> cacheOk ce \<Longrightarrow> graph_ok ce (fst s)"
proof (induction rule: sessReachable.induct)
  case (sess_reach s s')
  have "graph_ok ce (fst s)" using start_graph sess_reach(1,3) by blast
  with sess_reach(2) show ?case by (induction rule: rtranclp_induct) (auto intro: sess_graph)
qed

section \<open>Properties\<close>


section \<open>Witness\<close>

text \<open>The session of \<open>Session\<close>: gopls asks for \<open>./...\<close>, which starts a build; the build ends, gopls asks again.\<close>

definition wsQuery :: driverQuery where
  "wsQuery = \<lparr>q_patterns = [''./...''], q_dir = ''/ws'', q_buildFlags = [], q_overlay = []\<rparr>"

definition wsJob :: buildJob where
  "wsJob = \<lparr>b_patterns = [''./...''], b_dir = ''/ws'', b_key = canonicalKey [''./...''] [], b_flags = []\<rparr>"

definition wsServer :: graphServer where
  "wsServer = \<lparr>gs_root = ''/ws'', gs_main = emptySlot, gs_subslots = []\<rparr>"

definition builtServer :: graphServer where
  "builtServer = wsServer\<lparr>gs_main := finishBuild wsJob (Some ''G'') (emptySlot\<lparr>sl_building := True\<rparr>)\<rparr>"

definition sessionAsked :: clientState where
  "sessionAsked = graphAnswered (FromMain NotHandled (Some wsJob))
     (wsServer\<lparr>gs_main := emptySlot\<lparr>sl_building := True\<rparr>\<rparr>) session1"

definition sessionBuilt :: clientState where
  "sessionBuilt = sessionAsked\<lparr>cs_mod := (cs_mod sessionAsked)\<lparr>md_graph := Some builtServer\<rparr>, cs_builds := []\<rparr>"

lemma session1_graph:
  "md_graph (cs_mod session1) = Some wsServer" "cs_builds session1 = []"
  "md_modRoots (cs_mod session1) = Some emptyCache"
proof -
  have root: "initRoot (\<lambda>h. False) [(''rootUri'', JStr ''file:///ws'')] = ''/ws''" by code_simp
  obtain m' p where s0: "session0 = writeMessage m' (toWorkers sessionEnv m' (startSession sessionEnv
      (m_params exampleInit) (idleClient\<lparr>cs_proxy := p\<rparr>)))"
    by (rule initialize_message [OF _ _ _ _ session0_run [THEN conjunct1]])
      (simp_all add: exampleInit_def idleClient_def exampleClient_def)
  have "md_graph (cs_mod session0) = Some wsServer \<and> cs_builds session0 = []"
    using root
    by (simp add: s0 writeMessage_def toWorkers_def startSession_def graphSetRoot_def exampleInit_def
        idleClient_def exampleClient_def exampleModules_def exampleEnv_def sessionEnv_def
        exampleClientEnv_def wsServer_def Let_def)
  moreover have "md_modRoots (cs_mod session0) = Some emptyCache"
    using session0_start by (rule start_cases) simp
  moreover have "cs_mod session1 = cs_mod session0 \<and> cs_builds session1 = cs_builds session0"
  proof -
    have "m_method exampleOpenNote = ''textDocument/didOpen''" by (simp add: exampleOpenNote_def)
    then show ?thesis
      by (simp add: session1_def clientMessage_def clientSwitch_def toWorkers_def writeMessage_def Let_def)
  qed
  ultimately show "md_graph (cs_mod session1) = Some wsServer" "cs_builds session1 = []"
    "md_modRoots (cs_mod session1) = Some emptyCache" by simp_all
qed

lemma ws_main:
  assumes "md_modRoots md = Some emptyCache" and "gs_root g = ''/ws''"
  shows "resolveModRootForQuery (rootForOf (\<lambda>path. Some Directory) md) g wsQuery = ''''"
proof -
  have "nestedModuleRoot (\<lambda>path. Some Directory) ''/ws'' ''/ws'' = ''''" by code_simp
  then show ?thesis
    using assms
    by (simp add: resolveModRootForQuery_def resolveModRoot_def rootForOf_def RootFor_def emptyCache_def
        wsQuery_def queryFileTargets.simps cutPrefix_def Let_def)
qed

lemma built_reachable: "sessReachable sessionEnv True (sessionBuilt, freshOwn, PcIdle)"
proof -
  have q: "queryOk (q_patterns wsQuery) (q_buildFlags wsQuery)"
    using exampleQuery_ok by (simp add: wsQuery_def)
  have "answerQuery (rootForOf (ce_stat sessionEnv) (cs_mod session1))
      (sessIdx (\<lambda>c. (None, False)) (cs_mod session1)) (Some wsQuery) wsServer =
      (FromMain NotHandled (Some wsJob), wsServer\<lparr>gs_main := emptySlot\<lparr>sl_building := True\<rparr>\<rparr>)"
    using ws_main [OF session1_graph(3), of wsServer]
    by (simp add: answerQuery_def wsServer_def answerSlot_def emptySlot_def wsJob_def isWorkspaceQuery_def
        wsQuery_def suffix_def)
  from reach_step [OF session1_reachable d_query [OF session1_graph(1) q this]]
  have r1: "sessReachable sessionEnv True (sessionAsked, freshOwn, PcIdle)" by (simp add: sessionAsked_def)
  have asked: "md_graph (cs_mod sessionAsked) = Some (wsServer\<lparr>gs_main := emptySlot\<lparr>sl_building := True\<rparr>\<rparr>)"
    "cs_builds sessionAsked = [wsJob]"
    by (simp_all add: sessionAsked_def graphAnswered_def session1_graph optJob_def)
  have "gstep (ce_loaded sessionEnv) (emptySlot\<lparr>sl_building := True\<rparr>, [wsJob])
      (finishBuild wsJob (Some ''G'') (emptySlot\<lparr>sl_building := True\<rparr>), remove1 wsJob [wsJob])"
    by (rule g_finish) (simp_all add: sessionEnv_def exampleClientEnv_def)
  then have "gstep (ce_loaded sessionEnv)
      (gs_main (wsServer\<lparr>gs_main := emptySlot\<lparr>sl_building := True\<rparr>\<rparr>), cs_builds sessionAsked)
      (finishBuild wsJob (Some ''G'') (emptySlot\<lparr>sl_building := True\<rparr>), [])"
    by (simp add: asked(2))
  from reach_step [OF r1 d_build [OF asked(1) this]] show ?thesis
    by (simp add: sessionBuilt_def builtServer_def)
qed


end
