(* ===== verification/Restart.thy ===== *)
theory Restart
  imports SessionWorkers
begin

text \<open>
  From one session to the next (\<open>scope.go\<close>): \<open>pushScope\<close> starts a goroutine that saves the scope
  (\<open>saveScope\<close>), at some later moment of the session; the next session reads the file before
  it sends its first filters (\<open>restoreScope\<close> in \<open>patchInitialize\<close>).
\<close>

section \<open>The scope file over a session\<close>

text \<open>
  The end of \<open>saveScope\<close>: the file is replaced as a whole (\<open>DiskCache\<close>), or left as it is when there
  is nothing to save or a system call fails.
\<close>

definition writeScope :: "bool \<Rightarrow> 'a scopeState_scheme \<Rightarrow> string list option \<Rightarrow> string list option" where
  "writeScope ok p file =
     (case saveScope p of None \<Rightarrow> file | Some us \<Rightarrow> if ok then Some us else file)"

text \<open>The session and the file of its root. A saving goroutine may run at any moment.\<close>

inductive fileStep :: "clientEnv \<Rightarrow> bool \<Rightarrow> string list option \<times> sess \<Rightarrow> string list option \<times> sess \<Rightarrow> bool"
  for ce strict where
  f_session: "sessStep ce strict s s' \<Longrightarrow> fileStep ce strict (file, s) (file, s')"
| f_save: "fileStep ce strict (file, cs, ow, pc) (writeScope ok (cs_proxy cs) file, cs, ow, pc)"

interpretation fs: simulation "fileStep ce strict" "sessStep ce strict" snd for ce strict
  by unfold_locales (auto elim!: fileStep.cases)

text \<open>What is in the file is the scope of one moment of the session.\<close>

lemma file_is_scope:
  assumes "(fileStep ce strict)\<^sup>*\<^sup>* x y"
  shows "fst y = fst x \<or>
    (\<exists>s1. (sessStep ce strict)\<^sup>*\<^sup>* (snd x) s1 \<and> saveScope (cs_proxy (fst s1)) = fst y)"
  using assms
proof (induction rule: rtranclp_induct)
  case (step y z)
  note run = fs.run [OF step(1)]
  from step(2) show ?case
  proof (cases rule: fileStep.cases)
    case (f_session s s' f)
    then show ?thesis using step(3) by simp
  next
    case (f_save f cs ow pc ok)
    then have "fst z = fst y \<or> saveScope (cs_proxy (fst (snd y))) = fst z"
      by (simp add: writeScope_def split: option.split)
    then show ?thesis using step(3) run by metis
  qed
qed simp

section \<open>The next session\<close>

lemma unitDone_write [simp]: "unitDone u (writeServer m p) = unitDone u p"
  by (simp add: unitDone_def writeServer_def split: option.split)

lemma restart_proxy:
  assumes "m_params m = Some (JObj params)" and "m_method m = ''initialize''"
    and "initRoot hostOk params = root" and "root \<noteq> ''''" and "saved root = Some us" and "us \<noteq> []"
    and "patchInitialize hostOk stat now saved m freshProxy = Some (m', p)"
  shows "sentFilters m' = Some (filtersLocked p) \<and>
    (\<forall>u. unitDone u p \<longleftrightarrow> u \<in> set us \<and> unitDirExists stat root u) \<and>
    (\<forall>u. gget (p_scope p) u \<noteq> None \<longleftrightarrow> u \<in> set us \<and> unitDirExists stat root u) \<and> wf_map (p_scope p)"
proof -
  have "gens_ok freshProxy" by (simp add: gens_ok_def freshProxy_def)
  from patchInitialize_obj [OF assms(1) this, of hostOk stat now saved] assms(7)
  obtain opts ps where m': "m_params m' = Some (JObj ps)" "m_method m' = m_method m"
      "gget ps ''initializationOptions'' =
         Some (JObj (setFilters (stripUserFilters opts) (filtersLocked p)))"
    and ok: "gens_ok p" "allApplied p"
    by auto
  have scope: "gget (p_scope p) u \<noteq> None \<longleftrightarrow> u \<in> set us \<and> unitDirExists stat root u" for u
    using assms(1,3-7)
    by (auto simp: patchInitialize_def Let_def restore_gget freshProxy_def split: option.splits if_splits)
  moreover have "unitDone u p \<longleftrightarrow> gget (p_scope p) u \<noteq> None" for u
    using ok(2) by (auto simp: unitDone_def allApplied_def split: option.split)
  ultimately show ?thesis
    using sentFilters_initialize [OF _ m'(1,3)] m'(2) assms(2) ok(1) by (simp add: gens_ok_def)
qed

section \<open>Properties\<close>

text \<open>C18: a session begins where the last one ended. The scope file that the next session finds, in
  this workspace or another worktree of it, if any save wrote it since \<open>f0\<close>, is the scope of one
  moment of the session before. The first message the next session sends carries the filters of
  exactly the units in it whose directories still exist, these units count as applied at once, so
  that no request for them is held, and if none is gone the filters are those of that moment.\<close>

theorem scope_survives_restart:
  assumes "sessStart ce s0" and "(fileStep ce strict)\<^sup>*\<^sup>* (f0, s0) (Some us, s)" and "f0 \<noteq> Some us"
    and "m_method m = ''initialize''" and "m_params m = Some (JObj params)"
    and "initRoot (env_hostOk (ce_env ce2)) params = root" and "root \<noteq> ''''"
    and "ce_saved ce2 root = Some us" and "cs_proxy cs0 = freshProxy" and "cs_held cs0 = noHeld"
    and "clientMessage ce2 now m cs0 = Some cs2"
  shows "\<exists>cs1 ow1 pc1 m'. sessReachable ce strict (cs1, ow1, pc1) \<and>
    saveScope (cs_proxy cs1) = Some us \<and>
    hs_log (cs_held cs2) = [SentMsg m'] \<and> sentFilters m' = Some (filtersLocked (cs_proxy cs2)) \<and>
    (\<forall>u. unitDone u (cs_proxy cs2) \<longleftrightarrow> u \<in> set us \<and> unitDirExists (ce_stat ce2) root u) \<and>
    ((\<forall>u \<in> set us. unitDirExists (ce_stat ce2) root u) \<longrightarrow>
       filtersLocked (cs_proxy cs2) = filtersLocked (cs_proxy cs1))"
proof -
  obtain s1 where s1: "(sessStep ce strict)\<^sup>*\<^sup>* s0 s1" "saveScope (cs_proxy (fst s1)) = Some us"
    using file_is_scope [OF assms(2)] assms(3) by auto
  have reach: "sessReachable ce strict s1" using assms(1) s1(1) by (rule sess_reach)
  have us: "us \<noteq> []" "set us = {u. gget (p_scope (cs_proxy (fst s1))) u \<noteq> None}"
    using s1(2) set_gkeys [of "p_scope (cs_proxy (fst s1))"]
    by (auto simp: saveScope_def split: if_splits)
  obtain m' p where p: "patchInitialize (env_hostOk (ce_env ce2)) (ce_stat ce2) now (ce_saved ce2) m freshProxy =
      Some (m', p)" "cs_proxy cs2 = writeServer m' p" "cs_held cs2 = noHeld\<lparr>hs_log := [SentMsg m']\<rparr>"
    using initialize_message [OF assms(4,5,9-11)] by blast
  note r = restart_proxy [OF assms(5,4,6-8) us(1) p(1)]
  have same: "filtersLocked p = filtersLocked (cs_proxy (fst s1))"
    if "\<forall>u \<in> set us. unitDirExists (ce_stat ce2) root u"
  proof (rule filtersLocked_cong)
    show "wf_map (p_scope (cs_proxy (fst s1)))"
      using session_inv [OF reach] by (simp add: session_ok_def gens_ok_def)
    show "(gget (p_scope p) u = None) = (gget (p_scope (cs_proxy (fst s1))) u = None)" for u
    proof -
      have "gget (p_scope p) u \<noteq> None \<longleftrightarrow> u \<in> set us" using r that by blast
      also have "\<dots> \<longleftrightarrow> gget (p_scope (cs_proxy (fst s1))) u \<noteq> None"
        unfolding us(2) by (rule mem_Collect_eq)
      finally show ?thesis by blast
    qed
  qed (use r in blast)
  have fl: "filtersLocked (writeServer m' p) = filtersLocked p"
    by (simp add: filtersLocked_def writeServer_def)
  show ?thesis
    using reach s1(2) r same fl
    by (intro exI [of _ "fst s1"] exI [of _ "fst (snd s1)"] exI [of _ "snd (snd s1)"] exI [of _ m'])
      (simp add: p(2,3))
qed

text \<open>An emptied scope comes back. \<open>saveScope\<close> writes nothing for an empty scope: when the last
  units were evicted and gopls was told to exclude everything, the file still lists the units of
  before, and the next session sends them again and takes them for applied.\<close>

theorem emptied_scope_comes_back:
  assumes "p_scope p = []" and "us \<noteq> []" and "root \<noteq> ''''"
    and "m_params m = Some (JObj params)" and "m_method m = ''initialize''"
    and "initRoot hostOk params = root" and "saved root = writeScope ok p (Some us)"
    and "patchInitialize hostOk stat now saved m freshProxy = Some (m', p')"
    and "u \<in> set us" and "unitDirExists stat root u"
  shows "filtersLocked p = [''-**''] \<and> unitDone u p'"
proof -
  have "saved root = Some us" using assms(1,7) by (simp add: writeScope_def saveScope_def)
  from restart_proxy [OF assms(4,5,6,3) this assms(2,8)] assms(1,9,10) show ?thesis
    by (simp add: filtersLocked_def filterExcludeAll_def Let_def)
qed

text \<open>The session of \<open>Session\<close> ends after its first document was opened; the next one starts in its workspace.\<close>

definition restartEnv :: clientEnv where
  "restartEnv = sessionEnv\<lparr>ce_saved := (\<lambda>r. Some [''pkg'', ''a''])\<rparr>"

theorem scope_survives_restart_witness:
  "\<exists>cs2 m'. clientMessage restartEnv 9 exampleInit idleClient = Some cs2 \<and>
     hs_log (cs_held cs2) = [SentMsg m'] \<and> sentFilters m' = Some (filtersLocked (cs_proxy cs2)) \<and>
     (\<forall>u. unitDone u (cs_proxy cs2) \<longleftrightarrow> u = ''pkg'' \<or> u = ''a'')"
proof -
  have saved: "saveScope (cs_proxy session1) = Some [''pkg'', ''a'']"
  proof -
    have "saveScope proxy1 = Some [''pkg'', ''a'']" by code_simp
    then show ?thesis using session1_run by simp
  qed
  have "sessStep sessionEnv True (session0, freshOwn, PcIdle) (session1, freshOwn, PcIdle)"
    by (rule e_message [OF session1_run [THEN conjunct1]])
      (simp_all add: exampleOpenNote_def pullAnswer_def sentFilters_def)
  then have "fileStep sessionEnv True (None, session0, freshOwn, PcIdle) (None, session1, freshOwn, PcIdle)"
    by (rule f_session)
  moreover have "fileStep sessionEnv True (None, session1, freshOwn, PcIdle)
      (Some [''pkg'', ''a''], session1, freshOwn, PcIdle)"
    using f_save [of sessionEnv True None session1 freshOwn PcIdle True] by (simp add: writeScope_def saved)
  ultimately have run: "(fileStep sessionEnv True)\<^sup>*\<^sup>* (None, session0, freshOwn, PcIdle)
      (Some [''pkg'', ''a''], session1, freshOwn, PcIdle)"
    by (meson converse_rtranclp_into_rtranclp r_into_rtranclp)
  obtain cs2 where cs2: "clientMessage restartEnv 9 exampleInit idleClient = Some cs2"
  proof -
    have "interceptRequest restartEnv exampleInit cs = (False, cs_held cs)" for cs by simp
    then have "clientMessage restartEnv 9 exampleInit idleClient \<noteq> None"
      by (auto simp: clientMessage_def clientSwitch_def exampleInit_def patchInitialize_def Let_def)
    then show ?thesis using that by blast
  qed
  have init: "m_method exampleInit = ''initialize''"
    "m_params exampleInit = Some (JObj [(''rootUri'', JStr ''file:///ws'')])"
    by (simp_all add: exampleInit_def)
  have root: "initRoot (env_hostOk (ce_env restartEnv)) [(''rootUri'', JStr ''file:///ws'')] = ''/ws''"
  proof -
    have "initRoot (\<lambda>h. False) [(''rootUri'', JStr ''file:///ws'')] = ''/ws''" by code_simp
    then show ?thesis by (simp add: restartEnv_def exampleEnv_def)
  qed
  have "unitDirExists (\<lambda>path. Some Directory) ''/ws'' u" for u by (simp add: unitDirExists_def)
  then show ?thesis
    using scope_survives_restart [OF session0_start run _ init root _ _ _ _ cs2] cs2
    by (auto simp: restartEnv_def idleClient_def exampleClient_def)
qed

end
