(* ===== verification/WorkerWire.thy ===== *)
theory WorkerWire
  imports SessionWorkers
begin

text \<open>
  What is written on the connection to a worker (\<open>worker.go\<close>): \<open>initialize\<close> and \<open>initialized\<close>, then
  the notifications \<open>didOpen\<close>, \<open>didChangeFull\<close>, \<open>didClose\<close> and \<open>notifyRaw\<close> make. A language server
  that reads these messages by the protocol knows the documents that the worker is meant to know.
\<close>

section \<open>Messages\<close>

definition showInt :: "int \<Rightarrow> string" where
  "showInt n = (if n < 0 then CHR ''-'' # showNat (nat (- n)) else showNat (nat n))"

definition notifyRaw :: "string \<Rightarrow> json option \<Rightarrow> message" where
  "notifyRaw method params =
     \<lparr>m_id = None, m_method = method, m_params = params, m_result = None, m_error = None\<rparr>"

definition didOpenParams :: "openDoc \<Rightarrow> json" where
  "didOpenParams d =
     JObj [(''textDocument'', JObj [(''uri'', JStr (d_uri d)), (''languageId'', JStr (d_languageId d)),
       (''version'', JNum (showInt (d_version d))), (''text'', JStr (d_text d))])]"

definition didChangeParams :: "string \<Rightarrow> int \<Rightarrow> string \<Rightarrow> json" where
  "didChangeParams uri version text =
     JObj [(''textDocument'', JObj [(''uri'', JStr uri), (''version'', JNum (showInt version))]),
       (''contentChanges'', JArr [JObj [(''text'', JStr text)]])]"

definition didCloseParams :: "string \<Rightarrow> json" where
  "didCloseParams uri = JObj [(''textDocument'', JObj [(''uri'', JStr uri)])]"

fun noteMessage :: "workerNote \<Rightarrow> message" where
  "noteMessage (DidOpen d) = notifyRaw ''textDocument/didOpen'' (Some (didOpenParams d))"
| "noteMessage (DidChangeFull u v t) = notifyRaw ''textDocument/didChange'' (Some (didChangeParams u v t))"
| "noteMessage (DidClose u) = notifyRaw ''textDocument/didClose'' (Some (didCloseParams u))"
| "noteMessage (DidChangeWatchedFiles p) = notifyRaw ''workspace/didChangeWatchedFiles'' p"
| "noteMessage DidChangeConfiguration =
     notifyRaw ''workspace/didChangeConfiguration'' (Some (JObj [(''settings'', JObj [])]))"

text \<open>\<open>call\<close>: its id and its request. \<open>initialize\<close> up to the wait, and after it.\<close>

definition workerCallId :: "nat \<Rightarrow> json" where
  "workerCallId n = JStr (''worker-'' @ showNat n)"

definition callMessage :: "nat \<Rightarrow> string \<Rightarrow> json option \<Rightarrow> message" where
  "callMessage n method params =
     \<lparr>m_id = Some (workerCallId n), m_method = method, m_params = params, m_result = None, m_error = None\<rparr>"

definition initializeStart :: "string \<Rightarrow> workerState \<Rightarrow> workerClient \<Rightarrow> (nat \<times> message) \<times> workerClient" where
  "initializeStart pid st c =
     (let (ch, c1) = callStart workerCallId c
      in ((ch, callMessage (cl_seq c1) ''initialize'' (Some (initializeParams pid st))), c1))"

definition initializeEnd :: "nat \<Rightarrow> workerClient \<Rightarrow> bool \<times> message list" where
  "initializeEnd ch c =
     (let ok = callOk (awaitResponse ch c)
      in (ok, if ok then [notifyRaw ''initialized'' (Some (JObj []))] else []))"

text \<open>
  All that was written to the worker of a generation, when its initialisation succeeded, apart from
  the requests that are passed on to it and the answers to its own.
\<close>

definition sentTo :: "nat \<Rightarrow> workerHandle \<Rightarrow> workerNote list" where
  "sentTo g h = map snd (filter (\<lambda>x. fst x = g) (wh_sent h))"

definition workerWire :: "string \<Rightarrow> workerState \<Rightarrow> nat \<Rightarrow> workerHandle \<Rightarrow> message list" where
  "workerWire pid st g h =
     (let ((ch, req), c) = initializeStart pid st freshClient
      in req # notifyRaw ''initialized'' (Some (JObj [])) # map noteMessage (sentTo g h))"

section \<open>Reading them\<close>

text \<open>
  A language server's view of the documents after a message, by the protocol; edits are applied as
  the proxy itself applies those of the editor.
\<close>

definition receive :: "(string \<Rightarrow> int option) \<Rightarrow> message \<Rightarrow> view \<Rightarrow> view" where
  "receive readInt m v =
     (if m_method m = ''textDocument/didOpen'' then
        (case readOpen readInt (m_params m) of
           None \<Rightarrow> v | Some d \<Rightarrow> v(d_uri d \<mapsto> (d_version d, d_text d)))
      else if m_method m = ''textDocument/didChange'' then
        (case readChange readInt (m_params m) of
           None \<Rightarrow> v
         | Some c \<Rightarrow>
             (case v (ch_uri c) of
                None \<Rightarrow> v
              | Some (n, t) \<Rightarrow> v(ch_uri c \<mapsto> (ch_version c, fst (applyContentChanges t (ch_changes c))))))
      else if m_method m = ''textDocument/didClose'' then v(docURI (m_params m) := None)
      else v)"

text \<open>The numbers that are written in a notification, and that they are read as written.\<close>

fun noteVersions :: "workerNote \<Rightarrow> int set" where
  "noteVersions (DidOpen d) = {d_version d}"
| "noteVersions (DidChangeFull u v t) = {v}"
| "noteVersions _ = {}"

definition readsVersions :: "(string \<Rightarrow> int option) \<Rightarrow> workerNote list \<Rightarrow> bool" where
  "readsVersions readInt ns \<longleftrightarrow> (\<forall>n \<in> set ns. \<forall>v \<in> noteVersions n. readInt (showInt v) = Some v)"

lemma readOpen_didOpen:
  "readInt (showInt (d_version d)) = Some (d_version d) \<Longrightarrow>
     readOpen readInt (Some (didOpenParams d)) = Some d"
  by (simp add: readOpen_def didOpenParams_def jobj_def objOf_def jstr_def jint_def)

lemma readChange_didChange:
  "readInt (showInt v) = Some v \<Longrightarrow> readChange readInt (Some (didChangeParams u v t)) =
     Some \<lparr>ch_uri = u, ch_version = v, ch_changes = [\<lparr>c_range = None, c_text = t\<rparr>]\<rparr>"
  by (simp add: readChange_def didChangeParams_def jobj_def objOf_def jstr_def jint_def editsOf_def
      readEdit_def readRange_def)

lemma docURI_didClose: "docURI (Some (didCloseParams u)) = u"
  by (simp add: didCloseParams_def docURI_def jfield_def)

lemma receive_note:
  assumes "\<forall>v \<in> noteVersions n. readInt (showInt v) = Some v"
  shows "receive readInt (noteMessage n) v = applyNote n v"
  using assms
  by (cases n)
    (auto simp: receive_def notifyRaw_def readOpen_didOpen readChange_didChange docURI_didClose
      split: option.split)

lemma receive_notes:
  "readsVersions readInt ns \<Longrightarrow> fold (receive readInt) (map noteMessage ns) v = applyNotes ns v"
  by (induction ns arbitrary: v) (simp_all add: readsVersions_def receive_note)

text \<open>The wire begins with the handshake, and the documents follow.\<close>

lemma workerWire_split:
  "workerWire pid st g h =
     [callMessage 1 ''initialize'' (Some (initializeParams pid st)), notifyRaw ''initialized'' (Some (JObj []))] @
     map noteMessage (sentTo g h)"
  by (simp add: workerWire_def initializeStart_def callStart_def register_def WorkerClient.freshClient_def Let_def)

lemma receive_wire:
  assumes "readsVersions readInt (sentTo g h)"
  shows "fold (receive readInt) (workerWire pid st g h) (\<lambda>u. None) = viewOf g h"
  using receive_notes [OF assms]
  by (simp add: workerWire_split receive_def callMessage_def notifyRaw_def viewOf_def sentTo_def)

section \<open>Properties\<close>


lemma showInt_read: "0 \<le> n \<Longrightarrow> n < 2 ^ 63 \<Longrightarrow> sscanfD (showInt n) 0 = n"
  using sscanfD_showNat [of "nat n" 0] by (simp add: showInt_def)


end
