(* ===== verification/WorkerStop.thy ===== *)
theory WorkerStop
  imports WorkerWire
begin

text \<open>
  The end of a worker's process (\<open>gracefulStop\<close>, \<open>worker.go\<close>): a goroutine asks it to shut down and
  tells it to exit, while another waits for that, but no longer than its time-out, and then sets the
  timer that kills the process. \<open>shutdown\<close> starts both and returns.
\<close>

section \<open>Steps\<close>

datatype stopPc = StCall | StWait json nat | StDone

text \<open>\<open>so_exited\<close>: this program has ended (\<open>os.Exit\<close>), and with it its goroutines and timers.\<close>

record stopState =
  so_client :: workerClient
  so_pc :: stopPc
  so_out :: "message list"
  so_armed :: bool
  so_killed :: bool
  so_exited :: bool

definition gracefulStop :: "bool \<Rightarrow> workerClient \<Rightarrow> stopState option" where
  "gracefulStop process c =
     (if \<not> process then None
      else Some \<lparr>so_client = c, so_pc = StCall, so_out = [], so_armed = False, so_killed = False,
        so_exited = False\<rparr>)"

definition stopCall :: "stopState \<Rightarrow> stopState" where
  "stopCall s =
     (let (ch, c) = callStart workerCallId (so_client s)
      in s\<lparr>so_client := c, so_pc := StWait (workerCallId (cl_seq c)) ch,
           so_out := so_out s @ [callMessage (cl_seq c) ''shutdown'' None]\<rparr>)"

definition exitNote :: message where
  "exitNote = notifyRaw ''exit'' (Some (JObj []))"

text \<open>The call returns, with an answer, because the connection is down, or after its time-out.\<close>

definition stopReturn :: "workerClient \<Rightarrow> stopState \<Rightarrow> stopState" where
  "stopReturn c s = s\<lparr>so_client := c, so_pc := StDone, so_out := so_out s @ [exitNote]\<rparr>"

inductive stopStep :: "stopState \<Rightarrow> stopState \<Rightarrow> bool" where
  so_call: "\<not> so_exited s \<Longrightarrow> so_pc s = StCall \<Longrightarrow> stopStep s (stopCall s)"
| so_connection: "\<not> so_exited s \<Longrightarrow> cstep (so_client s) c \<Longrightarrow> stopStep s (s\<lparr>so_client := c\<rparr>)"
| so_return: "\<not> so_exited s \<Longrightarrow> so_pc s = StWait i ch \<Longrightarrow> cl_box (so_client s) ! ch \<noteq> [] \<Longrightarrow>
    stopStep s (stopReturn (so_client s) s)"
| so_timeout: "\<not> so_exited s \<Longrightarrow> so_pc s = StWait i ch \<Longrightarrow>
    stopStep s (stopReturn (unregister i (so_client s)) s)"
| so_arm: "\<not> so_exited s \<Longrightarrow> stopStep s (s\<lparr>so_armed := True\<rparr>)"
| so_kill: "\<not> so_exited s \<Longrightarrow> so_armed s \<Longrightarrow> stopStep s (s\<lparr>so_killed := True\<rparr>)"
| so_exit: "\<not> so_exited s \<Longrightarrow> stopStep s (s\<lparr>so_exited := True\<rparr>)"

section \<open>What the worker is told\<close>

text \<open>The messages written so far, by the point of the goroutine.\<close>

definition stop_ok :: "stopState \<Rightarrow> bool" where
  "stop_ok s \<longleftrightarrow>
     (case so_pc s of
        StCall \<Rightarrow> so_out s = []
      | StWait i ch \<Rightarrow> \<exists>n. i = workerCallId n \<and> so_out s = [callMessage n ''shutdown'' None]
      | StDone \<Rightarrow> \<exists>n. so_out s = [callMessage n ''shutdown'' None, exitNote]) \<and>
     (so_killed s \<longrightarrow> so_armed s)"

lemma stop_ok_step: "stopStep s s' \<Longrightarrow> stop_ok s \<Longrightarrow> stop_ok s'"
  by (induction rule: stopStep.induct)
    (auto simp: stop_ok_def stopCall_def stopReturn_def case_prod_unfold Let_def split: stopPc.splits)

lemma stop_in_order:
  assumes "gracefulStop process c = Some s0" and "stopStep\<^sup>*\<^sup>* s0 s"
  shows "stop_ok s"
  using assms(2,1)
  by (induction rule: rtranclp_induct)
    (auto simp: gracefulStop_def stop_ok_def split: if_splits dest: stop_ok_step)

text \<open>
  While the program runs, the process is killed in the end, after both messages, whatever the worker
  does: no step of this run waits for it.
\<close>

lemma stop_completes:
  assumes "stop_ok s" and "\<not> so_exited s"
  shows "\<exists>s'. stopStep\<^sup>*\<^sup>* s s' \<and> so_pc s' = StDone \<and> so_killed s'"
proof -
  have wait: "\<exists>s'. stopStep\<^sup>*\<^sup>* s s' \<and> so_pc s' = StDone \<and> \<not> so_exited s'"
    if "so_pc s = StWait i ch" "\<not> so_exited s" for s i ch
    using so_timeout [OF that(2,1)] that(2)
    by (intro exI [of _ "stopReturn (unregister i (so_client s)) s"]) (simp add: stopReturn_def)
  have "\<exists>s'. stopStep\<^sup>*\<^sup>* s s' \<and> so_pc s' = StDone \<and> \<not> so_exited s'"
  proof (cases "so_pc s")
    case StCall
    have "so_pc (stopCall s) = StWait (workerCallId (cl_seq (so_client (stopCall s))))
        (fst (callStart workerCallId (so_client s)))" "\<not> so_exited (stopCall s)"
      using assms(2) by (simp_all add: stopCall_def case_prod_unfold Let_def)
    from wait [OF this] so_call [OF assms(2) StCall] show ?thesis
      by (meson converse_rtranclp_into_rtranclp)
  qed (use wait assms(2) in blast)+
  then obtain s1 where s1: "stopStep\<^sup>*\<^sup>* s s1" "so_pc s1 = StDone" "\<not> so_exited s1" by blast
  let ?s2 = "s1\<lparr>so_armed := True\<rparr>"
  have "stopStep s1 ?s2" using s1(3) by (rule so_arm)
  moreover have "stopStep ?s2 (?s2\<lparr>so_killed := True\<rparr>)" by (rule so_kill) (simp_all add: s1(3))
  ultimately have "stopStep\<^sup>*\<^sup>* s (?s2\<lparr>so_killed := True\<rparr>)"
    using s1(1) by (meson rtranclp.rtrancl_into_rtrancl)
  then show ?thesis using s1(2) by (intro exI [of _ "?s2\<lparr>so_killed := True\<rparr>"]) simp
qed

text \<open>
  \<open>run\<close> shuts the workers down and returns, and \<open>main\<close> exits with its result at once: the program may
  end before the goroutine has written anything, and the worker is neither told to stop nor killed.
\<close>

theorem exit_cuts_graceful_stop:
  assumes "gracefulStop True c = Some s0"
  shows "\<exists>s. stopStep\<^sup>*\<^sup>* s0 s \<and> so_out s = [] \<and> \<not> so_killed s \<and> (\<forall>s'. \<not> stopStep s s')"
proof -
  have s0: "so_out s0 = []" "\<not> so_killed s0" "\<not> so_exited s0"
    using assms by (auto simp: gracefulStop_def)
  have "stopStep s0 (s0\<lparr>so_exited := True\<rparr>)" using s0(3) by (rule so_exit)
  then have "stopStep\<^sup>*\<^sup>* s0 (s0\<lparr>so_exited := True\<rparr>)" by (rule r_into_rtranclp)
  moreover have "\<not> stopStep (s0\<lparr>so_exited := True\<rparr>) s'" for s' by (auto elim: stopStep.cases)
  ultimately show ?thesis using s0 by (intro exI [of _ "s0\<lparr>so_exited := True\<rparr>"]) simp
qed

end
