(* ===== verification/Pumps.thy ===== *)
theory Pumps
  imports Dispatch
begin

text \<open>
  The pump from gopls to the editor on bytes (\<open>pumpServer\<close>, \<open>proxy.go\<close>): it reads frame after frame;
  a frame whose body is not a message is passed on, an answer to a request of the proxy is kept, any other
  body is passed on as it was read. Other goroutines write frames of their own to the editor in between;
  the mutex of the \<open>frameWriter\<close> makes each frame one step.
\<close>

section \<open>One frame\<close>

text \<open>
  \<open>parse\<close> is \<open>json.Unmarshal\<close> into a message. The body that is passed on, if any, and the state.
\<close>

definition serverFrame ::
  "(string \<Rightarrow> message option) \<Rightarrow> string \<Rightarrow> proxyState \<times> ownState \<Rightarrow> string option \<times> proxyState \<times> ownState" where
  "serverFrame parse raw s =
     (case parse raw of
        None \<Rightarrow> (Some raw, s)
      | Some m \<Rightarrow> (if fst (handleServerResponse m (snd s)) then None else Some raw, serverMessage m s))"

section \<open>The pump and the other writers\<close>

text \<open>
  \<open>wi_in\<close>: what gopls will still write; \<open>wi_out\<close>: what the editor was written. The other two are for the
  proof: the bodies that were read, each with whether it was passed on, and the bodies of the frames that
  were written, each with whether it came from gopls.
\<close>

record wire =
  wi_in :: string
  wi_proxy :: proxyState
  wi_own :: ownState
  wi_out :: string
  wi_read :: "(bool \<times> string) list"
  wi_frames :: "(bool \<times> string) list"

definition freshWire :: "string \<Rightarrow> proxyState \<Rightarrow> wire" where
  "freshWire inp p =
     \<lparr>wi_in = inp, wi_proxy = p, wi_own = freshOwn, wi_out = '''', wi_read = [], wi_frames = []\<rparr>"

definition passFrame :: "(string \<Rightarrow> message option) \<Rightarrow> string \<Rightarrow> string \<Rightarrow> wire \<Rightarrow> wire" where
  "passFrame parse raw rest w =
     (let (out, p, ow) = serverFrame parse raw (wi_proxy w, wi_own w)
      in w\<lparr>wi_in := rest, wi_proxy := p, wi_own := ow,
           wi_out := wi_out w @ (case out of None \<Rightarrow> '''' | Some b \<Rightarrow> writeFrame b),
           wi_read := wi_read w @ [(out \<noteq> None, raw)],
           wi_frames := wi_frames w @ (case out of None \<Rightarrow> [] | Some b \<Rightarrow> [(True, b)])\<rparr>)"

text \<open>\<open>encode\<close> is \<open>json.Marshal\<close>. What goroutines do to the scope is any change of it.\<close>

inductive wireStep :: "(string \<Rightarrow> message option) \<Rightarrow> (message \<Rightarrow> string) \<Rightarrow> wire \<Rightarrow> wire \<Rightarrow> bool"
  for parse encode where
  v_frame: "readFrame (wi_in w) = Some (raw, rest) \<Longrightarrow> wireStep parse encode w (passFrame parse raw rest w)"
| v_answer: "encode m \<noteq> '''' \<Longrightarrow> int (length (encode m)) < 2 ^ 63 \<Longrightarrow> wireStep parse encode w
    (w\<lparr>wi_own := toClient m (wi_own w), wi_out := wi_out w @ writeFrame (encode m),
       wi_frames := wi_frames w @ [(False, encode m)]\<rparr>)"
| v_ask: "wireStep parse encode w (w\<lparr>wi_own := snd (askDefinition uri line char (wi_own w))\<rparr>)"
| v_timeout: "k < ow_seq (wi_own w) \<Longrightarrow>
    wireStep parse encode w (w\<lparr>wi_own := askTimeout (ownId (Suc k)) (wi_own w)\<rparr>)"
| v_scope: "wireStep parse encode w (w\<lparr>wi_proxy := p\<rparr>)"

section \<open>The invariant\<close>

text \<open>The body answers a request of the proxy.\<close>

definition ownBody :: "(string \<Rightarrow> message option) \<Rightarrow> string \<Rightarrow> bool" where
  "ownBody parse raw \<longleftrightarrow> (\<exists>m k. parse raw = Some m \<and> answersOwn k m)"

definition wire_ok :: "(string \<Rightarrow> message option) \<Rightarrow> string \<Rightarrow> wire \<Rightarrow> bool" where
  "wire_ok parse inp w \<longleftrightarrow>
     own_inv (wi_own w) \<and>
     readFrames inp = map snd (wi_read w) @ readFrames (wi_in w) \<and>
     wi_out w = concat (map writeFrame (map snd (wi_frames w))) \<and>
     list_all (\<lambda>b. b \<noteq> [] \<and> int (length b) < 2 ^ 63) (map snd (wi_frames w)) \<and>
     map snd (filter fst (wi_frames w)) = map snd (filter fst (wi_read w)) \<and>
     (\<forall>raw. (False, raw) \<in> set (wi_read w) \<longrightarrow> ownBody parse raw)"

lemma serverFrame_own: "own_inv ow \<Longrightarrow> own_inv (snd (snd (serverFrame parse raw (p, ow))))"
  using own_inv_server by (simp add: serverFrame_def split: option.split)

lemma serverFrame_out:
  assumes "own_inv ow"
  shows "fst (serverFrame parse raw (p, ow)) = Some raw \<or>
    fst (serverFrame parse raw (p, ow)) = None \<and> ownBody parse raw"
proof (cases "parse raw")
  case (Some m)
  have "answersOwn k m \<Longrightarrow> ownBody parse raw" for k using Some by (auto simp: ownBody_def)
  with assms show ?thesis
    by (cases rule: handleServerResponse_cases [where m = m]) (auto simp: serverFrame_def Some)
qed (simp add: serverFrame_def)

lemma wire_ok_frame:
  assumes "wire_ok parse inp w" and "readFrame (wi_in w) = Some (raw, rest)"
  shows "wire_ok parse inp (passFrame parse raw rest w)"
proof -
  have inv: "own_inv (wi_own w)" using assms(1) by (simp add: wire_ok_def)
  have frames: "readFrames (wi_in w) = raw # readFrames rest"
    using assms(2) by (subst readFrames.simps) simp
  obtain out p ow where s: "serverFrame parse raw (wi_proxy w, wi_own w) = (out, p, ow)"
    by (metis prod_cases3)
  have "own_inv ow" using serverFrame_own [OF inv, of parse raw "wi_proxy w"] by (simp add: s)
  moreover have "out = Some raw \<or> out = None \<and> ownBody parse raw"
    using serverFrame_out [OF inv, of parse raw "wi_proxy w"] by (simp add: s)
  ultimately show ?thesis
    using assms(1) frames readFrame_body [OF assms(2)]
    by (auto simp: wire_ok_def passFrame_def s)
qed

lemma wire_ok_step: "wireStep parse encode w w' \<Longrightarrow> wire_ok parse inp w \<Longrightarrow> wire_ok parse inp w'"
proof (induction rule: wireStep.induct)
  case (v_frame w raw rest)
  then show ?case using wire_ok_frame by blast
next
  case (v_answer m w)
  then show ?case using own_inv_step [OF ow_client] by (simp add: wire_ok_def)
next
  case (v_ask w uri line char)
  then show ?case using own_inv_ask by (simp add: wire_ok_def)
next
  case (v_timeout k w)
  then show ?case using own_inv_step [OF ow_timeout] by (simp add: wire_ok_def)
qed (simp add: wire_ok_def)

lemma wire_ok_run: "(wireStep parse encode)\<^sup>*\<^sup>* (freshWire inp p) w \<Longrightarrow> wire_ok parse inp w"
proof (induction rule: rtranclp_induct)
  case base
  have "own_inv freshOwn" by (simp add: own_inv_def freshOwn_def)
  then show ?case by (simp add: wire_ok_def freshWire_def)
next
  case (step w w')
  then show ?case using wire_ok_step by blast
qed

section \<open>Properties\<close>

text \<open>C40: gopls's bytes reach the editor. However the pump and the goroutines that write to the editor
  interleave, and whatever gopls writes: what the editor reads are exactly the frames that were written,
  whole and in order; those that came from gopls are the bodies the pump read, byte for byte and in
  their order, bodies that are no messages included; and the only ones that are missing answer a
  request of the proxy itself.\<close>

theorem editor_reads_gopls_bytes:
  assumes "(wireStep parse encode)\<^sup>*\<^sup>* (freshWire inp p) w"
  shows "readFrames (wi_out w) = map snd (wi_frames w) \<and>
    map snd (filter fst (wi_frames w)) = map snd (filter fst (wi_read w)) \<and>
    readFrames inp = map snd (wi_read w) @ readFrames (wi_in w) \<and>
    (\<forall>raw. (False, raw) \<in> set (wi_read w) \<longrightarrow>
       (\<exists>m k. parse raw = Some m \<and> m_id m = Some (ownId (Suc k)) \<and> m_method m = ''''))"
  using wire_ok_run [OF assms] readFrames_write [of "map snd (wi_frames w)"]
  by (auto simp: wire_ok_def ownBody_def answersOwn_def)

text \<open>gopls writes a frame that is no message; the proxy answers a request in between.\<close>

theorem editor_reads_gopls_bytes_witness:
  "\<exists>w :: wire. readFrames (wi_out w) = [''junk'', ''{}''] \<and> wi_in w = ''''"
proof -
  define w1 where "w1 = passFrame (\<lambda>s. None) ''junk'' '''' (freshWire (writeFrame ''junk'') freshProxy)"
  define w2 where "w2 = w1\<lparr>wi_own := toClient exampleHover (wi_own w1), wi_out := wi_out w1 @ writeFrame ''{}'',
    wi_frames := wi_frames w1 @ [(False, ''{}'')]\<rparr>"
  have "readFrame (writeFrame ''junk'' @ '''') = Some (''junk'', '''')"
    by (rule readFrame_write) simp_all
  then have "wireStep (\<lambda>s. None) (\<lambda>m. ''{}'') (freshWire (writeFrame ''junk'') freshProxy) w1"
    using v_frame [of "freshWire (writeFrame ''junk'') freshProxy" "''junk''" "''''"]
    by (simp add: w1_def freshWire_def)
  moreover have "wireStep (\<lambda>s. None) (\<lambda>m. ''{}'') w1 w2"
    unfolding w2_def by (rule v_answer) simp_all
  ultimately have "(wireStep (\<lambda>s. None) (\<lambda>m. ''{}''))\<^sup>*\<^sup>* (freshWire (writeFrame ''junk'') freshProxy) w2"
    by (meson converse_rtranclp_into_rtranclp r_into_rtranclp)
  from editor_reads_gopls_bytes [OF this] show ?thesis
    by (intro exI [of _ w2]) (simp add: w1_def w2_def passFrame_def serverFrame_def freshWire_def)
qed

end
