(* ===== verification/Spec2Isabelle.thy ===== *)
theory Spec2Isabelle
  imports WorkspaceSymbols IndexBuild Fallback Startup SessionGraph Restart WorkerStop Pumps
begin

text \<open>
  A verification library for gopls-lazy, a proxy between an editor and the Go language server
  gopls. The proxy keeps gopls from loading a whole repository: it tells gopls to leave out all
  directories but those around the open files (the scope), widens the scope when a request needs
  more, serves the package graph to gopls from a cache, and sends the questions that need the
  whole workspace to isolated gopls processes (the workers).

  \<^bold>\<open>Parts and theories.\<close>

  \<^item> \<open>Prelude\<close>, \<open>Paths\<close>, \<open>Utf8\<close>: what the code uses of Go and its library: strings as byte lists,
    maps with unordered iteration as association lists with distinct keys (\<open>gget\<close>, \<open>gput\<close>,
    \<open>gdel\<close>), \<open>strings\<close>, \<open>path/filepath\<close>, and decoding of UTF-8.
  \<^item> \<open>Uri\<close> (\<open>symbols.go\<close>, \<open>proxy.go\<close>: \<open>pathToURI\<close>, \<open>uriToPath\<close>), \<open>Framing\<close> (\<open>proxy.go\<close>:
    \<open>frameWriter.write\<close>, \<open>readFrame\<close>).
  \<^item> \<open>ModRoot\<close> (\<open>modroot.go\<close>): nested modules; the walk and its cache. The locale
    \<open>module_resolver\<close> is what the scope and the workers use of it.
  \<^item> \<open>Scope\<close> (\<open>scope.go\<close>): units, the directory filters made of them, the generations of the scope
    and the channel on which waiters sleep, saving and restoring.
  \<^item> \<open>Config\<close> (\<open>proxy.go\<close>): JSON values, messages, \<open>patchInitialize\<close> and \<open>patchConfigResponse\<close>.
  \<^item> \<open>Barrier\<close> (\<open>proxy.go\<close>, \<open>scope.go\<close>): the scope over time. Each function body that runs under
    the mutex is a step of the relation \<open>step\<close>; the answer to a pull of settings is several steps
    (its program counter is the type \<open>pc\<close>), so that every interleaving is covered.
    \<open>Fallback\<close> (\<open>scope.go\<close>) follows the timer of one generation over its re-arming.
  \<^item> \<open>HeldReqs\<close> (\<open>proxy.go\<close>): requests held until the unit of their document is applied.
  \<^item> \<open>Documents\<close> (\<open>documents.go\<close>): the tracked text of open documents, edits by UTF-16 positions.
  \<^item> \<open>Symbols\<close>, \<open>WorkspaceSymbols\<close> (\<open>symbols.go\<close>): the symbols of a file, ranked queries, the merge
    over all indexes. The locale \<open>slice_sorter\<close> is the contract of \<open>sort.Slice\<close>.
  \<^item> \<open>RevIndex\<close> (\<open>revindex.go\<close>): the index of importers, built by a walk and updated by file, and
    the closure of importers of a directory; \<open>IndexBuild\<close>: what the build makes of a file tree,
    whatever its goroutines' order, and concurrent updates as the step relation \<open>indexStep\<close>.
  \<^item> \<open>GraphKeys\<close>, \<open>GraphSlot\<close>, \<open>Modules\<close> (\<open>graph.go\<close>, \<open>proxy.go\<close>): the cache of package graphs: its
    keys and the change of root, one slot as a state machine of queries, builds and
    invalidations, the slots of nested modules and what file events do to them. \<open>DiskCache\<close> (with
    \<open>scope.go\<close>): the names of the cache files, and their replacement through a temporary file, byte
    by byte, as the step relation \<open>saveStep\<close>.
  \<^item> \<open>Resolve\<close> (\<open>resolve.go\<close>): what a rename, a search for references or for implementations waits
    for, which unit or worker answers it; \<open>CrossRef\<close> (with \<open>worker.go\<close>): all it makes the proxy
    write, from its interception to its answer.
  \<^item> \<open>WorkerClient\<close> (\<open>worker.go\<close>): the connection to a worker: ids, waiters, the reader, its end.
  \<^item> \<open>Mirror\<close>, \<open>Worker\<close> (\<open>worker.go\<close>, \<open>documents.go\<close>): the notifications written to a worker and the
    life of its handle as the step relation \<open>wstep\<close>: start, initialisation, replay, observation,
    holds, eviction, exit, restart. The locale \<open>doc_tracker\<close> is what mirroring needs of the
    tracking of documents.
  \<^item> \<open>WorkerPool\<close> (\<open>proxy.go\<close>, \<open>worker.go\<close>): the workers of a session, routing of notifications,
    initialize parameters and the answers to a worker's requests for settings; \<open>handleStep\<close> are the
    operations on one of its handles.
  \<^item> \<open>Dispatch\<close> (\<open>proxy.go\<close>, \<open>resolve.go\<close>): the two pumps, which compose all of the above, and the
    requests of the proxy itself (\<open>pendingOwn\<close>). \<open>Pumps\<close> (\<open>proxy.go\<close>): the pump from gopls to the
    editor on the bytes of the two streams, with the goroutines that write to the editor in between.
  \<^item> \<open>Session\<close> (\<open>proxy.go\<close>, \<open>resolve.go\<close>, \<open>scope.go\<close>): the whole proxy as one step relation
    \<open>sessStep\<close> over \<open>clientState\<close>, the own requests and the point of the editor's pump. Its rules
    are the operations of the other theories: \<open>e_\<close> a message of the editor (\<open>clientMessage\<close>, or the
    parts of \<open>handleClientResponse\<close>), \<open>g_\<close> one of gopls, \<open>t_\<close> timers, \<open>h_\<close> waiters of held requests,
    \<open>x_\<close> the goroutines of taken-over requests, the indexes and the workers, \<open>d_\<close> the graph server: the
    queries of gopls's driver, the builds, timers and footprints of its slots. The locale \<open>simulation\<close>
    carries what is known of the step relation of a part over to the whole.
    \<open>SessionWorkers\<close> shows that every worker of a session is in a state of \<open>Worker\<close>'s relation,
    \<open>SessionGraph\<close> the same of the graph server and \<open>GraphSlot\<close>'s.
  \<^item> \<open>WorkerWire\<close> (\<open>worker.go\<close>): the messages written to a worker, and what a server that reads them by
    the protocol knows. \<open>WorkerStop\<close> (\<open>worker.go\<close>): the end of its process, as steps.
  \<^item> \<open>Restart\<close> (\<open>scope.go\<close>): saves of the scope at any moment of a session, and the session after it.
  \<^item> \<open>Options\<close> (\<open>main.go\<close>): environment and command line. \<open>Driver\<close> (\<open>driver.go\<close>, \<open>graph.go\<close>): the
    environments of the started processes, the driver process and its connection to the graph
    server. \<open>Startup\<close> (\<open>main.go\<close>, \<open>proxy.go\<close>): \<open>Run\<close>, the first state, start and end of the proxy.

  \<^bold>\<open>State.\<close> A record holds the fields of \<open>proxy\<close> that a component uses and is extended by the
  components above it (\<open>scopeState\<close>, \<open>configState\<close>, \<open>proxyState\<close>); \<open>clientState\<close> puts them together
  for the editor's pump. Channels and shared objects (held requests, waiters) live in a store and
  are named by their index. An error return is \<open>None\<close> or the left of a sum, a panic is \<open>None\<close> of the
  operation. Sets of goroutines become step relations or lists of what was started.

  \<^bold>\<open>What is shown.\<close>
  The barrier: when a waiter is told that its unit is applied, gopls has been sent filters that
  leave it in; no wake-up is lost; generations only grow; the fallback fires only without pulls.
  Cross references see the closure of importers, which is the set of directories that
  transitively import the package in the files of the tree, and stays a superset under any
  concurrent updates; each is forwarded or answered exactly once, and a rename given to a worker
  is never answered in part. Held requests reach
  gopls once and before the next edit of their document. The tracked text is the editor's after
  any sequence of well-positioned edits, and whatever else a session does, the messages written to a
  live worker that owns a document give it exactly as the editor has it, through restarts, buffering
  and replay; at each moment at most one
  generation of a worker is current and its ready channel is closed once. Each message of the
  editor is written to gopls once or taken over, and each message of gopls has one receiver; what the
  editor reads of gopls are gopls's bytes, but for the answers to the proxy's own requests.
  A graph served at any moment of a session was built for the key of the query, up to what the driver
  process prints for gopls.
  A session, from the command line on, is a run of each of these parts at once and keeps the
  invariants of all of them; in it, a held request and a cross reference are written to gopls behind
  settings that admit their units. The next session starts with the scope of the last save, and none of
  its requests waits for it. The fallback of a generation ends. Framing, URIs and saved graphs
  are read back as written, and a cache file is replaced as a whole.
  The filters, units, nested modules, closures and matches are equal to their reference
  definitions. The places where the code does less than its comments say are theorems as well
  (\<open>eviction_hits_held_worker\<close>, \<open>nested_document_goes_stale\<close>, \<open>late_answer_reaches_editor\<close>,
  \<open>concurrent_saves_mix\<close>, \<open>subdirectory_takes_graph\<close>, \<open>emptied_scope_comes_back\<close>,
  \<open>exit_cuts_graceful_stop\<close>, ...).

  \<^bold>\<open>Bounds.\<close> There is no fuel: every loop is structural recursion or a \<open>function\<close> with a proved
  measure (the walk up from a directory: the length of the path; the closure: the directories
  not yet visited; \<open>readHeaders\<close>: the rest of the input). Lengths and counters are unbounded,
  except where the code parses them (\<open>Sscanf\<close>, \<open>Atoi\<close>: 64 bits).

  \<^bold>\<open>Parameters.\<close> What the code calls and does not define is an argument: \<open>os.Stat\<close> and the
  contents of directories, the Go parser, \<open>strings.ToLower\<close>, \<open>sort.Slice\<close>, the validity of a URL host,
  \<open>time.ParseDuration\<close>, reading of JSON numbers, the output of git, SHA-256, whether a file opens, a
  socket listens or a process starts and whether its initialisation succeeds. The socket is a function
  from the query to the bytes read; the request of go/packages is read by a parameter.

  \<^bold>\<open>Not modelled.\<close> Marshalling of JSON (messages are values; encoding is taken as faithful), logging
  and the text of the version, the processes and sockets themselves,
  \<open>golang.org/x/tools/go/packages\<close> (the result of a build is arbitrary), the Go version in its answer
  (\<open>goMinor\<close>), the deduplication of equal worker requests (\<open>singleflight\<close>), elapsed time (time-outs
  are steps that may happen at any moment, except in \<open>Fallback\<close>). The direction from the editor to
  gopls is modelled on messages, not on bytes (a frame that is not JSON is passed on there too); the
  messages of a worker's connection on the wire leave out the requests passed on to it and the
  answers to its own. The value of an index inside \<open>Session\<close> is arbitrary; \<open>RevIndex\<close> and
  \<open>IndexBuild\<close> say what it is.
\<close>

end
